(* ===== verification/Prelude.thy ===== *)
theory Prelude
  imports Complex_Main "HOL-Library.Word" "HOL-Library.Log_Nat" "HOL-Library.Signed_Division"
begin

text \<open>
  Shared vocabulary of the development: names for the machine types of the Go sources, the
  error values their functions return, and the facts on lists, maps and results that the
  component theories use through the collections declared here.
\<close>

section \<open>Machine types and error values\<close>

unbundle bit_operations_syntax

type_synonym byte = "8 word"
type_synonym bytes = "byte list"
type_synonym uint64 = "64 word"
type_synonym int32 = "32 word"

text \<open>
  A Go function with results \<open>(v, err)\<close> is a sum: \<open>Inl e\<close> when \<open>err\<close> is not \<open>nil\<close> (the
  sources never use \<open>v\<close> then), \<open>Inr v\<close> otherwise; a function whose only result is an error is
  an \<open>option\<close> with \<open>None\<close> for \<open>nil\<close>. The constructors name the error values the sources compare
  with or construct (an error wrapped with a message is its cause); \<open>ErrReply\<close> is an error reply of an
  ARDB server, \<open>ErrOther\<close> stands for an error made from a message or returned by code
  outside the repository, \<open>ErrSlice\<close> for an \<open>errors.ErrorSlice\<close>, \<open>Panic\<close> for a run-time panic,
  which no caller intercepts.
\<close>

datatype error =
    ErrNil
  | ErrServerUnavailable
  | ErrNoServersAvailable
  | ErrServerStateNotSupported
  | ErrClusterNotDefined
  | ErrNilConfig
  | ErrInvalidConfig
  | ErrReply string
  | ErrOther string
  | ErrSlice "error list"
  | Panic string

type_synonym 'a result = "error + 'a"

text \<open>\<open>errors.ErrorSlice\<close>: \<open>Add\<close> ignores \<open>nil\<close>, \<open>AsError\<close> is \<open>nil\<close> for an empty slice.\<close>

definition ErrorSlice_Add :: "error list \<Rightarrow> error option \<Rightarrow> error list" where
  "ErrorSlice_Add errs e = (case e of None \<Rightarrow> errs | Some x \<Rightarrow> errs @ [x])"

definition ErrorSlice_AsError :: "error list \<Rightarrow> error option" where
  "ErrorSlice_AsError errs = (if length errs = 0 then None else Some (ErrSlice errs))"

named_theorems go_defs \<open>definitions unfolded when a Go function body is evaluated\<close>

lemma ErrorSlice_AsError_None [simp]: "ErrorSlice_AsError errs = None \<longleftrightarrow> errs = []"
  by (simp add: ErrorSlice_AsError_def)

lemma ErrorSlice_Add_Nil [simp]: "ErrorSlice_Add errs e = [] \<longleftrightarrow> errs = [] \<and> e = None"
  by (simp add: ErrorSlice_Add_def split: option.splits)

section \<open>Go integer division\<close>

text \<open>
  Go's \<open>/\<close> and \<open>%\<close> truncate towards zero: \<open>sdiv\<close> and \<open>smod\<close> of the library. On the
  non-negative indices the storage uses they are \<open>div\<close> and \<open>mod\<close>.
\<close>

lemma sdiv_nonneg [simp]: "0 \<le> a \<Longrightarrow> 0 \<le> b \<Longrightarrow> a sdiv b = a div (b::int)"
  by (simp add: signed_divide_int_def sgn_if)

lemma smod_nonneg [simp]: "0 \<le> a \<Longrightarrow> 0 \<le> b \<Longrightarrow> a smod b = a mod (b::int)"
  by (auto simp: signed_modulo_int_def sgn_if)

section \<open>Maps and association lists\<close>

lemma option_eqI: "(\<And>v. a = Some v \<longleftrightarrow> b = Some v) \<Longrightarrow> a = b"
  by (metis not_Some_eq)

lemma distinct_map_ofI:
  assumes "distinct (map f xs)" and "x \<in> set xs"
  shows "map_of (map (\<lambda>x. (f x, g x)) xs) (f x) = Some (g x)"
proof -
  have "distinct (map fst (map (\<lambda>x. (f x, g x)) xs))" using assms(1) by (simp add: comp_def)
  with assms(2) show ?thesis by (intro map_of_is_SomeI) auto
qed

lemma map_of_map_Some_iff:
  assumes "distinct (map f xs)"
  shows "map_of (map (\<lambda>x. (f x, g x)) xs) i = Some v \<longleftrightarrow> (\<exists>x \<in> set xs. f x = i \<and> g x = v)"
proof
  assume "map_of (map (\<lambda>x. (f x, g x)) xs) i = Some v"
  then show "\<exists>x \<in> set xs. f x = i \<and> g x = v" by (auto dest!: map_of_SomeD)
next
  assume "\<exists>x \<in> set xs. f x = i \<and> g x = v"
  then show "map_of (map (\<lambda>x. (f x, g x)) xs) i = Some v" using distinct_map_ofI[OF assms] by blast
qed

lemma map_of_map_option:
  "map_of (map (\<lambda>x. (f x, h (g x))) xs) i = map_option h (map_of (map (\<lambda>x. (f x, g x)) xs) i)"
  by (induction xs) auto

lemma map_of_split:
  assumes "map_of xs p = Some e" and "distinct (map fst xs)"
  obtains ys zs where "xs = ys @ (p, e) # zs" and "p \<notin> fst ` set ys" and "p \<notin> fst ` set zs"
proof -
  from assms(1) obtain ys zs where xs: "xs = ys @ (p, e) # zs"
    by (meson map_of_SomeD split_list)
  with assms(2) have "p \<notin> fst ` set ys" and "p \<notin> fst ` set zs" by auto
  with xs that show thesis by blast
qed

section \<open>Writing into a byte slice\<close>

text \<open>\<open>copy(dst[off:off+n], src)\<close> with \<open>length src = n\<close>.\<close>

definition blit :: "'a list \<Rightarrow> nat \<Rightarrow> 'a list \<Rightarrow> 'a list" where
  "blit dst off src = take off dst @ src @ drop (off + length src) dst"

lemma length_blit [simp]: "off + length src \<le> length dst \<Longrightarrow> length (blit dst off src) = length dst"
  by (simp add: blit_def)

lemma slice_blit_same:
  "off + length src \<le> length dst \<Longrightarrow> take (length src) (drop off (blit dst off src)) = src"
  by (simp add: blit_def)

lemma slice_blit_other:
  assumes "off + length src \<le> length dst" and "o' + n \<le> off \<or> off + length src \<le> o'"
  shows "take n (drop o' (blit dst off src)) = take n (drop o' dst)"
proof (cases "o' + n \<le> off")
  case True
  with assms(1) show ?thesis by (auto simp: blit_def drop_take min_def)
next
  case False
  with assms have "off + length src \<le> o'" by simp
  with assms(1) show ?thesis
    by (simp add: blit_def min_def add.commute)
qed

lemma slice_replicate: "o' + n \<le> m \<Longrightarrow> take n (drop o' (replicate m x)) = replicate n x"
  by simp

end
