(* ===== verification/Jump_Hash.thy ===== *)
theory Jump_Hash
  imports Prelude
begin

text \<open>
  The jump consistent hash of \<open>nbd/ardb/storage/lba/lba.go\<close> (also inlined in
  \<open>nbd/ardb/cluster.go\<close>), with the double-precision arithmetic of its loop written out, and the
  proof that the loop makes progress, stops and returns a bucket in range.
\<close>

section \<open>Double-precision rounding\<close>

text \<open>
  The loop multiplies and divides \<open>float64\<close> values that are at least 1. IEEE 754 rounds the exact
  result to 53 significant bits, to the nearest, ties to even. Below, \<open>floorlog 2 n\<close> is the number
  of binary digits of \<open>n\<close>.
\<close>

definition round_half_even :: "rat \<Rightarrow> int" where
  "round_half_even x =
     (let f = \<lfloor>x\<rfloor>; d = x - of_int f
      in if d < 1 / 2 then f else if d > 1 / 2 then f + 1 else if even f then f else f + 1)"

definition float64_round :: "rat \<Rightarrow> rat" where
  "float64_round x =
     (let k = floorlog 2 (nat \<lfloor>x\<rfloor>)
      in if k \<le> 53 then of_int (round_half_even (x * 2 ^ (53 - k))) / 2 ^ (53 - k)
         else of_int (round_half_even (x / 2 ^ (k - 53))) * 2 ^ (k - 53))"

lemma round_half_even_ge: "of_int n \<le> x \<Longrightarrow> n \<le> round_half_even x"
  using le_floor_iff[of n x] by (simp add: round_half_even_def Let_def)

lemma round_half_even_le: "x \<le> of_int n \<Longrightarrow> round_half_even x \<le> n"
  unfolding round_half_even_def Let_def by (auto; linarith)

lemma floorlog_rat_bounds:
  assumes "1 \<le> (x::rat)"
  shows "2 ^ (floorlog 2 (nat \<lfloor>x\<rfloor>) - 1) \<le> x" and "x < 2 ^ floorlog 2 (nat \<lfloor>x\<rfloor>)"
    and "1 \<le> floorlog 2 (nat \<lfloor>x\<rfloor>)"
proof -
  let ?n = "nat \<lfloor>x\<rfloor>"
  have n: "0 < ?n" using assms by (simp add: le_floor_iff)
  have b: "2 ^ (floorlog 2 ?n - 1) \<le> ?n" "?n < 2 ^ floorlog 2 ?n"
    using floorlog_bounds[of ?n 2] n by auto
  have nx: "of_nat ?n \<le> x" using assms by simp
  have "rat_of_nat (2 ^ (floorlog 2 ?n - 1)) \<le> of_nat ?n" using b(1) by (rule of_nat_mono)
  then have "rat_of_nat (2 ^ (floorlog 2 ?n - 1)) \<le> x" using nx by (rule order_trans)
  then show "2 ^ (floorlog 2 ?n - 1) \<le> x" by (simp only: of_nat_power of_nat_numeral)
  have "Suc ?n \<le> 2 ^ floorlog 2 ?n" using b(2) by (rule Suc_leI)
  then have "rat_of_nat (Suc ?n) \<le> of_nat (2 ^ floorlog 2 ?n)" by (rule of_nat_mono)
  moreover have "x < of_nat (Suc ?n)" using assms by simp linarith
  ultimately show "x < 2 ^ floorlog 2 ?n" by simp
  show "1 \<le> floorlog 2 ?n" using n by (simp add: floorlog_def)
qed

text \<open>Rounding never drops below an integer that a \<open>float64\<close> represents exactly.\<close>

lemma float64_round_ge:
  assumes "of_nat n \<le> x" and "1 \<le> x" and "n < 2 ^ 53"
  shows "of_nat n \<le> float64_round x"
proof -
  define k where "k = floorlog 2 (nat \<lfloor>x\<rfloor>)"
  show ?thesis
  proof (cases "k \<le> 53")
    case True
    have "of_int (int n * 2 ^ (53 - k)) \<le> x * 2 ^ (53 - k)"
      using assms(1) by simp
    then have "int n * 2 ^ (53 - k) \<le> round_half_even (x * 2 ^ (53 - k))"
      by (rule round_half_even_ge)
    then have "rat_of_int (int n * 2 ^ (53 - k)) \<le> of_int (round_half_even (x * 2 ^ (53 - k)))"
      by (rule of_int_le_iff[THEN iffD2])
    then have "of_nat n \<le> rat_of_int (round_half_even (x * 2 ^ (53 - k))) / 2 ^ (53 - k)"
      by (simp add: field_simps)
    with True show ?thesis by (simp add: float64_round_def k_def Let_def)
  next
    case False
    have "2 ^ (k - 1) \<le> x" using floorlog_rat_bounds(1)[OF assms(2)] by (simp add: k_def)
    moreover have "(2::rat) ^ (k - 1) = 2 ^ 52 * 2 ^ (k - 53)"
      using False by (subst power_add[symmetric], intro arg_cong[where f = "power 2"]) simp
    ultimately have "of_int (2 ^ 52) \<le> x / 2 ^ (k - 53)" by (simp add: field_simps)
    then have "2 ^ 52 \<le> round_half_even (x / 2 ^ (k - 53))" by (rule round_half_even_ge)
    then have "rat_of_int (2 ^ 52) \<le> of_int (round_half_even (x / 2 ^ (k - 53)))"
      by (rule of_int_le_iff[THEN iffD2])
    then have "2 ^ 52 * 2 ^ (k - 53) \<le> of_int (round_half_even (x / 2 ^ (k - 53))) * (2::rat) ^ (k - 53)"
      by (intro mult_right_mono) simp_all
    moreover have "(2::rat) ^ 53 \<le> 2 ^ 52 * 2 ^ (k - 53)"
    proof -
      have "(2::rat) ^ 1 \<le> 2 ^ (k - 53)" using False by (intro power_increasing) auto
      then show ?thesis by simp
    qed
    moreover have "rat_of_nat n < 2 ^ 53"
      using assms(3) by (metis of_nat_less_iff of_nat_numeral of_nat_power)
    ultimately have "of_nat n \<le> of_int (round_half_even (x / 2 ^ (k - 53))) * (2::rat) ^ (k - 53)"
      by linarith
    with False show ?thesis by (simp add: float64_round_def k_def Let_def)
  qed
qed

text \<open>Rounding never passes a power of two.\<close>

lemma float64_round_le:
  assumes "x \<le> 2 ^ m" and "1 \<le> x"
  shows "float64_round x \<le> 2 ^ m"
proof -
  define k where "k = floorlog 2 (nat \<lfloor>x\<rfloor>)"
  have lo: "2 ^ (k - 1) \<le> x" and k1: "1 \<le> k"
    using floorlog_rat_bounds[OF assms(2)] by (simp_all add: k_def)
  have "(2::rat) ^ (k - 1) \<le> 2 ^ m" using lo assms(1) by linarith
  then have km: "k - 1 \<le> m" by simp
  show ?thesis
  proof (cases "k \<le> 53")
    case True
    have "x * 2 ^ (53 - k) \<le> of_int (2 ^ m * 2 ^ (53 - k))" using assms(1) by simp
    then have "round_half_even (x * 2 ^ (53 - k)) \<le> 2 ^ m * 2 ^ (53 - k)"
      by (rule round_half_even_le)
    then have "rat_of_int (round_half_even (x * 2 ^ (53 - k))) \<le> of_int (2 ^ m * 2 ^ (53 - k))"
      by (rule of_int_le_iff[THEN iffD2])
    then show ?thesis using True by (simp add: float64_round_def k_def[symmetric] Let_def field_simps)
  next
    case False
    then have e: "(2::rat) ^ m = 2 ^ (m - (k - 53)) * 2 ^ (k - 53)"
      using km by (simp flip: power_add)
    then have "x / 2 ^ (k - 53) \<le> of_int (2 ^ (m - (k - 53)))"
      using assms(1) by (simp add: field_simps)
    then have "round_half_even (x / 2 ^ (k - 53)) \<le> 2 ^ (m - (k - 53))" by (rule round_half_even_le)
    then have "rat_of_int (round_half_even (x / 2 ^ (k - 53))) \<le> of_int (2 ^ (m - (k - 53)))"
      by (rule of_int_le_iff[THEN iffD2])
    then have "rat_of_int (round_half_even (x / 2 ^ (k - 53))) * 2 ^ (k - 53) \<le> 2 ^ m"
      unfolding e by (intro mult_right_mono) simp_all
    then show ?thesis using False by (simp add: float64_round_def k_def[symmetric] Let_def)
  qed
qed

section \<open>The loop\<close>

text \<open>
  One round of the loop from the current \<open>j\<close>: \<open>key*2862933555777941757 + 1\<close> wraps at 64 bits;
  \<open>(key>>33)+1\<close> is between 1 and \<open>2^31\<close>, so both \<open>float64\<close> operations have arguments of at
  least 1, and the conversion to \<open>int64\<close> drops the fraction.
\<close>

definition jump_key :: "uint64 \<Rightarrow> uint64" where
  "jump_key key = key * 2862933555777941757 + 1"

definition jump_next :: "uint64 \<Rightarrow> nat \<Rightarrow> nat" where
  "jump_next key j =
     (let ratio = float64_round (2 ^ 31 / (of_nat (unat (drop_bit 33 key)) + 1))
      in nat \<lfloor>float64_round (float64_round (of_nat (j + 1)) * ratio)\<rfloor>)"

lemma float64_round_nat:
  assumes "n < 2 ^ 53" and "1 \<le> n"
  shows "float64_round (of_nat n) = of_nat n"
proof -
  define k where "k = floorlog 2 n"
  have "n < 2 ^ k" "2 ^ (k - 1) \<le> n"
    using floorlog_bounds[of n 2] assms(2) by (auto simp: k_def)
  have "k \<le> 53"
  proof (rule ccontr)
    assume "\<not> k \<le> 53"
    then have "(2::nat) ^ 53 \<le> 2 ^ (k - 1)" by (intro power_increasing) auto
    with \<open>2 ^ (k - 1) \<le> n\<close> assms(1) show False by linarith
  qed
  have int: "round_half_even (of_nat m) = int m" for m
    by (simp add: round_half_even_def)
  have "rat_of_nat n * 2 ^ (53 - k) = of_nat (n * 2 ^ (53 - k))" by simp
  then have "round_half_even (rat_of_nat n * 2 ^ (53 - k)) = int (n * 2 ^ (53 - k))"
    using int by metis
  with \<open>k \<le> 53\<close> show ?thesis by (simp add: float64_round_def k_def[symmetric] Let_def)
qed

lemma jump_shift_bound: "unat (drop_bit 33 (key::uint64)) < 2 ^ 31"
proof -
  have "unat (drop_bit 33 key) = unat key div 2 ^ 33"
    by (metis unat_drop_bit_eq drop_bit_eq_div)
  also have "\<dots> < 2 ^ 31"
    using unsigned_less[of key, where ?'a = nat] by (simp add: less_mult_imp_div_less)
  finally show ?thesis .
qed

lemma jump_ratio_bounds:
  fixes key :: uint64
  defines "ratio \<equiv> float64_round (2 ^ 31 / (of_nat (unat (drop_bit 33 key)) + 1))"
  shows "1 \<le> ratio" and "ratio \<le> 2 ^ 31"
proof -
  let ?d = "rat_of_nat (unat (drop_bit 33 key)) + 1"
  have "rat_of_nat (unat (drop_bit 33 key) + 1) \<le> of_nat (2 ^ 31)"
    using jump_shift_bound[of key] by (intro of_nat_mono) simp
  then have d: "?d \<le> 2 ^ 31" "1 \<le> ?d"
    using of_nat_0_le_iff[where ?'a = rat, of "unat (drop_bit 33 key)"] by (simp_all del: of_nat_unat)
  then have q: "1 \<le> 2 ^ 31 / ?d" by (simp add: field_simps)
  have "2 ^ 31 / ?d \<le> 2 ^ 31" using d(2) by (simp add: field_simps)
  then show "ratio \<le> 2 ^ 31" unfolding ratio_def using q by (rule float64_round_le)
  show "1 \<le> ratio" using float64_round_ge[of 1, OF _ q] q by (simp add: ratio_def)
qed

text \<open>Progress: every round moves \<open>j\<close> forward, whatever the key.\<close>

lemma jump_next_gt:
  assumes "j + 1 < 2 ^ 53"
  shows "j < jump_next key j"
proof -
  let ?r = "float64_round (2 ^ 31 / (of_nat (unat (drop_bit 33 key)) + 1))"
  have r: "1 \<le> ?r" by (rule jump_ratio_bounds)
  then have p: "rat_of_nat (j + 1) \<le> of_nat (j + 1) * ?r"
    using mult_left_mono[OF r, of "rat_of_nat (j + 1)"] by simp
  then have "of_nat (j + 1) \<le> float64_round (of_nat (j + 1) * ?r)"
    by (rule float64_round_ge[OF _ _ assms]) (use p in linarith)
  then have "int (j + 1) \<le> \<lfloor>float64_round (of_nat (j + 1) * ?r)\<rfloor>"
    by (simp add: le_floor_iff)
  moreover have "float64_round (rat_of_nat (j + 1)) = of_nat (j + 1)"
    by (rule float64_round_nat[OF assms]) simp
  ultimately have "int (j + 1) \<le> \<lfloor>float64_round (float64_round (of_nat (j + 1)) * ?r)\<rfloor>"
    by simp
  then show ?thesis unfolding jump_next_def Let_def by linarith
qed

text \<open>No overflow: for a 32-bit \<open>j\<close> the product fits an \<open>int64\<close>, so the conversion is exact.\<close>

lemma jump_next_fits_int64:
  assumes "j + 1 \<le> 2 ^ 31"
  shows "jump_next key j < 2 ^ 63"
proof -
  let ?r = "float64_round (2 ^ 31 / (of_nat (unat (drop_bit 33 key)) + 1))"
  have r: "1 \<le> ?r" "?r \<le> 2 ^ 31" by (rule jump_ratio_bounds)+
  have j: "rat_of_nat (j + 1) \<le> 2 ^ 31"
    using of_nat_mono[OF assms, where ?'a = rat] by simp
  have "rat_of_nat (j + 1) * ?r \<le> 2 ^ 31 * 2 ^ 31" using j r by (intro mult_mono) auto
  then have "rat_of_nat (j + 1) * ?r \<le> 2 ^ 62" by simp
  moreover have "1 \<le> rat_of_nat (j + 1) * ?r"
    using mult_mono[of 1 "rat_of_nat (j + 1)" 1 ?r] r by simp
  ultimately have "float64_round (rat_of_nat (j + 1) * ?r) \<le> 2 ^ 62" by (rule float64_round_le)
  moreover have "float64_round (rat_of_nat (j + 1)) = of_nat (j + 1)"
    by (rule float64_round_nat) (use assms in auto)
  ultimately have "of_int \<lfloor>float64_round (float64_round (rat_of_nat (j + 1)) * ?r)\<rfloor> \<le> rat_of_int (2 ^ 62)"
    using of_int_floor_le order_trans by fastforce
  then have "\<lfloor>float64_round (float64_round (rat_of_nat (j + 1)) * ?r)\<rfloor> \<le> 2 ^ 62"
    by (simp only: of_int_le_iff)
  then have "jump_next key j \<le> nat (2 ^ 62)"
    unfolding jump_next_def Let_def by (rule nat_mono)
  also have "\<dots> < 2 ^ 63" by simp
  finally show ?thesis .
qed

text \<open>
  \<open>jumpConsistentHash(key uint64, numBuckets int32) int32\<close>: the result is the last \<open>b\<close>, and
  \<open>-1\<close> when there is no bucket. The bucket count is a 32-bit value, so \<open>j\<close> stays below \<open>2^31\<close>
  whenever the loop continues and the loop stops.
\<close>

function jump_loop :: "int32 \<Rightarrow> uint64 \<Rightarrow> int \<Rightarrow> nat \<Rightarrow> int" where
  "jump_loop n key b j =
     (if int j < sint n then jump_loop n (jump_key key) (int j) (jump_next (jump_key key) j) else b)"
  by pat_completeness auto
termination
proof (relation "measure (\<lambda>(n, key, b, j). nat (sint n - int j))")
  fix n :: int32 and key b j
  assume j: "int j < sint n"
  have "sint n < 2 ^ 31" using sint_lt[of n] by simp
  then have "j < jump_next (jump_key key) j" using j by (intro jump_next_gt) auto
  then show "((n, jump_key key, int j, jump_next (jump_key key) j), n, key, b, j)
      \<in> measure (\<lambda>(n, key, b, j). nat (sint n - int j))"
    using j by auto
qed simp

declare jump_loop.simps [simp del]

definition jumpConsistentHash :: "uint64 \<Rightarrow> int32 \<Rightarrow> int" where
  "jumpConsistentHash key numBuckets = jump_loop numBuckets key (-1) 0"

lemma jump_loop_range:
  assumes "0 \<le> b" and "b < sint n"
  shows "0 \<le> jump_loop n key b j \<and> jump_loop n key b j < sint n"
  using assms
proof (induction n key b j rule: jump_loop.induct)
  case (1 n key b j)
  show ?case
    using "1.IH" "1.prems" by (cases "int j < sint n") (auto simp: jump_loop.simps[of n key b j])
qed

text \<open>The hash of any key is a valid bucket position.\<close>

lemma jumpConsistentHash_range:
  assumes "0 < sint n"
  shows "0 \<le> jumpConsistentHash key n" and "jumpConsistentHash key n < sint n"
proof -
  have "jumpConsistentHash key n = jump_loop n (jump_key key) 0 (jump_next (jump_key key) 0)"
    unfolding jumpConsistentHash_def by (subst jump_loop.simps) (simp add: assms)
  with jump_loop_range[of 0 n] assms
  show "0 \<le> jumpConsistentHash key n" and "jumpConsistentHash key n < sint n" by auto
qed

lemma jumpConsistentHash_one: "jumpConsistentHash key 1 = 0"
  using jumpConsistentHash_range[of 1 key] by simp

lemma jump_loop_ge: "l \<le> b \<Longrightarrow> l \<le> int j \<Longrightarrow> l \<le> jump_loop n key b j"
proof (induction n key b j rule: jump_loop.induct)
  case (1 n key b j)
  show ?case
  proof (cases "int j < sint n")
    case True
    have "sint n < 2 ^ 31" using sint_lt[of n] by simp
    then have "j < jump_next (jump_key key) j" using True by (intro jump_next_gt) auto
    with "1.IH"[OF True] "1.prems" True show ?thesis by (simp add: jump_loop.simps[of n key b j])
  next
    case False
    with "1.prems" show ?thesis by (simp add: jump_loop.simps[of n key b j])
  qed
qed

text \<open>
  Consistency, the property the algorithm is named for: with more buckets a key either keeps its
  bucket or moves to one of the new ones.
\<close>

lemma jump_loop_mono:
  assumes "sint n \<le> sint m" and "b < sint n"
  shows "jump_loop m key b j = jump_loop n key b j \<or> sint n \<le> jump_loop m key b j"
  using assms
proof (induction n key b j rule: jump_loop.induct)
  case (1 n key b j)
  show ?case
  proof (cases "int j < sint n")
    case True
    with "1.IH"[OF True "1.prems"(1)] "1.prems" show ?thesis
      by (simp add: jump_loop.simps[of n key b j] jump_loop.simps[of m key b j])
  next
    case False
    then have n: "jump_loop n key b j = b" by (simp add: jump_loop.simps[of n key b j])
    show ?thesis
    proof (cases "int j < sint m")
      case True
      have "j < jump_next (jump_key key) j"
        using True sint_lt[of m] by (intro jump_next_gt) auto
      then have "sint n \<le> jump_loop m (jump_key key) (int j) (jump_next (jump_key key) j)"
        using False by (intro jump_loop_ge) auto
      with True show ?thesis by (simp add: jump_loop.simps[of m key b j])
    next
      case False
      then show ?thesis by (simp add: n jump_loop.simps[of m key b j])
    qed
  qed
qed

end
