(* ===== verification/Server_Index.thy ===== *)
theory Server_Index
  imports Jump_Hash
begin

text \<open>
  \<open>FindFirstServerIndex\<close> and \<open>ComputeServerIndex\<close> of \<open>nbd/ardb/cluster.go\<close>: how an object index is
  mapped to a server. The second one retries until a predicate accepts a server; that it returns
  as soon as one server is accepted rests on the multiplier of its pseudo-random sequence, for which
  every server of a cluster of at most \<open>2 ^ 15\<close> servers is the result for some key.
\<close>

section \<open>The functions\<close>

text \<open>
  A predicate on server indices answers or fails. A loop that does not return is \<open>None\<close>.
  \<open>server_jump\<close> is the inner loop of \<open>ComputeServerIndex\<close>, which is the loop of
  \<open>jumpConsistentHash\<close> over 64 bit counts; \<open>uint64(objectIndex)\<close> makes the overflow of
  \<open>objectIndex++\<close> invisible.
\<close>

type_synonym ServerIndexPredicate = "int \<Rightarrow> bool result"

partial_function (option) FindFirst_loop :: "int \<Rightarrow> ServerIndexPredicate \<Rightarrow> int \<Rightarrow> int result option" where
  "FindFirst_loop serverCount predicate serverIndex =
     (if serverIndex < serverCount then
        (case predicate serverIndex of
           Inl err \<Rightarrow> Some (Inl err)
         | Inr ok \<Rightarrow> if ok then Some (Inr serverIndex)
                    else FindFirst_loop serverCount predicate (serverIndex + 1))
      else Some (Inl ErrNoServersAvailable))"

declare FindFirst_loop.simps [code]

definition FindFirstServerIndex :: "int \<Rightarrow> ServerIndexPredicate \<Rightarrow> int result option" where
  "FindFirstServerIndex serverCount predicate = FindFirst_loop serverCount predicate 0"

partial_function (option) server_jump :: "int \<Rightarrow> uint64 \<Rightarrow> int \<Rightarrow> nat \<Rightarrow> int option" where
  "server_jump serverCount key serverIndex j =
     (if int j < serverCount
      then server_jump serverCount (jump_key key) (int j) (jump_next (jump_key key) j)
      else Some serverIndex)"

declare server_jump.simps [code]

partial_function (option) server_retry :: "int \<Rightarrow> ServerIndexPredicate \<Rightarrow> int \<Rightarrow> int \<Rightarrow> int result option" where
  "server_retry serverCount predicate objectIndex serverIndex =
     Option.bind (server_jump serverCount (word_of_int objectIndex) serverIndex 0)
       (\<lambda>s. case predicate s of
              Inl err \<Rightarrow> Some (Inl err)
            | Inr ok \<Rightarrow> if ok then Some (Inr s) else server_retry serverCount predicate (objectIndex + 1) s)"

declare server_retry.simps [code]

definition ComputeServerIndex :: "int \<Rightarrow> int \<Rightarrow> ServerIndexPredicate \<Rightarrow> int result option" where
  "ComputeServerIndex serverCount objectIndex predicate =
     (if serverCount = 0 then Some (Inl (Panic ''integer divide by zero''))
      else let serverIndex = objectIndex smod serverCount
           in case predicate serverIndex of
                Inl err \<Rightarrow> Some (Inl err)
              | Inr ok \<Rightarrow> if ok then Some (Inr serverIndex)
                         else server_retry serverCount predicate objectIndex serverIndex)"

section \<open>The first server\<close>

lemma FindFirst_loop_None:
  assumes "\<And>k. i \<le> k \<Longrightarrow> k < n \<Longrightarrow> predicate k = Inr False"
  shows "FindFirst_loop n predicate i = Some (Inl ErrNoServersAvailable)"
  using assms
proof (induction "nat (n - i)" arbitrary: i)
  case 0 then show ?case by (simp add: FindFirst_loop.simps)
next
  case (Suc d)
  then have "i < n" "predicate i = Inr False" by auto
  with Suc.hyps(1)[of "i + 1"] Suc.hyps(2) Suc.prems show ?case
    by (simp add: FindFirst_loop.simps[of n predicate i])
qed

lemma FindFirst_loop_stop:
  assumes "i \<le> s" and "s < n" and "predicate s \<noteq> Inr False"
    and "\<And>k. i \<le> k \<Longrightarrow> k < s \<Longrightarrow> predicate k = Inr False"
  shows "FindFirst_loop n predicate i = Some (map_sum id (\<lambda>_. s) (predicate s))"
  using assms
proof (induction "nat (s - i)" arbitrary: i)
  case 0
  then have "i = s" by simp
  with 0 show ?case by (auto simp: FindFirst_loop.simps split: sum.splits)
next
  case (Suc d)
  then have "i < n" "i < s" "predicate i = Inr False" by auto
  with Suc.hyps(1)[of "i + 1"] Suc.hyps(2) Suc.prems show ?case
    by (simp add: FindFirst_loop.simps[of n predicate i])
qed

lemma FindFirst_loop_Some:
  assumes "i \<le> s" and "s < n" and "predicate s = Inr True"
    and "\<And>k. i \<le> k \<Longrightarrow> k < s \<Longrightarrow> predicate k = Inr False"
  shows "FindFirst_loop n predicate i = Some (Inr s)"
  using FindFirst_loop_stop[of i s n predicate] assms by simp

text \<open>The search for the first server returns; it stops at the first server that is not dead.\<close>

lemma FindFirst_loop_returns:
  "FindFirst_loop n predicate i = Some (Inl ErrNoServersAvailable) \<or>
   (\<exists>s. i \<le> s \<and> s < n \<and> predicate s \<noteq> Inr False \<and> (\<forall>k. i \<le> k \<longrightarrow> k < s \<longrightarrow> predicate k = Inr False) \<and>
        FindFirst_loop n predicate i = Some (map_sum id (\<lambda>_. s) (predicate s)))"
proof (cases "\<exists>k. i \<le> k \<and> k < n \<and> predicate k \<noteq> Inr False")
  case True
  let ?P = "\<lambda>m. i + int m < n \<and> predicate (i + int m) \<noteq> Inr False"
  from True obtain k where "i \<le> k" "k < n" "predicate k \<noteq> Inr False" by blast
  then have "?P (nat (k - i))" by simp
  then obtain m where m: "?P m" "\<And>j. j < m \<Longrightarrow> \<not> ?P j" using exists_least_iff[of ?P] by blast
  have dead: "predicate k = Inr False" if "i \<le> k" "k < i + int m" for k
    using m(2)[of "nat (k - i)"] that m(1) by simp
  then have "FindFirst_loop n predicate i = Some (map_sum id (\<lambda>_. i + int m) (predicate (i + int m)))"
    using m(1) by (intro FindFirst_loop_stop) simp_all
  then show ?thesis using m(1) dead by (intro disjI2 exI[of _ "i + int m"]) simp
next
  case False
  then show ?thesis using FindFirst_loop_None[of i n predicate] by blast
qed

section \<open>The server of an object\<close>

lemma server_jump_eq:
  assumes "0 \<le> n" and "n < 2 ^ 31"
  shows "server_jump n key b j = Some (jump_loop (word_of_int n) key b j)"
proof -
  have s: "sint (word_of_int n :: int32) = n"
    using assms by (simp add: sint_sbintrunc' signed_take_bit_int_eq_self_iff)
  show ?thesis
    using s
  proof (induction "word_of_int n :: int32" key b j rule: jump_loop.induct)
    case (1 key b j)
    then show ?case
      by (cases "int j < n") (simp_all add: server_jump.simps[of n key b j] jump_loop.simps[of "word_of_int n" key b j])
  qed
qed

definition server_hash :: "int \<Rightarrow> uint64 \<Rightarrow> int" where
  "server_hash n key = jumpConsistentHash key (word_of_int n)"

lemma server_jump_hash:
  assumes "0 < n" and "n < 2 ^ 31"
  shows "server_jump n key b 0 = Some (server_hash n key)"
    and "0 \<le> server_hash n key" and "server_hash n key < n"
proof -
  have s: "sint (word_of_int n :: int32) = n"
    using assms by (simp add: sint_sbintrunc' signed_take_bit_int_eq_self_iff)
  have "jump_loop (word_of_int n) key b 0 = jump_loop (word_of_int n) key (- 1) 0"
    using assms s by (simp add: jump_loop.simps[of _ key _ 0])
  then show "server_jump n key b 0 = Some (server_hash n key)"
    using assms by (simp add: server_jump_eq server_hash_def jumpConsistentHash_def)
  show "0 \<le> server_hash n key" and "server_hash n key < n"
    using jumpConsistentHash_range[of "word_of_int n" key] assms s by (simp_all add: server_hash_def)
qed

text \<open>The retry loop returns the first server of the sequence of hashes that the predicate accepts.\<close>

lemma server_retry_first:
  assumes n: "0 < n" "n < 2 ^ 31"
    and "predicate (server_hash n (word_of_int (i + int k))) \<noteq> Inr False"
    and "\<And>m. m < k \<Longrightarrow> predicate (server_hash n (word_of_int (i + int m))) = Inr False"
  shows "server_retry n predicate i b =
    Some (map_sum id (\<lambda>_. server_hash n (word_of_int (i + int k))) (predicate (server_hash n (word_of_int (i + int k)))))"
  using assms(3,4)
proof (induction k arbitrary: i b)
  case 0
  then show ?case by (auto simp: server_retry.simps[of n predicate i b] server_jump_hash[OF n] split: sum.splits)
next
  case (Suc k)
  have "predicate (server_hash n (word_of_int i)) = Inr False" using Suc.prems(2)[of 0] by simp
  moreover have "server_retry n predicate (i + 1) c =
    Some (map_sum id (\<lambda>_. server_hash n (word_of_int (i + int (Suc k)))) (predicate (server_hash n (word_of_int (i + int (Suc k))))))" for c
    using Suc.IH[of "i + 1" c] Suc.prems(1) Suc.prems(2)[of "Suc m" for m] by (simp add: ac_simps id_def)
  ultimately show ?case by (simp add: server_retry.simps[of n predicate i b] server_jump_hash[OF n] id_def)
qed

text \<open>When every server is dead the search does not return.\<close>

lemma server_retry_dead:
  assumes n0: "0 < n0" "n0 < 2 ^ 31" and dead: "\<And>k. 0 \<le> k \<Longrightarrow> k < n0 \<Longrightarrow> predicate k = Inr False"
  shows "server_retry n0 predicate i b = None"
proof (rule ccontr)
  assume "server_retry n0 predicate i b \<noteq> None"
  then obtain r where "server_retry n0 predicate i b = Some r" by blast
  then have "n0 = n0 \<longrightarrow> predicate = predicate \<longrightarrow> False"
  proof (rule server_retry.raw_induct[where P = "\<lambda>n p i b r. n = n0 \<longrightarrow> p = predicate \<longrightarrow> False", rotated])
    fix f :: "int \<Rightarrow> ServerIndexPredicate \<Rightarrow> int \<Rightarrow> int \<Rightarrow> int result option" and n p i b r
    assume ih: "\<And>n p i b r. f n p i b = Some r \<Longrightarrow> n = n0 \<longrightarrow> p = predicate \<longrightarrow> False"
      and e: "Option.bind (server_jump n (word_of_int i) b 0)
        (\<lambda>s. case p s of Inl err \<Rightarrow> Some (Inl err) | Inr ok \<Rightarrow> if ok then Some (Inr s) else f n p (i + 1) s) = Some r"
    have "predicate (server_hash n0 k) = Inr False" for k by (rule dead[OF server_jump_hash(2,3)[OF n0]])
    then show "n = n0 \<longrightarrow> p = predicate \<longrightarrow> False" using ih e by (fastforce simp: server_jump_hash(1)[OF n0])
  qed
  then show False by simp
qed

section \<open>Every server is reached\<close>

text \<open>
  The pairs \<open>(x, y)\<close> with \<open>y = 2862933555777941757 * x mod 2 ^ 64\<close> form a lattice with the basis
  \<open>(975451704, -3597658792)\<close> and \<open>(-4918494013, -770597705)\<close>, which is short enough for every square of side
  \<open>2 ^ 33\<close> to hold a point of it.
\<close>

lemma jump_lattice:
  fixes X0 :: int
  obtains x where "X0 \<le> x" and "x < X0 + 2 ^ 33" and "(2862933555777941757 * x + 1) mod 2 ^ 64 < 2 ^ 33"
proof -
  define X where "X = X0 + 975451704"
  define r1 where "r1 = (770597705 * X) mod 2 ^ 64"
  define r2 where "r2 = (- (3597658792 * X)) mod 2 ^ 64"
  define m where "m = (770597705 * X) div 2 ^ 64"
  define k where "k = (- (3597658792 * X)) div 2 ^ 64"
  define x where "x = 975451704 * m - 4918494013 * k"
  define y where "y = - (3597658792 * m) - 770597705 * k"
  have r: "0 \<le> r1" "r1 < 2 ^ 64" "0 \<le> r2" "r2 < 2 ^ 64" by (simp_all add: r1_def r2_def)
  have m: "2 ^ 64 * m = 770597705 * X - r1" unfolding m_def r1_def by (simp add: minus_mod_eq_mult_div)
  have k: "2 ^ 64 * k = - (3597658792 * X) - r2" unfolding k_def r2_def by (simp only: minus_mod_eq_mult_div)
  have x: "2 ^ 64 * x = 2 ^ 64 * X - 975451704 * r1 + 4918494013 * r2" using m k by (simp add: x_def)
  have y: "2 ^ 64 * y = 3597658792 * r1 + 770597705 * r2" using m k by (simp add: y_def)
  have xb: "X0 \<le> x" "x < X0 + 2 ^ 33" using x r by (simp_all add: X_def)
  have yb: "0 \<le> y + 1" "y + 1 < 2 ^ 33" using y r by simp_all
  have "2862933555777941757 * x + 1 = (y + 1) + 2 ^ 64 * (151390045 * m - 763349971 * k)"
    by (simp add: x_def y_def)
  then have "(2862933555777941757 * x + 1) mod 2 ^ 64 = (y + 1) mod 2 ^ 64"
    by (simp only: mod_mult_self2)
  also have "\<dots> = y + 1" using yb by (intro mod_pos_pos_trivial) simp_all
  finally show thesis using that[of x] xb yb by simp
qed

lemma float64_round_err:
  assumes "1 \<le> x" and "x < 2 ^ 15"
  shows "float64_round x \<le> x + 1 / 2 ^ 39"
proof -
  define k where "k = floorlog 2 (nat \<lfloor>x\<rfloor>)"
  have "2 ^ (k - 1) \<le> x" using floorlog_rat_bounds[OF assms(1)] by (simp add: k_def)
  then have "(2::rat) ^ (k - 1) < 2 ^ 15" using assms(2) by linarith
  then have "k - 1 < 15" by (rule power_less_imp_less_exp[rotated]) simp
  then have k: "k \<le> 15" by simp
  let ?y = "x * 2 ^ (53 - k)"
  have "of_int (round_half_even ?y) \<le> ?y + 1 / 2"
    unfolding round_half_even_def Let_def by (auto; linarith)
  then have "float64_round x \<le> (?y + 1 / 2) / 2 ^ (53 - k)"
    using k by (simp add: float64_round_def k_def[symmetric] divide_right_mono)
  also have "\<dots> = x + 1 / 2 ^ (54 - k)"
  proof -
    have "(2::rat) ^ (54 - k) = 2 * 2 ^ (53 - k)" using k by (simp flip: power_Suc add: Suc_diff_le)
    then show ?thesis by (simp add: add_divide_distrib)
  qed
  also have "\<dots> \<le> x + 1 / 2 ^ 39"
    using k by (intro add_left_mono divide_left_mono power_increasing) auto
  finally show ?thesis .
qed

lemma jump_next_far:
  assumes "unat (drop_bit 33 key) = 0" and "j < 2 ^ 31" and "0 < n" and "n \<le> 2 ^ 31"
  shows "n \<le> jump_next key j"
proof -
  have r: "float64_round (2 ^ 31) = 2 ^ 31" using float64_round_nat[of "2 ^ 31"] by simp
  have j: "float64_round (of_nat (j + 1)) = of_nat (j + 1)" using assms(2) by (intro float64_round_nat) auto
  let ?x = "rat_of_nat (j + 1) * 2 ^ 31"
  have "of_nat n \<le> (2 ^ 31 :: rat)" using of_nat_mono[OF assms(4), where ?'a = rat] by simp
  moreover have "(2 ^ 31 :: rat) \<le> ?x" by simp
  moreover have "(1::rat) \<le> 2 ^ 31" by simp
  ultimately have "of_nat n \<le> ?x" and "1 \<le> ?x" by linarith+
  then have "of_nat n \<le> float64_round ?x" using assms(4) by (intro float64_round_ge) auto
  then have "int n \<le> \<lfloor>float64_round ?x\<rfloor>" by (simp add: le_floor_iff)
  moreover have "jump_next key j = nat \<lfloor>float64_round ?x\<rfloor>"
    unfolding jump_next_def Let_def assms(1) j using r by simp
  ultimately show ?thesis by (simp add: le_nat_iff)
qed

lemma jump_next_first:
  assumes s: "1 \<le> s" "s < 2 ^ 15" and d: "unat (drop_bit 33 key) + 1 = 2 ^ 31 div s"
  shows "jump_next key 0 = s"
proof -
  define D where "D = (2::nat) ^ 31 div s"
  define x where "x = (2 ^ 31 :: rat) / of_nat D"
  have "2 ^ 16 \<le> D"
  proof -
    have "(2::nat) ^ 31 div 2 ^ 15 \<le> 2 ^ 31 div s" using s by (intro div_le_mono2) auto
    then show ?thesis by (simp add: D_def)
  qed
  have lo: "s * D \<le> 2 ^ 31" by (simp add: D_def)
  have "D \<le> 2 ^ 31" by (simp add: D_def)
  have "2 ^ 31 < s * D + s" using s dividend_less_times_div[of s "2 ^ 31"] by (simp add: D_def)
  then have hi: "2 ^ 31 + 1 \<le> (s + 1) * D" using s \<open>2 ^ 16 \<le> D\<close> by (simp add: algebra_simps)
  have Dpos: "0 < rat_of_nat D" using \<open>2 ^ 16 \<le> D\<close> by simp
  have xlo: "of_nat s \<le> x"
    unfolding x_def using Dpos of_nat_mono[OF lo, where ?'a = rat] by (simp add: pos_le_divide_eq)
  have "x + 1 / of_nat D \<le> of_nat (s + 1)"
    unfolding x_def add_divide_distrib[symmetric]
    using Dpos of_nat_mono[OF hi, where ?'a = rat] by (simp add: pos_divide_le_eq distrib_right)
  moreover have "1 / 2 ^ 31 \<le> 1 / rat_of_nat D"
    using Dpos of_nat_mono[OF \<open>D \<le> 2 ^ 31\<close>, where ?'a = rat] by (intro divide_left_mono) auto
  ultimately have xhi: "x + 1 / 2 ^ 31 \<le> of_nat s + 1" by simp
  have s15: "rat_of_nat s + 1 \<le> 2 ^ 15"
    using of_nat_mono[of "s + 1" "2 ^ 15", where ?'a = rat] s(2) by simp
  have s1: "1 \<le> rat_of_nat s" using s(1) by simp
  define r where "r = float64_round x"
  have rlo: "of_nat s \<le> r" unfolding r_def using xlo s1 s(2) by (intro float64_round_ge) auto
  have rhi: "r \<le> x + 1 / 2 ^ 39" unfolding r_def using xlo s1 xhi s15 by (intro float64_round_err) auto
  have flo: "of_nat s \<le> float64_round r" using rlo s1 s(2) by (intro float64_round_ge) auto
  have "float64_round r \<le> r + 1 / 2 ^ 39"
    using rlo rhi s1 xhi s15 by (intro float64_round_err) auto
  then have fhi: "float64_round r < of_nat s + 1" using rhi xhi by simp
  have "\<lfloor>float64_round r\<rfloor> = int s" using flo fhi by (simp add: floor_eq_iff)
  moreover have "float64_round 1 = 1" using float64_round_nat[of 1] by simp
  moreover have "float64_round (2 ^ 31 / (of_nat (unat (drop_bit 33 key)) + 1)) = r"
  proof -
    have "rat_of_nat (unat (drop_bit 33 key)) + 1 = of_nat D" using d by (metis D_def of_nat_1 of_nat_add)
    then show ?thesis by (simp add: r_def x_def)
  qed
  ultimately show ?thesis by (simp add: jump_next_def Let_def)
qed

lemma jump_key_onto: "jump_key ((key - 1) * 16133697096952638549) = key"
proof -
  have "(16133697096952638549 :: uint64) * 2862933555777941757 = 1" by simp
  then show ?thesis by (simp only: jump_key_def mult.assoc) simp
qed

lemma drop_33_word: "unat (drop_bit 33 (word_of_int x :: uint64)) = nat ((x mod 2 ^ 64) div 2 ^ 33)"
proof -
  have "uint (drop_bit 33 (word_of_int x :: uint64)) = (x mod 2 ^ 64) div 2 ^ 33"
    unfolding unsigned_drop_bit_eq uint_word_of_int by (simp add: drop_bit_eq_div take_bit_eq_mod)
  then show ?thesis by (simp add: unat_eq_nat_uint)
qed

lemma server_hash_unfold:
  assumes "0 < n" and "n < 2 ^ 31"
  shows "server_hash n key = jump_loop (word_of_int n) (jump_key key) 0 (jump_next (jump_key key) 0)"
    and "sint (word_of_int n :: int32) = n"
proof -
  show s: "sint (word_of_int n :: int32) = n"
    using assms by (simp add: sint_sbintrunc' signed_take_bit_int_eq_self_iff)
  show "server_hash n key = jump_loop (word_of_int n) (jump_key key) 0 (jump_next (jump_key key) 0)"
    unfolding server_hash_def jumpConsistentHash_def
    by (subst jump_loop.simps) (simp add: s assms)
qed

theorem server_hash_onto:
  assumes "0 \<le> s" and "s < n" and n: "n \<le> 2 ^ 15"
  shows "\<exists>key. server_hash n key = s"
proof (cases "s = 0")
  case True
  obtain key where key: "jump_key key = 0" using jump_key_onto by blast
  have n0: "0 < n" "n < 2 ^ 31" using assms by simp_all
  have "nat n \<le> jump_next 0 0" using n0 by (intro jump_next_far) simp_all
  then have "\<not> int (jump_next 0 0) < n" by linarith
  then have "server_hash n key = s"
    unfolding server_hash_unfold(1)[OF n0] key using True
    by (subst jump_loop.simps) (simp add: server_hash_unfold(2)[OF n0])
  then show ?thesis by blast
next
  case False
  define D where "D = (2::nat) ^ 31 div nat s"
  have n0: "0 < n" "n < 2 ^ 31" and s: "1 \<le> nat s" "nat s < 2 ^ 15" using assms False by simp_all
  have "(2::nat) ^ 31 div 2 ^ 15 \<le> 2 ^ 31 div nat s" using s by (intro div_le_mono2) auto
  then have D: "1 \<le> D" by (simp add: D_def)
  have D31: "D \<le> 2 ^ 31" by (simp add: D_def)
  from jump_lattice[of "int (D - 1) * 2 ^ 33"] obtain x where
    x: "int (D - 1) * 2 ^ 33 \<le> x" "x < int (D - 1) * 2 ^ 33 + 2 ^ 33" and
    y: "(2862933555777941757 * x + 1) mod 2 ^ 64 < 2 ^ 33" by blast
  define key1 :: uint64 where "key1 = word_of_int x"
  have "x < 2 ^ 64" using x(2) D D31 by simp
  then have "x mod 2 ^ 64 = x" using x(1) by (intro mod_pos_pos_trivial) auto
  moreover have "x div 2 ^ 33 = int (D - 1)"
    using x by (intro int_div_pos_eq[of x "2 ^ 33" _ "x - 2 ^ 33 * int (D - 1)"]) (simp_all add: algebra_simps)
  ultimately have "unat (drop_bit 33 key1) = D - 1"
    by (simp add: key1_def drop_33_word)
  then have j1: "jump_next key1 0 = nat s" using s D by (intro jump_next_first) (simp_all add: D_def)
  have "jump_key key1 = word_of_int (2862933555777941757 * x + 1)"
    by (simp add: jump_key_def key1_def wi_hom_mult[symmetric] wi_hom_add[symmetric])
  then have "unat (drop_bit 33 (jump_key key1)) = 0"
    using y by (simp only: drop_33_word) simp
  then have "nat n \<le> jump_next (jump_key key1) (nat s)"
    using s n0 by (intro jump_next_far) auto
  then have "\<not> int (jump_next (jump_key key1) (nat s)) < n" by linarith
  then have "server_hash n ((key1 - 1) * 16133697096952638549) = s"
    unfolding server_hash_unfold(1)[OF n0] jump_key_onto j1
    using assms
    by (subst jump_loop.simps, subst jump_loop.simps) (simp add: server_hash_unfold(2)[OF n0])
  then show ?thesis by blast
qed


text \<open>
  With at least one accepted server among at most \<open>2 ^ 15\<close> and an object index that is not negative, the
  search returns, with an accepted server.
\<close>

text \<open>
  Where the search stops depends only on the set of servers at which it stops, those that are not dead.
\<close>

lemma ComputeServerIndex_search:
  assumes i: "0 \<le> i" and n: "n \<le> 2 ^ 15" and s: "0 \<le> s" "s < n" "S s"
  shows "\<exists>t. 0 \<le> t \<and> t < n \<and> S t \<and>
    (\<forall>predicate. (\<forall>k. 0 \<le> k \<longrightarrow> k < n \<longrightarrow> (predicate k \<noteq> Inr False \<longleftrightarrow> S k)) \<longrightarrow>
       ComputeServerIndex n i predicate = Some (map_sum id (\<lambda>_. t) (predicate t)))"
proof -
  have n0: "0 < n" "n < 2 ^ 31" using s n by simp_all
  let ?h = "\<lambda>m. server_hash n (word_of_int (i + int m))"
  have h: "0 \<le> ?h m" "?h m < n" for m using server_jump_hash(2,3)[OF n0] by auto
  obtain key where "server_hash n key = s" using server_hash_onto[OF s(1,2) n] by blast
  moreover have "\<exists>m. key = word_of_int (i + int m)"
  proof -
    have "(i + (uint key - i) mod 2 ^ 64) mod 2 ^ 64 = uint key mod 2 ^ 64" by (simp add: mod_simps)
    also have "\<dots> = uint key" using uint_lt2p[of key] by (intro mod_pos_pos_trivial) simp_all
    finally have "key = word_of_int (i + (uint key - i) mod 2 ^ 64)"
      by (simp only: word_uint_eq_iff uint_word_of_int) simp
    then show ?thesis by (metis nonneg_int_cases pos_mod_sign zero_less_power zero_less_numeral)
  qed
  ultimately have "\<exists>m. S (?h m)" using s(3) by metis
  then have ok: "S (?h (LEAST m. S (?h m)))" by (rule LeastI_ex)
  have im: "0 \<le> i mod n" "i mod n < n" "i smod n = i mod n" using n0 i by simp_all
  show ?thesis
  proof (cases "S (i mod n)")
    case True
    have "ComputeServerIndex n i p = Some (map_sum id (\<lambda>_. i mod n) (p (i mod n)))"
      if "\<forall>k. 0 \<le> k \<longrightarrow> k < n \<longrightarrow> (p k \<noteq> Inr False \<longleftrightarrow> S k)" for p
    proof -
      have "p (i mod n) \<noteq> Inr False" using that im True by blast
      then show ?thesis using im n0 by (auto simp: ComputeServerIndex_def Let_def split: sum.splits)
    qed
    with im True show ?thesis by blast
  next
    case False
    have "ComputeServerIndex n i p = Some (map_sum id (\<lambda>_. ?h (LEAST m. S (?h m))) (p (?h (LEAST m. S (?h m)))))"
      if p: "\<forall>k. 0 \<le> k \<longrightarrow> k < n \<longrightarrow> (p k \<noteq> Inr False \<longleftrightarrow> S k)" for p
    proof -
      have "p (i mod n) = Inr False" using p im False by blast
      moreover have "p (?h m) = Inr False" if "m < (LEAST m. S (?h m))" for m using not_less_Least[OF that] p h by blast
      ultimately show ?thesis using server_retry_first[of n p i, OF n0, of "LEAST m. S (?h m)"] p h ok im n0
        by (simp add: ComputeServerIndex_def)
    qed
    with h ok show ?thesis by blast
  qed
qed

lemma ComputeServerIndex_returns:
  assumes i: "0 \<le> i" and n: "n \<le> 2 ^ 15"
    and total: "\<And>k. 0 \<le> k \<Longrightarrow> k < n \<Longrightarrow> \<exists>b. predicate k = Inr b"
    and s: "0 \<le> s" "s < n" "predicate s = Inr True"
  shows "\<exists>t. ComputeServerIndex n i predicate = Some (Inr t) \<and> 0 \<le> t \<and> t < n \<and> predicate t = Inr True"
proof -
  from ComputeServerIndex_search[OF i n s(1,2), of "\<lambda>k. predicate k \<noteq> Inr False"] s(3) obtain t where
    t: "0 \<le> t" "t < n" "predicate t \<noteq> Inr False" "ComputeServerIndex n i predicate = Some (map_sum id (\<lambda>_. t) (predicate t))" by auto
  moreover from total[OF t(1,2)] t(3) have "predicate t = Inr True" by auto
  ultimately show ?thesis by simp
qed

lemma ComputeServerIndex_dead:
  assumes "0 < n" and "n < 2 ^ 31" and "\<And>k. 0 \<le> k \<Longrightarrow> k < n \<Longrightarrow> predicate k = Inr False" and "0 \<le> i"
  shows "ComputeServerIndex n i predicate = None"
proof -
  have "0 \<le> i mod n" "i mod n < n" "i smod n = i mod n" using assms(1,4) by simp_all
  then show ?thesis using assms by (simp add: ComputeServerIndex_def server_retry_dead)
qed

end
