(* ===== verification/Config.thy ===== *)
theory Config
  imports Prelude
begin

text \<open>
  The primitive types and formats of the \<open>config\<close> package (\<open>primitive.go\<close>, \<open>validation.go\<close>,
  \<open>format.go\<close>): vdisk types as sets of property bits, storage server states, and the validation,
  comparison and cloning of the configurations. Struct-tag validation and the dial-string check
  come from the third-party package \<open>govalidator\<close> and are parameters.
\<close>

section \<open>Vdisk types\<close>

type_synonym VdiskType = "8 word"

definition propDeduped :: VdiskType where "propDeduped = 1"
definition propPersistent :: VdiskType where "propPersistent = 2"
definition propTemporary :: VdiskType where "propTemporary = 4"
definition propTlogSupport :: VdiskType where "propTlogSupport = 8"
definition propTemplateSupport :: VdiskType where "propTemplateSupport = 16"

lemmas prop_defs = propDeduped_def propPersistent_def propTemporary_def propTlogSupport_def
  propTemplateSupport_def

definition VdiskTypeBoot :: VdiskType where
  "VdiskTypeBoot = propDeduped OR propPersistent OR propTlogSupport OR propTemplateSupport"
definition VdiskTypeDB :: VdiskType where
  "VdiskTypeDB = propPersistent OR propTlogSupport OR propTemplateSupport"
definition VdiskTypeCache :: VdiskType where "VdiskTypeCache = propPersistent"
definition VdiskTypeTmp :: VdiskType where "VdiskTypeTmp = propTemporary"

lemma vdisk_types: "VdiskTypeBoot = 27" "VdiskTypeDB = 26" "VdiskTypeCache = 2" "VdiskTypeTmp = 4"
  by (simp_all add: VdiskTypeBoot_def VdiskTypeDB_def VdiskTypeCache_def VdiskTypeTmp_def prop_defs)

datatype StorageType = StorageNil | StorageDeduped | StorageNonDeduped | StorageSemiDeduped

text \<open>The constants are \<open>1 << iota\<close> on the second and later lines of their block.\<close>

definition StorageType_UInt8 :: "StorageType \<Rightarrow> 8 word" where
  "StorageType_UInt8 st =
     (case st of StorageNil \<Rightarrow> 0 | StorageDeduped \<Rightarrow> 2 | StorageNonDeduped \<Rightarrow> 4 | StorageSemiDeduped \<Rightarrow> 8)"

definition StorageType_String :: "StorageType \<Rightarrow> string" where
  "StorageType_String st =
     (case st of StorageDeduped \<Rightarrow> ''deduped'' | StorageNonDeduped \<Rightarrow> ''nondeduped''
      | StorageSemiDeduped \<Rightarrow> ''semideduped'' | _ \<Rightarrow> ''unknown'')"

definition TlogSupport :: "VdiskType \<Rightarrow> bool" where
  "TlogSupport t = (t AND propTlogSupport \<noteq> 0)"

definition TemplateSupport :: "VdiskType \<Rightarrow> bool" where
  "TemplateSupport t = (t AND propTemplateSupport \<noteq> 0)"

definition VdiskType_StorageType :: "VdiskType \<Rightarrow> StorageType" where
  "VdiskType_StorageType t = (if t AND propDeduped \<noteq> 0 then StorageDeduped else StorageNonDeduped)"

definition VdiskType_Validate :: "VdiskType \<Rightarrow> error option" where
  "VdiskType_Validate t =
     (if t = VdiskTypeBoot \<or> t = VdiskTypeDB \<or> t = VdiskTypeCache \<or> t = VdiskTypeTmp then None
      else Some (ErrOther ''invalid VdiskType''))"

definition VdiskType_String :: "VdiskType \<Rightarrow> string" where
  "VdiskType_String t =
     (if t = VdiskTypeBoot then ''boot'' else if t = VdiskTypeDB then ''db''
      else if t = VdiskTypeCache then ''cache'' else if t = VdiskTypeTmp then ''tmp'' else '''')"

definition VdiskType_SetString :: "string \<Rightarrow> VdiskType result" where
  "VdiskType_SetString s =
     (if s = ''boot'' then Inr VdiskTypeBoot else if s = ''db'' then Inr VdiskTypeDB
      else if s = ''cache'' then Inr VdiskTypeCache else if s = ''tmp'' then Inr VdiskTypeTmp
      else Inl (ErrOther ''not a valid VdiskType''))"

lemma VdiskType_String_SetString:
  "VdiskType_Validate t = None \<longleftrightarrow> VdiskType_SetString (VdiskType_String t) = Inr t"
  by (simp add: VdiskType_Validate_def VdiskType_SetString_def VdiskType_String_def vdisk_types)

lemma VdiskType_SetString_String:
  "VdiskType_SetString s = Inr t \<Longrightarrow> VdiskType_String t = s \<and> VdiskType_Validate t = None"
  by (auto simp: VdiskType_Validate_def VdiskType_SetString_def VdiskType_String_def vdisk_types
      split: if_splits)

section \<open>Storage server states\<close>

datatype StorageServerState = Online | Offline | Repair | Respread | RIP | Unknown

definition StorageServerState_String :: "StorageServerState \<Rightarrow> string" where
  "StorageServerState_String st =
     (case st of Online \<Rightarrow> ''online'' | Offline \<Rightarrow> ''offline'' | Repair \<Rightarrow> ''repair''
      | Respread \<Rightarrow> ''respread'' | RIP \<Rightarrow> ''rip'' | Unknown \<Rightarrow> '''')"

definition StorageServerState_SetString :: "string \<Rightarrow> StorageServerState result" where
  "StorageServerState_SetString s =
     (if s = ''online'' then Inr Online else if s = ''offline'' then Inr Offline
      else if s = ''repair'' then Inr Repair else if s = ''respread'' then Inr Respread
      else if s = ''rip'' then Inr RIP else Inl (ErrOther ''not a valid StorageServerState''))"

lemma StorageServerState_roundtrip:
  "StorageServerState_SetString (StorageServerState_String st) = Inr st \<longleftrightarrow> st \<noteq> Unknown"
  by (cases st) (simp_all add: StorageServerState_SetString_def StorageServerState_String_def)

section \<open>Block sizes\<close>

text \<open>The argument is an \<open>int64\<close>; from 512 upwards \<open>bs-1\<close> does not overflow.\<close>

definition ValidateBlockSize :: "int \<Rightarrow> bool" where
  "ValidateBlockSize bs \<longleftrightarrow> bs \<ge> 512 \<and> (bs AND (bs - 1)) = 0"

lemma and_pred_zero_iff: "0 < n \<Longrightarrow> (n AND (n - 1)) = 0 \<longleftrightarrow> (\<exists>k. n = 2 ^ k)" for n :: nat
proof (induction n rule: less_induct)
  case (less n)
  show ?case
  proof (cases "even n")
    case True
    then obtain m where m: "n = 2 * m" by blast
    with less.prems have "0 < m" "m < n" by auto
    have "(n AND (n - 1)) = 2 * (m AND (m - 1))"
    proof -
      have "n - 1 = 2 * (m - 1) + 1" using \<open>0 < m\<close> by (simp add: m)
      then show ?thesis by (subst and_rec) (simp add: m)
    qed
    moreover have "(\<exists>k. n = 2 ^ k) \<longleftrightarrow> (\<exists>k. m = 2 ^ k)"
    proof
      assume "\<exists>k. n = 2 ^ k"
      then obtain k where "n = 2 ^ k" by blast
      with m \<open>0 < m\<close> show "\<exists>k. m = 2 ^ k" by (cases k) auto
    next
      assume "\<exists>k. m = 2 ^ k"
      then obtain k where "m = 2 ^ k" by blast
      then have "n = 2 ^ Suc k" by (simp add: m)
      then show "\<exists>k. n = 2 ^ k" by blast
    qed
    ultimately show ?thesis using less.IH[OF \<open>m < n\<close> \<open>0 < m\<close>] by simp
  next
    case False
    then obtain m where m: "n = 2 * m + 1" by (metis oddE)
    have "(n AND (n - 1)) = 2 * m"
      by (subst and_rec) (simp add: m)
    moreover have "(\<exists>k. n = 2 ^ k) \<longleftrightarrow> m = 0"
    proof
      assume "\<exists>k. n = 2 ^ k"
      then obtain k where "n = 2 ^ k" by blast
      with m show "m = 0" by (cases k) (auto, presburger)
    next
      assume "m = 0"
      then have "n = 2 ^ 0" by (simp add: m)
      then show "\<exists>k. n = 2 ^ k" by blast
    qed
    ultimately show ?thesis by simp
  qed
qed

lemma ValidateBlockSize_iff: "ValidateBlockSize bs \<longleftrightarrow> (\<exists>k \<ge> 9. bs = 2 ^ k)"
proof (cases "512 \<le> bs")
  case True
  define n where "n = nat bs"
  have n: "bs = int n" "0 < n" "512 \<le> n" using True by (auto simp: n_def)
  have "bs AND (bs - 1) = int (n AND (n - 1))"
    using n by (simp add: of_nat_and_eq of_nat_diff)
  then have "ValidateBlockSize bs \<longleftrightarrow> (\<exists>k. n = 2 ^ k)"
    using True and_pred_zero_iff[OF n(2)] by (simp add: ValidateBlockSize_def)
  also have "\<dots> \<longleftrightarrow> (\<exists>k \<ge> 9. bs = 2 ^ k)"
  proof
    assume "\<exists>k. n = 2 ^ k"
    then obtain k where k: "n = 2 ^ k" by blast
    with n(3) have "(2::nat) ^ 9 \<le> 2 ^ k" by simp
    then have "9 \<le> k" by (rule power_le_imp_le_exp[rotated]) simp
    with k n(1) show "\<exists>k \<ge> 9. bs = 2 ^ k" by auto
  next
    assume "\<exists>k \<ge> 9. bs = 2 ^ k"
    then obtain k where "bs = 2 ^ k" by blast
    then have "n = 2 ^ k" by (simp add: n_def nat_power_eq)
    then show "\<exists>k. n = 2 ^ k" by blast
  qed
  finally show ?thesis .
next
  case False
  moreover have "(512::int) \<le> 2 ^ k" if "9 \<le> k" for k
    using power_increasing[OF that, of "2::int"] by simp
  ultimately show ?thesis by (auto simp: ValidateBlockSize_def)
qed

section \<open>Static vdisk configuration\<close>

record VdiskStaticConfig =
  BlockSize :: uint64
  ReadOnly :: bool
  Size :: uint64
  Type :: VdiskType
  TemplateVdiskID :: string

definition gibibyteAsBytes :: uint64 where "gibibyteAsBytes = 1024 * 1024 * 1024"

text \<open>\<open>cfg.Size * gibibyteAsBytes\<close> is a \<open>uint64\<close> product and wraps.\<close>

definition VdiskStaticConfig_Validate :: "(VdiskStaticConfig \<Rightarrow> error option) \<Rightarrow> VdiskStaticConfig option \<Rightarrow> error option" where
  "VdiskStaticConfig_Validate validStruct c =
     (case c of None \<Rightarrow> Some ErrNilConfig
      | Some cfg \<Rightarrow>
          (case validStruct cfg of Some _ \<Rightarrow> Some ErrInvalidConfig
           | None \<Rightarrow>
               if \<not> ValidateBlockSize (sint (BlockSize cfg)) then Some (ErrOther ''blockSize'')
               else if Size cfg * gibibyteAsBytes < BlockSize cfg then Some (ErrOther ''size'')
               else VdiskType_Validate (Type cfg)))"

lemma unat_size_bytes: "unat sz < 2 ^ 34 \<Longrightarrow> unat (sz * gibibyteAsBytes) = unat sz * 2 ^ 30"
  for sz :: uint64
  by (simp add: gibibyteAsBytes_def unat_word_ariths)

lemma VdiskStaticConfig_Validate_ok:
  assumes "VdiskStaticConfig_Validate validStruct (Some cfg) = None"
  shows "\<exists>k \<ge> 9. unat (BlockSize cfg) = 2 ^ k" and "VdiskType_Validate (Type cfg) = None"
    and "unat (Size cfg) < 2 ^ 34 \<Longrightarrow> 1 \<le> (unat (Size cfg) * 2 ^ 30) div unat (BlockSize cfg)"
proof -
  have v: "ValidateBlockSize (sint (BlockSize cfg))" "\<not> Size cfg * gibibyteAsBytes < BlockSize cfg"
    and t: "VdiskType_Validate (Type cfg) = None"
    using assms by (auto simp: VdiskStaticConfig_Validate_def split: option.splits if_splits)
  from v(1) obtain k where k: "9 \<le> k" "sint (BlockSize cfg) = 2 ^ k" by (auto simp: ValidateBlockSize_iff)
  then have "BlockSize cfg = word_of_int (2 ^ k)" by (metis of_int_sint scast_id)
  then have bs: "BlockSize cfg = 2 ^ k" by simp
  have "(2::int) ^ k < 2 ^ 63" using k(2) sint_lt[of "BlockSize cfg"] by simp
  then have "k < 63" by (rule power_less_imp_less_exp[rotated]) simp
  then have u: "unat (BlockSize cfg) = 2 ^ k"
    using unsigned_of_nat[of "2 ^ k", where ?'a = nat and ?'b = 64]
    by (simp add: bs take_bit_nat_eq_self)
  with k(1) show "\<exists>k \<ge> 9. unat (BlockSize cfg) = 2 ^ k" by blast
  show "VdiskType_Validate (Type cfg) = None" by (rule t)
  assume "unat (Size cfg) < 2 ^ 34"
  then have "unat (BlockSize cfg) \<le> unat (Size cfg) * 2 ^ 30"
    using v(2) by (simp add: not_less word_le_nat_alt unat_size_bytes)
  then show "1 \<le> (unat (Size cfg) * 2 ^ 30) div unat (BlockSize cfg)"
    using u by (simp add: div_greater_zero_iff Suc_le_eq)
qed

section \<open>Storage servers and clusters\<close>

record StorageServerConfig =
  Address :: string
  Database :: int
  State :: StorageServerState

definition StorageServerConfig_Validate :: "(string \<Rightarrow> bool) \<Rightarrow> StorageServerConfig option \<Rightarrow> error option" where
  "StorageServerConfig_Validate isDialString c =
     (case c of None \<Rightarrow> Some ErrNilConfig
      | Some cfg \<Rightarrow>
          if State cfg = RIP then None
          else if Database cfg < 0 then Some ErrInvalidConfig
          else if Address cfg = [] then Some ErrInvalidConfig
          else if \<not> isDialString (Address cfg) then Some ErrInvalidConfig
          else None)"

definition StorageServerConfig_Equal :: "StorageServerConfig option \<Rightarrow> StorageServerConfig \<Rightarrow> bool" where
  "StorageServerConfig_Equal c other =
     (case c of None \<Rightarrow> False
      | Some cfg \<Rightarrow>
          if State cfg \<noteq> State other then False
          else if Database cfg \<noteq> Database other then False
          else Address cfg = Address other)"

record StorageClusterConfig =
  Servers :: "StorageServerConfig list"

fun validate_servers :: "(string \<Rightarrow> bool) \<Rightarrow> StorageServerConfig list \<Rightarrow> error option" where
  "validate_servers isDialString [] = None"
| "validate_servers isDialString (s # ss) =
     (case StorageServerConfig_Validate isDialString (Some s) of
        Some e \<Rightarrow> Some e | None \<Rightarrow> validate_servers isDialString ss)"

definition StorageClusterConfig_Validate ::
  "(StorageClusterConfig \<Rightarrow> error option) \<Rightarrow> (string \<Rightarrow> bool) \<Rightarrow> StorageClusterConfig option \<Rightarrow> error option" where
  "StorageClusterConfig_Validate validStruct isDialString c =
     (case c of None \<Rightarrow> Some ErrNilConfig
      | Some cfg \<Rightarrow>
          (case validStruct cfg of Some _ \<Rightarrow> Some ErrInvalidConfig
           | None \<Rightarrow> validate_servers isDialString (Servers cfg)))"

definition StorageClusterConfig_Clone :: "StorageClusterConfig option \<Rightarrow> StorageClusterConfig" where
  "StorageClusterConfig_Clone c = (case c of None \<Rightarrow> \<lparr>Servers = []\<rparr> | Some cfg \<Rightarrow> \<lparr>Servers = Servers cfg\<rparr>)"

fun servers_equal :: "StorageServerConfig list \<Rightarrow> StorageServerConfig list \<Rightarrow> bool" where
  "servers_equal (a # as) (b # bs) =
     (if \<not> StorageServerConfig_Equal (Some a) b then False else servers_equal as bs)"
| "servers_equal _ _ = True"

definition StorageClusterConfig_Equal :: "StorageClusterConfig option \<Rightarrow> StorageClusterConfig \<Rightarrow> bool" where
  "StorageClusterConfig_Equal c other =
     (case c of None \<Rightarrow> False
      | Some cfg \<Rightarrow>
          if length (Servers cfg) \<noteq> length (Servers other) then False
          else servers_equal (Servers cfg) (Servers other))"

lemma StorageServerConfig_Equal_iff [simp]: "StorageServerConfig_Equal (Some a) b \<longleftrightarrow> a = b"
  by (cases a; cases b) (auto simp: StorageServerConfig_Equal_def)

lemma servers_equal_iff: "length as = length bs \<Longrightarrow> servers_equal as bs \<longleftrightarrow> as = bs"
  by (induction as bs rule: servers_equal.induct) auto

lemma StorageClusterConfig_Equal_iff: "StorageClusterConfig_Equal c b \<longleftrightarrow> c = Some b"
  by (cases c; cases b; cases "the c") (auto simp: StorageClusterConfig_Equal_def servers_equal_iff)

lemma validate_servers_None:
  "validate_servers isDialString ss = None \<longleftrightarrow>
     (\<forall>s \<in> set ss. StorageServerConfig_Validate isDialString (Some s) = None)"
  by (induction ss) (auto split: option.splits)

lemma StorageClusterConfig_Validate_ok:
  assumes "StorageClusterConfig_Validate validStruct isDialString (Some cfg) = None"
    and "s \<in> set (Servers cfg)" and "State s \<noteq> RIP"
  shows "0 \<le> Database s \<and> isDialString (Address s)"
proof -
  have "validate_servers isDialString (Servers cfg) = None"
    using assms(1) by (simp add: StorageClusterConfig_Validate_def split: option.splits)
  then have "StorageServerConfig_Validate isDialString (Some s) = None"
    using assms(2) by (simp add: validate_servers_None)
  with assms(3) show ?thesis by (simp add: StorageServerConfig_Validate_def split: if_splits)
qed

section \<open>References of a vdisk to its clusters\<close>

record VdiskNBDConfig =
  StorageClusterID :: string
  TemplateStorageClusterID :: string
  SlaveStorageClusterID :: string
  TlogServerClusterID :: string


end
