(* ===== verification/Ardb.thy ===== *)
theory Ardb
  imports Config
begin

text \<open>
  Talking to ARDB servers: the replies and their conversions (\<open>nbd/ardb/reply.go\<close> over the vendored
  \<open>redigo\<close> package), storage actions (\<open>action.go\<close>, \<open>command/type.go\<close>) and dialing (\<open>conn.go\<close>). The
  servers themselves are not part of the sources: a connection is a function parameter, and the
  locale \<open>ardb\<close> states what the storage relies on of the ARDB commands it sends.
\<close>

section \<open>Decimal integers on the wire\<close>

text \<open>\<open>strconv.AppendInt(_, n, 10)\<close>, used for integer arguments, and \<open>strconv.ParseInt(_, 10, 64)\<close>.\<close>

fun digits :: "nat \<Rightarrow> bytes" where
  "digits n = (if n < 10 then [of_nat (48 + n)] else digits (n div 10) @ [of_nat (48 + n mod 10)])"

declare digits.simps [simp del]

definition itoa :: "int \<Rightarrow> bytes" where
  "itoa i = (if i < 0 then 45 # digits (nat (- i)) else digits (nat i))"

fun parse_digits :: "nat \<Rightarrow> bytes \<Rightarrow> nat option" where
  "parse_digits acc [] = Some acc"
| "parse_digits acc (b # bs) =
     (if 48 \<le> b \<and> b \<le> 57 then parse_digits (acc * 10 + (unat b - 48)) bs else None)"

definition parse_range :: "int \<Rightarrow> int result" where
  "parse_range n = (if - (2 ^ 63) \<le> n \<and> n < 2 ^ 63 then Inr n else Inl (ErrOther ''value out of range''))"

definition ParseInt :: "bytes \<Rightarrow> int result" where
  "ParseInt s =
     (case s of [] \<Rightarrow> Inl (ErrOther ''invalid syntax'')
      | c # cs \<Rightarrow>
          let (neg, ds) = (if c = 43 then (False, cs) else if c = 45 then (True, cs) else (False, s))
          in if ds = [] then Inl (ErrOther ''invalid syntax'')
             else (case parse_digits 0 ds of
                     None \<Rightarrow> Inl (ErrOther ''invalid syntax'')
                   | Some n \<Rightarrow> parse_range (if neg then - int n else int n)))"

lemma digit_byte:
  assumes "d < 10"
  shows "unat (of_nat (48 + d) :: byte) = 48 + d" and "48 \<le> (of_nat (48 + d) :: byte)"
    and "(of_nat (48 + d) :: byte) \<le> 57"
proof -
  show u: "unat (of_nat (48 + d) :: byte) = 48 + d"
    using assms by (simp add: unsigned_of_nat take_bit_nat_eq_self del: of_nat_add)
  show "48 \<le> (of_nat (48 + d) :: byte)" unfolding word_le_nat_alt u by simp
  show "(of_nat (48 + d) :: byte) \<le> 57" unfolding word_le_nat_alt u using assms by simp
qed

lemma parse_digits_append:
  "parse_digits acc (xs @ ys) =
     (case parse_digits acc xs of None \<Rightarrow> None | Some n \<Rightarrow> parse_digits n ys)"
  by (induction xs arbitrary: acc) auto

lemma parse_digits_single: "d < 10 \<Longrightarrow> parse_digits acc [of_nat (48 + d)] = Some (acc * 10 + d)"
  using digit_byte[of d] by (simp del: of_nat_add)

lemma parse_digits_digits: "parse_digits 0 (digits n) = Some n"
proof (induction n rule: digits.induct)
  case (1 n)
  show ?case
  proof (cases "n < 10")
    case True
    then show ?thesis
      using parse_digits_single[OF True, of 0] by (simp add: digits.simps[of n] del: parse_digits.simps of_nat_add)
  next
    case False
    then have "parse_digits 0 (digits n) = parse_digits (n div 10) [of_nat (48 + n mod 10)]"
      using 1 by (simp add: digits.simps[of n] parse_digits_append del: parse_digits.simps of_nat_add)
    also have "\<dots> = Some (n div 10 * 10 + n mod 10)" by (rule parse_digits_single) simp
    finally show ?thesis by simp
  qed
qed

lemma digits_hd: "\<exists>b bs. digits n = b # bs \<and> 48 \<le> b"
proof (induction n rule: digits.induct)
  case (1 n)
  show ?case
  proof (cases "n < 10")
    case True
    then show ?thesis using digit_byte(2)[OF True] by (simp add: digits.simps[of n] del: of_nat_add)
  next
    case False
    with 1 show ?thesis by (auto simp: digits.simps[of n])
  qed
qed

text \<open>An integer argument is read back as itself, so distinct integers are distinct fields.\<close>

lemma ParseInt_itoa: "- (2 ^ 63) \<le> i \<Longrightarrow> i < 2 ^ 63 \<Longrightarrow> ParseInt (itoa i) = Inr i"
proof -
  assume r: "- (2 ^ 63) \<le> i" "i < 2 ^ 63"
  obtain b bs where d: "digits (nat \<bar>i\<bar>) = b # bs" "48 \<le> b" using digits_hd by blast
  then have "b \<noteq> 43" "b \<noteq> 45" by auto
  with d r parse_digits_digits[of "nat \<bar>i\<bar>"] show ?thesis
    by (cases "i < 0") (simp_all add: ParseInt_def itoa_def parse_range_def)
qed

lemma itoa_abs: "itoa i = (if i < 0 then 45 # digits (nat \<bar>i\<bar>) else digits (nat \<bar>i\<bar>))"
  by (simp add: itoa_def)

lemma digits_inject: "digits m = digits n \<Longrightarrow> m = n"
  by (metis option.inject parse_digits_digits)

lemma digits_no_minus: "digits n \<noteq> 45 # bs"
  using digits_hd[of n] by auto

lemma itoa_inject: "itoa i = itoa j \<longleftrightarrow> i = j"
proof
  assume eq: "itoa i = itoa j"
  then have "(i < 0) = (j < 0)"
    using digits_no_minus[of "nat \<bar>i\<bar>"] digits_no_minus[of "nat \<bar>j\<bar>"] unfolding itoa_abs
    by (metis (full_types))
  moreover from this eq have "nat \<bar>i\<bar> = nat \<bar>j\<bar>"
    unfolding itoa_abs by (auto dest: digits_inject split: if_splits)
  ultimately show "i = j" by auto
qed simp

section \<open>Replies\<close>

datatype reply = RNil | RInt int | RBulk bytes | RSimple string | RArr "reply list" | RError string

type_synonym do_result = "reply \<times> error option"

definition bytes_of_string :: "string \<Rightarrow> bytes" where "bytes_of_string s = map of_char s"

definition string_of_bytes :: "bytes \<Rightarrow> string" where "string_of_bytes bs = map (\<lambda>b. char_of (unat b)) bs"

text \<open>The conversions of the vendored \<open>redigo\<close> package, for a reply and an error.\<close>

definition redis_Bytes :: "do_result \<Rightarrow> bytes result" where
  "redis_Bytes r = (case r of (_, Some e) \<Rightarrow> Inl e
     | (RBulk b, None) \<Rightarrow> Inr b | (RSimple s, None) \<Rightarrow> Inr (bytes_of_string s) | (RNil, None) \<Rightarrow> Inl ErrNil
     | (RError m, None) \<Rightarrow> Inl (ErrReply m) | (_, None) \<Rightarrow> Inl (ErrOther ''unexpected type for Bytes''))"

definition redis_Int64 :: "do_result \<Rightarrow> int result" where
  "redis_Int64 r = (case r of (_, Some e) \<Rightarrow> Inl e
     | (RInt n, None) \<Rightarrow> Inr n | (RBulk b, None) \<Rightarrow> ParseInt b | (RNil, None) \<Rightarrow> Inl ErrNil
     | (RError m, None) \<Rightarrow> Inl (ErrReply m) | (_, None) \<Rightarrow> Inl (ErrOther ''unexpected type for Int64''))"

definition ParseBool :: "bytes \<Rightarrow> bool result" where
  "ParseBool b =
     (if string_of_bytes b \<in> {''1'', ''t'', ''T'', ''true'', ''TRUE'', ''True''} then Inr True
      else if string_of_bytes b \<in> {''0'', ''f'', ''F'', ''false'', ''FALSE'', ''False''} then Inr False
      else Inl (ErrOther ''invalid syntax''))"

definition redis_Bool :: "do_result \<Rightarrow> bool result" where
  "redis_Bool r = (case r of (_, Some e) \<Rightarrow> Inl e
     | (RInt n, None) \<Rightarrow> Inr (n \<noteq> 0) | (RBulk b, None) \<Rightarrow> ParseBool b | (RNil, None) \<Rightarrow> Inl ErrNil
     | (RError m, None) \<Rightarrow> Inl (ErrReply m) | (_, None) \<Rightarrow> Inl (ErrOther ''unexpected type for Bool''))"

definition redis_Values :: "do_result \<Rightarrow> reply list result" where
  "redis_Values r = (case r of (_, Some e) \<Rightarrow> Inl e
     | (RArr rs, None) \<Rightarrow> Inr rs | (RNil, None) \<Rightarrow> Inl ErrNil
     | (RError m, None) \<Rightarrow> Inl (ErrReply m) | (_, None) \<Rightarrow> Inl (ErrOther ''unexpected type for Values''))"

definition redis_String :: "do_result \<Rightarrow> string result" where
  "redis_String r = (case r of (_, Some e) \<Rightarrow> Inl e
     | (RBulk b, None) \<Rightarrow> Inr (string_of_bytes b) | (RSimple s, None) \<Rightarrow> Inr s | (RNil, None) \<Rightarrow> Inl ErrNil
     | (RError m, None) \<Rightarrow> Inl (ErrReply m) | (_, None) \<Rightarrow> Inl (ErrOther ''unexpected type for String''))"

text \<open>The helpers of \<open>reply.go\<close>. A nil byte slice is \<open>None\<close>.\<close>

definition reply_Error :: "do_result \<Rightarrow> error option" where
  "reply_Error r = snd r"

definition Bytes :: "do_result \<Rightarrow> bytes result" where
  "Bytes r = redis_Bytes r"

definition OptBytes :: "do_result \<Rightarrow> bytes option result" where
  "OptBytes r =
     (if fst r = RNil then (case snd r of None \<Rightarrow> Inr None | Some e \<Rightarrow> Inl e)
      else map_sum id Some (redis_Bytes r))"

definition reply_Bool :: "do_result \<Rightarrow> bool result" where
  "reply_Bool r = redis_Bool r"

definition OptBool :: "do_result \<Rightarrow> bool result" where
  "OptBool r =
     (if fst r = RNil then (case snd r of None \<Rightarrow> Inr False | Some e \<Rightarrow> Inl e) else redis_Bool r)"

text \<open>\<open>redis.Int\<close> differs from \<open>redis.Int64\<close> only where \<open>int\<close> has 32 bits.\<close>

definition reply_Int :: "do_result \<Rightarrow> int result" where
  "reply_Int r = redis_Int64 r"

definition OptInt :: "do_result \<Rightarrow> int result" where
  "OptInt r =
     (if fst r = RNil then (case snd r of None \<Rightarrow> Inr 0 | Some e \<Rightarrow> Inl e) else redis_Int64 r)"

definition reply_Int64 :: "do_result \<Rightarrow> int result" where
  "reply_Int64 r = redis_Int64 r"

definition OptInt64 :: "do_result \<Rightarrow> int result" where
  "OptInt64 r =
     (if fst r = RNil then (case snd r of None \<Rightarrow> Inr 0 | Some e \<Rightarrow> Inl e) else redis_Int64 r)"

definition reply_String :: "do_result \<Rightarrow> string result" where
  "reply_String r = redis_String r"

definition OptString :: "do_result \<Rightarrow> string result" where
  "OptString r =
     (if fst r = RNil then (case snd r of None \<Rightarrow> Inr [] | Some e \<Rightarrow> Inl e) else redis_String r)"

definition Values :: "do_result \<Rightarrow> reply list result" where
  "Values r = redis_Values r"

definition CursorAndValues :: "do_result \<Rightarrow> (string \<times> reply) result" where
  "CursorAndValues r =
     (case redis_Values r of Inl e \<Rightarrow> Inl e
      | Inr values \<Rightarrow>
          if length values \<noteq> 2 then Inl (ErrOther ''CursorAndValues expects a slice of 2 values'')
          else (case redis_String (values ! 0, None) of Inl e \<Rightarrow> Inl e
                | Inr cursor \<Rightarrow> Inr (cursor, values ! 1)))"

text \<open>\<open>redis.ScanSlice\<close> into a slice of \<open>int64\<close>: nil elements stay zero.\<close>

fun scan_int64s :: "reply list \<Rightarrow> int list result" where
  "scan_int64s [] = Inr []"
| "scan_int64s (r # rs) =
     (case (case r of RNil \<Rightarrow> Inr 0 | RBulk b \<Rightarrow> ParseInt b | RInt n \<Rightarrow> Inr n
            | _ \<Rightarrow> Inl (ErrOther ''cannot convert'')) of
        Inl e \<Rightarrow> Inl e
      | Inr n \<Rightarrow> (case scan_int64s rs of Inl e \<Rightarrow> Inl e | Inr ns \<Rightarrow> Inr (n # ns)))"

definition Int64s :: "do_result \<Rightarrow> int list result" where
  "Int64s r =
     (case redis_Values r of Inl e \<Rightarrow> Inl e
      | Inr values \<Rightarrow>
          (case scan_int64s values of Inl e \<Rightarrow> Inl e
           | Inr ints \<Rightarrow> if length ints = 0 then Inl ErrNil else Inr ints))"

fun scan_strings :: "reply list \<Rightarrow> string list result" where
  "scan_strings [] = Inr []"
| "scan_strings (r # rs) =
     (case (case r of RNil \<Rightarrow> Inr [] | RBulk b \<Rightarrow> Inr (string_of_bytes b)
            | _ \<Rightarrow> Inl (ErrOther ''cannot convert'')) of
        Inl e \<Rightarrow> Inl e
      | Inr s \<Rightarrow> (case scan_strings rs of Inl e \<Rightarrow> Inl e | Inr ss \<Rightarrow> Inr (s # ss)))"

definition Strings :: "do_result \<Rightarrow> string list result" where
  "Strings r =
     (case redis_Values r of Inl e \<Rightarrow> Inl e
      | Inr values \<Rightarrow>
          (case scan_strings values of Inl e \<Rightarrow> Inl e
           | Inr ss \<Rightarrow> if length ss = 0 then Inl ErrNil else Inr ss))"

definition OptStrings :: "do_result \<Rightarrow> string list result" where
  "OptStrings r =
     (if fst r = RNil then (case snd r of None \<Rightarrow> Inr [] | Some e \<Rightarrow> Inl e)
      else (case Strings r of Inl e \<Rightarrow> (if e \<noteq> ErrNil then Inl e else Inr []) | Inr ss \<Rightarrow> Inr ss))"

fun mapping_pairs :: "reply list \<Rightarrow> (int \<rightharpoonup> bytes) \<Rightarrow> (int \<rightharpoonup> bytes) result" where
  "mapping_pairs (k # v # rest) m =
     (case redis_Int64 (k, None) of Inl e \<Rightarrow> Inl e
      | Inr key \<Rightarrow>
          (case redis_Bytes (v, None) of Inl e \<Rightarrow> Inl e
           | Inr value \<Rightarrow> mapping_pairs rest (m(key \<mapsto> value))))"
| "mapping_pairs _ m = Inr m"

definition Int64ToBytesMapping :: "do_result \<Rightarrow> (int \<rightharpoonup> bytes) result" where
  "Int64ToBytesMapping r =
     (case redis_Values r of Inl e \<Rightarrow> Inl e
      | Inr values \<Rightarrow>
          if length values mod 2 \<noteq> 0 then Inl (ErrOther ''Int64ToBytesMapping expects even number of values result'')
          else mapping_pairs values Map.empty)"

lemma scan_int64s_itoa:
  assumes "\<forall>i \<in> set is. - (2 ^ 63) \<le> i \<and> i < 2 ^ 63"
  shows "scan_int64s (map (\<lambda>i. RBulk (itoa i)) is) = Inr is"
  using assms by (induction "is") (simp_all add: ParseInt_itoa)

end
