(* ===== verification/Ardb_Action.thy ===== *)
theory Ardb_Action
  imports Ardb
begin

text \<open>
  Command types (\<open>nbd/ardb/command/type.go\<close>), storage actions (\<open>nbd/ardb/action.go\<close>), dialing
  (\<open>nbd/ardb/conn.go\<close>), and the contract of an ARDB server.
\<close>

section \<open>Command types\<close>

record command_type =
  cmd_name :: string
  cmd_write :: bool

definition Decrement :: command_type where "Decrement = \<lparr>cmd_name = ''DECR'', cmd_write = True\<rparr>"
definition DecrementBy :: command_type where "DecrementBy = \<lparr>cmd_name = ''DECRBY'', cmd_write = True\<rparr>"
definition Delete :: command_type where "Delete = \<lparr>cmd_name = ''DEL'', cmd_write = True\<rparr>"
definition Dump :: command_type where "Dump = \<lparr>cmd_name = ''DUMP'', cmd_write = False\<rparr>"
definition Exists :: command_type where "Exists = \<lparr>cmd_name = ''EXISTS'', cmd_write = False\<rparr>"
definition Get :: command_type where "Get = \<lparr>cmd_name = ''GET'', cmd_write = False\<rparr>"
definition Scan :: command_type where "Scan = \<lparr>cmd_name = ''SCAN'', cmd_write = False\<rparr>"
definition HashDelete :: command_type where "HashDelete = \<lparr>cmd_name = ''HDEL'', cmd_write = True\<rparr>"
definition HashExists :: command_type where "HashExists = \<lparr>cmd_name = ''HEXISTS'', cmd_write = False\<rparr>"
definition HashGet :: command_type where "HashGet = \<lparr>cmd_name = ''HGET'', cmd_write = False\<rparr>"
definition HashGetAll :: command_type where "HashGetAll = \<lparr>cmd_name = ''HGETALL'', cmd_write = False\<rparr>"
definition HashIncrementBy :: command_type where "HashIncrementBy = \<lparr>cmd_name = ''HINCRBY'', cmd_write = True\<rparr>"
definition HashKeys :: command_type where "HashKeys = \<lparr>cmd_name = ''HKEYS'', cmd_write = False\<rparr>"
definition HashLength :: command_type where "HashLength = \<lparr>cmd_name = ''HLEN'', cmd_write = False\<rparr>"
definition HashSet :: command_type where "HashSet = \<lparr>cmd_name = ''HSET'', cmd_write = True\<rparr>"
definition HashValues :: command_type where "HashValues = \<lparr>cmd_name = ''HVALS'', cmd_write = False\<rparr>"
definition HashScan :: command_type where "HashScan = \<lparr>cmd_name = ''HSCAN'', cmd_write = False\<rparr>"
definition Rename :: command_type where "Rename = \<lparr>cmd_name = ''RENAME'', cmd_write = True\<rparr>"
definition SetAdd :: command_type where "SetAdd = \<lparr>cmd_name = ''SADD'', cmd_write = True\<rparr>"
definition Set :: command_type where "Set = \<lparr>cmd_name = ''SET'', cmd_write = True\<rparr>"
definition SetDifferenceStore :: command_type where
  "SetDifferenceStore = \<lparr>cmd_name = ''SDIFFSTORE'', cmd_write = True\<rparr>"
definition SetIntersectStore :: command_type where
  "SetIntersectStore = \<lparr>cmd_name = ''SINTERSTORE'', cmd_write = True\<rparr>"
definition SetUnionStore :: command_type where
  "SetUnionStore = \<lparr>cmd_name = ''SUNIONSTORE'', cmd_write = False\<rparr>"

lemmas command_defs [go_defs] = Delete_def Exists_def Get_def Set_def HashDelete_def HashGet_def
  HashSet_def HashKeys_def

section \<open>Actions\<close>

text \<open>
  An argument is a string, a byte slice or an integer. \<open>StorageCommand None\<close> and
  \<open>StorageCommands None\<close> are the nil pointers the methods check for; a script carries its source.
\<close>

datatype arg = AStr string | ABytes bytes | AInt int

datatype StorageAction =
    StorageCommand "(command_type \<times> arg list) option"
  | StorageCommands "StorageAction list option"
  | StorageScript string "string list option" "arg list"

definition Command :: "command_type \<Rightarrow> arg list \<Rightarrow> StorageAction" where
  "Command ct args = StorageCommand (Some (ct, args))"

definition Commands :: "StorageAction list \<Rightarrow> StorageAction result" where
  "Commands cmds = (if length cmds = 0 then Inl (Panic ''no commands given'') else Inr (StorageCommands (Some cmds)))"

text \<open>
  A connection runs one command on a server; \<open>redigo\<close> answers \<open>(nil, err)\<close> on a failure and on an
  error reply.
\<close>

type_synonym 'w conn = "string \<Rightarrow> arg list \<Rightarrow> 'w \<Rightarrow> do_result \<times> 'w"

text \<open>What \<open>Send\<close> buffers: the commands of an action in order, or the error of a nil command.\<close>

fun action_Send :: "StorageAction \<Rightarrow> (string \<times> arg list) list result"
  and action_Send_all :: "StorageAction list \<Rightarrow> (string \<times> arg list) list result" where
  "action_Send (StorageCommand None) = Inl (ErrOther ''no ARDB command defined'')"
| "action_Send (StorageCommand (Some (ct, args))) = Inr [(cmd_name ct, args)]"
| "action_Send (StorageCommands None) = Inr []"
| "action_Send (StorageCommands (Some cmds)) = action_Send_all cmds"
| "action_Send (StorageScript src vks args) = Inr [(''EVAL'', AStr src # args)]"
| "action_Send_all [] = Inr []"
| "action_Send_all (a # as) =
     (case action_Send a of Inl e \<Rightarrow> Inl e
      | Inr xs \<Rightarrow> (case action_Send_all as of Inl e \<Rightarrow> Inl e | Inr ys \<Rightarrow> Inr (xs @ ys)))"

text \<open>Flushing the buffered commands: an error reply becomes an element, a failure ends it.\<close>

fun conn_flush :: "'w conn \<Rightarrow> (string \<times> arg list) list \<Rightarrow> reply list \<Rightarrow> 'w \<Rightarrow> do_result \<times> 'w" where
  "conn_flush conn [] rs w = ((RArr rs, None), w)"
| "conn_flush conn ((nm, args) # cmds) rs w =
     (case conn nm args w of
        ((r, None), w') \<Rightarrow> conn_flush conn cmds (rs @ [r]) w'
      | ((r, Some (ErrReply m)), w') \<Rightarrow> conn_flush conn cmds (rs @ [RError m]) w'
      | ((r, Some e), w') \<Rightarrow> ((RNil, Some e), w'))"

definition action_Do :: "'w conn \<Rightarrow> StorageAction \<Rightarrow> 'w \<Rightarrow> do_result \<times> 'w" where
  "action_Do conn act w =
     (case act of
        StorageCommand None \<Rightarrow> ((RNil, Some (ErrOther ''no ARDB command defined'')), w)
      | StorageCommand (Some (ct, args)) \<Rightarrow> conn (cmd_name ct) args w
      | StorageCommands None \<Rightarrow> ((RNil, Some (ErrOther ''no ARDB commands defined'')), w)
      | StorageCommands (Some cmds) \<Rightarrow>
          (case action_Send_all cmds of
             Inl e \<Rightarrow> ((RNil, Some e), w)
           | Inr [] \<Rightarrow> ((RNil, None), w)
           | Inr xs \<Rightarrow> conn_flush conn xs [] w)
      | StorageScript src vks args \<Rightarrow> conn ''EVAL'' (AStr src # args) w)"

definition key_string :: "arg \<Rightarrow> string result" where
  "key_string a = (case a of AStr s \<Rightarrow> Inr s | ABytes b \<Rightarrow> Inr (string_of_bytes b)
                   | AInt _ \<Rightarrow> Inl (Panic ''not a supported ARDB command key''))"

text \<open>\<open>KeysModified\<close>: \<open>Inr None\<close> is the result \<open>(nil, false)\<close>.\<close>

fun KeysModified :: "StorageAction \<Rightarrow> string list option result"
  and KeysModified_all :: "StorageAction list \<Rightarrow> string list \<Rightarrow> string list option result" where
  "KeysModified (StorageCommand None) = Inr None"
| "KeysModified (StorageCommand (Some (ct, args))) =
     (if \<not> cmd_write ct then Inr None
      else (case args of [] \<Rightarrow> Inl (Panic ''index out of range'')
            | a # _ \<Rightarrow> (case key_string a of Inl e \<Rightarrow> Inl e | Inr k \<Rightarrow> Inr (Some [k]))))"
| "KeysModified (StorageCommands None) = Inr None"
| "KeysModified (StorageCommands (Some cmds)) = KeysModified_all cmds []"
| "KeysModified (StorageScript src vks args) = Inr vks"
| "KeysModified_all [] keys = Inr (if keys = [] then None else Some keys)"
| "KeysModified_all (a # as) keys =
     (case KeysModified a of Inl e \<Rightarrow> Inl e
      | Inr None \<Rightarrow> KeysModified_all as keys
      | Inr (Some ks) \<Rightarrow> KeysModified_all as (keys @ ks))"

lemma action_Do_Command [simp]: "action_Do conn (Command ct args) w = conn (cmd_name ct) args w"
  by (simp add: action_Do_def Command_def)

section \<open>Dialing\<close>

text \<open>
  \<open>Dial\<close> refuses a server that is not online before it opens a connection; the connection itself
  (\<open>redis.Dial\<close> and the server behind it) is the parameter \<open>srv\<close>.
\<close>

type_synonym 'w servers = "StorageServerConfig \<Rightarrow> 'w conn"

definition Dial :: "'w servers \<Rightarrow> StorageServerConfig \<Rightarrow> 'w conn result" where
  "Dial srv cfg = (if State cfg \<noteq> Online then Inl ErrServerUnavailable else Inr (srv cfg))"

text \<open>Dialing, applying one action and closing the connection, as every cluster type does.\<close>

definition server_Do :: "'w servers \<Rightarrow> StorageServerConfig \<Rightarrow> StorageAction \<Rightarrow> 'w \<Rightarrow> do_result \<times> 'w" where
  "server_Do srv cfg act w =
     (case Dial srv cfg of Inl e \<Rightarrow> ((RNil, Some e), w) | Inr conn \<Rightarrow> action_Do conn act w)"

section \<open>What is relied on of an ARDB server\<close>

datatype rvalue = VString bytes | VHash "bytes \<rightharpoonup> bytes"

text \<open>The hash stored under a key (the empty one when there is no such key); no hash at a string.\<close>

definition hash_at :: "rvalue option \<Rightarrow> (bytes \<rightharpoonup> bytes) option" where
  "hash_at v = (case v of None \<Rightarrow> Some Map.empty | Some (VHash h) \<Rightarrow> Some h | Some (VString _) \<Rightarrow> None)"

definition string_at :: "rvalue option \<Rightarrow> bytes option option" where
  "string_at v = (case v of None \<Rightarrow> Some None | Some (VString b) \<Rightarrow> Some (Some b) | Some (VHash _) \<Rightarrow> None)"

text \<open>A hash whose last field is deleted is no key any more.\<close>

definition hash_value :: "(bytes \<rightharpoonup> bytes) \<Rightarrow> rvalue option" where
  "hash_value h = (if h = Map.empty then None else Some (VHash h))"

definition opt_bulk :: "bytes option \<Rightarrow> reply" where
  "opt_bulk v = (case v of None \<Rightarrow> RNil | Some b \<Rightarrow> RBulk b)"

text \<open>
  \<open>view w s k\<close> is the value server \<open>s\<close> holds under key \<open>k\<close> in state \<open>w\<close>. A reachable server answers
  as the ARDB (Redis) command reference says; an unreachable one yields an error and changes nothing.
\<close>

abbreviation key_upd :: "(StorageServerConfig \<Rightarrow> string \<Rightarrow> rvalue option) \<Rightarrow> StorageServerConfig \<Rightarrow> string \<Rightarrow>
    rvalue option \<Rightarrow> (StorageServerConfig \<Rightarrow> string \<Rightarrow> rvalue option)" where
  "key_upd v s k x \<equiv> v(s := (v s)(k := x))"

locale ardb =
  fixes srv :: "'w servers"
    and view :: "'w \<Rightarrow> StorageServerConfig \<Rightarrow> string \<Rightarrow> rvalue option"
    and up :: "StorageServerConfig \<Rightarrow> bool"
  assumes down: "\<not> up s \<Longrightarrow> \<exists>e. srv s nm args w = ((RNil, Some e), w)"
    and hget: "up s \<Longrightarrow> hash_at (view w s k) = Some h \<Longrightarrow>
      \<exists>w'. srv s ''HGET'' [AStr k, AInt i] w = ((opt_bulk (h (itoa i)), None), w') \<and> view w' = view w"
    and hset: "up s \<Longrightarrow> hash_at (view w s k) = Some h \<Longrightarrow>
      \<exists>r w'. srv s ''HSET'' [AStr k, AInt i, ABytes b] w = ((r, None), w') \<and>
             view w' = key_upd (view w) s k (Some (VHash (h(itoa i \<mapsto> b))))"
    and hdel: "up s \<Longrightarrow> hash_at (view w s k) = Some h \<Longrightarrow>
      \<exists>r w'. srv s ''HDEL'' [AStr k, AInt i] w = ((r, None), w') \<and>
             view w' = key_upd (view w) s k (hash_value (h(itoa i := None)))"
    and hkeys: "up s \<Longrightarrow> hash_at (view w s k) = Some h \<Longrightarrow> finite (dom h) \<Longrightarrow>
      \<exists>fs w'. srv s ''HKEYS'' [AStr k] w = ((RArr (map RBulk fs), None), w') \<and>
              set fs = dom h \<and> distinct fs \<and> view w' = view w"
    and get_bytes: "up s \<Longrightarrow> string_at (view w s (string_of_bytes kb)) = Some v \<Longrightarrow>
      \<exists>w'. srv s ''GET'' [ABytes kb] w = ((opt_bulk v, None), w') \<and> view w' = view w"
    and set_bytes: "up s \<Longrightarrow>
      \<exists>r w'. srv s ''SET'' [ABytes kb, ABytes b] w = ((r, None), w') \<and>
             view w' = key_upd (view w) s (string_of_bytes kb) (Some (VString b))"
    and get_str: "up s \<Longrightarrow> string_at (view w s k) = Some v \<Longrightarrow>
      \<exists>w'. srv s ''GET'' [AStr k] w = ((opt_bulk v, None), w') \<and> view w' = view w"
    and set_str: "up s \<Longrightarrow>
      \<exists>r w'. srv s ''SET'' [AStr k, ABytes b] w = ((r, None), w') \<and>
             view w' = key_upd (view w) s k (Some (VString b))"
    and del: "up s \<Longrightarrow>
      \<exists>w'. srv s ''DEL'' [AStr k] w = ((RInt (if view w s k = None then 0 else 1), None), w') \<and>
           view w' = key_upd (view w) s k None"
    and exists: "up s \<Longrightarrow>
      \<exists>w'. srv s ''EXISTS'' [AStr k] w = ((RInt (if view w s k = None then 0 else 1), None), w') \<and>
           view w' = view w"
    and hget_wrong: "up s \<Longrightarrow> hash_at (view w s k) = None \<Longrightarrow>
      \<exists>r m. srv s ''HGET'' [AStr k, AInt i] w = ((r, Some (ErrReply m)), w)"
    and hset_wrong: "up s \<Longrightarrow> hash_at (view w s k) = None \<Longrightarrow>
      \<exists>r m. srv s ''HSET'' [AStr k, AInt i, ABytes b] w = ((r, Some (ErrReply m)), w)"
    and hdel_wrong: "up s \<Longrightarrow> hash_at (view w s k) = None \<Longrightarrow>
      \<exists>r m. srv s ''HDEL'' [AStr k, AInt i] w = ((r, Some (ErrReply m)), w)"

section \<open>A server in memory\<close>

text \<open>
  A concrete server state that satisfies the contract, for the commands above, with a set of
  unreachable servers. A hash is a list of fields and values in insertion order.
\<close>

datatype mem_value = MString bytes | MHash "(bytes \<times> bytes) list"

type_synonym mem = "StorageServerConfig \<Rightarrow> string \<Rightarrow> mem_value option"

definition mem_hash :: "mem_value option \<Rightarrow> (bytes \<times> bytes) list option" where
  "mem_hash v = (case v of None \<Rightarrow> Some [] | Some (MHash h) \<Rightarrow> Some h | Some (MString _) \<Rightarrow> None)"

definition mem_upd :: "mem \<Rightarrow> StorageServerConfig \<Rightarrow> string \<Rightarrow> mem_value option \<Rightarrow> mem" where
  "mem_upd w s k x = w(s := (w s)(k := x))"

fun alist_set :: "'k \<Rightarrow> 'v \<Rightarrow> ('k \<times> 'v) list \<Rightarrow> ('k \<times> 'v) list" where
  "alist_set k v [] = [(k, v)]"
| "alist_set k v ((k', v') # xs) = (if k' = k then (k, v) # xs else (k', v') # alist_set k v xs)"

definition alist_del :: "'k \<Rightarrow> ('k \<times> 'v) list \<Rightarrow> ('k \<times> 'v) list" where
  "alist_del k xs = filter (\<lambda>x. fst x \<noteq> k) xs"

definition arg_key :: "arg \<Rightarrow> string" where
  "arg_key a = (case a of AStr s \<Rightarrow> s | ABytes b \<Rightarrow> string_of_bytes b | AInt i \<Rightarrow> string_of_bytes (itoa i))"

definition arg_bytes :: "arg \<Rightarrow> bytes" where
  "arg_bytes a = (case a of AStr s \<Rightarrow> bytes_of_string s | ABytes b \<Rightarrow> b | AInt i \<Rightarrow> itoa i)"

definition wrongtype :: "mem \<Rightarrow> do_result \<times> mem" where
  "wrongtype w = ((RNil, Some (ErrReply ''WRONGTYPE'')), w)"

definition mem_srv :: "StorageServerConfig set \<Rightarrow> mem servers" where
  "mem_srv failing s nm args w =
     (if s \<in> failing then ((RNil, Some (ErrOther ''connection refused'')), w)
      else case args of
        [k] \<Rightarrow>
          (let v = w s (arg_key k) in
           if nm = ''GET'' then
             (case v of None \<Rightarrow> ((RNil, None), w) | Some (MString b) \<Rightarrow> ((RBulk b, None), w) | _ \<Rightarrow> wrongtype w)
           else if nm = ''DEL'' then ((RInt (if v = None then 0 else 1), None), mem_upd w s (arg_key k) None)
           else if nm = ''EXISTS'' then ((RInt (if v = None then 0 else 1), None), w)
           else if nm = ''HKEYS'' then
             (case mem_hash v of None \<Rightarrow> wrongtype w | Some h \<Rightarrow> ((RArr (map RBulk (remdups (map fst h))), None), w))
           else ((RNil, Some (ErrReply ''ERR unknown command'')), w))
      | [k, f] \<Rightarrow>
          (let v = w s (arg_key k) in
           if nm = ''SET'' then ((RSimple ''OK'', None), mem_upd w s (arg_key k) (Some (MString (arg_bytes f))))
           else if nm = ''HGET'' then
             (case mem_hash v of None \<Rightarrow> wrongtype w
              | Some h \<Rightarrow> ((opt_bulk (map_of h (arg_bytes f)), None), w))
           else if nm = ''HDEL'' then
             (case mem_hash v of None \<Rightarrow> wrongtype w
              | Some h \<Rightarrow>
                  let h' = alist_del (arg_bytes f) h
                  in ((RInt (int (length h) - int (length h')), None),
                      mem_upd w s (arg_key k) (if h' = [] then None else Some (MHash h'))))
           else ((RNil, Some (ErrReply ''ERR unknown command'')), w))
      | [k, f, b] \<Rightarrow>
          (if nm = ''HSET'' then
             (case mem_hash (w s (arg_key k)) of None \<Rightarrow> wrongtype w
              | Some h \<Rightarrow> ((RInt 1, None), mem_upd w s (arg_key k) (Some (MHash (alist_set (arg_bytes f) (arg_bytes b) h)))))
           else ((RNil, Some (ErrReply ''ERR unknown command'')), w))
      | _ \<Rightarrow> ((RNil, Some (ErrReply ''ERR wrong number of arguments'')), w))"

definition mem_view :: "mem \<Rightarrow> StorageServerConfig \<Rightarrow> string \<Rightarrow> rvalue option" where
  "mem_view w s k =
     (case w s k of None \<Rightarrow> None | Some (MString b) \<Rightarrow> Some (VString b) | Some (MHash h) \<Rightarrow> Some (VHash (map_of h)))"

lemma map_of_alist_set [simp]: "map_of (alist_set k v h) = (map_of h)(k \<mapsto> v)"
  by (induction k v h rule: alist_set.induct) auto

lemma map_of_alist_del [simp]: "map_of (alist_del k h) = (map_of h)(k := None)"
  by (induction h) (auto simp: alist_del_def fun_eq_iff)

lemma mem_view_upd [simp]:
  "mem_view (mem_upd w s k x) =
     key_upd (mem_view w) s k
       (case x of None \<Rightarrow> None | Some (MString b) \<Rightarrow> Some (VString b) | Some (MHash h) \<Rightarrow> Some (VHash (map_of h)))"
  by (simp add: mem_view_def mem_upd_def fun_eq_iff split: option.splits mem_value.splits)

lemma mem_hash_view:
  assumes "hash_at (mem_view w s k) = Some h"
  obtains xs where "mem_hash (w s k) = Some xs" and "map_of xs = h"
  using assms by (auto simp: hash_at_def mem_view_def mem_hash_def split: option.splits mem_value.splits)

lemma mem_hash_wrong: "hash_at (mem_view w s k) = None \<Longrightarrow> mem_hash (w s k) = None"
  by (auto simp: hash_at_def mem_view_def mem_hash_def split: option.splits mem_value.splits)

lemma mem_string_view:
  "string_at (mem_view w s k) = Some v \<Longrightarrow> w s k = map_option MString v"
  by (auto simp: string_at_def mem_view_def split: option.splits mem_value.splits)

lemmas mem_defs = mem_srv_def arg_key_def arg_bytes_def opt_bulk_def hash_value_def Let_def

interpretation mem: ardb "mem_srv failing" mem_view "\<lambda>s. s \<notin> failing"
proof (unfold_locales, goal_cases)
  case (1 s nm args w) then show ?case by (simp add: mem_srv_def)
next
  case (2 s w k h i)
  then obtain xs where "mem_hash (w s k) = Some xs" "map_of xs = h" by (blast elim: mem_hash_view)
  with 2 show ?case by (simp add: mem_defs)
next
  case (3 s w k h i b)
  then obtain xs where "mem_hash (w s k) = Some xs" "map_of xs = h" by (blast elim: mem_hash_view)
  with 3 show ?case by (simp add: mem_defs)
next
  case (4 s w k h i)
  then obtain xs where xs: "mem_hash (w s k) = Some xs" "map_of xs = h" by (blast elim: mem_hash_view)
  have "alist_del (itoa i) xs = [] \<longleftrightarrow> h(itoa i := None) = Map.empty"
    by (metis map_of_alist_del map_of_eq_empty_iff xs(2))
  with xs 4 show ?case by (simp add: mem_defs)
next
  case (5 s w k h)
  then obtain xs where "mem_hash (w s k) = Some xs" "map_of xs = h" by (blast elim: mem_hash_view)
  with 5 show ?case by (simp add: mem_defs) (metis dom_map_of_conv_image_fst list.set_map set_remdups distinct_remdups)
next
  case (6 s w kb v) then show ?case by (auto simp: mem_defs dest!: mem_string_view split: option.splits)
next
  case (7 s kb b w) then show ?case by (simp add: mem_defs)
next
  case (8 s w k v) then show ?case by (auto simp: mem_defs dest!: mem_string_view split: option.splits)
next
  case (9 s k b w) then show ?case by (simp add: mem_defs)
next
  case (10 s w k) then show ?case by (auto simp: mem_defs mem_view_def split: option.splits mem_value.splits)
next
  case (11 s w k) then show ?case by (auto simp: mem_defs mem_view_def split: option.splits mem_value.splits)
next
  case (12 s w k i) then show ?case by (simp add: mem_defs wrongtype_def mem_hash_wrong)
next
  case (13 s w k i b) then show ?case by (simp add: mem_defs wrongtype_def mem_hash_wrong)
next
  case (14 s w k i) then show ?case by (simp add: mem_defs wrongtype_def mem_hash_wrong)
qed

end
