(* ===== verification/Ardb_Cluster.thy ===== *)
theory Ardb_Cluster
  imports Server_Index Ardb_Action
begin

text \<open>
  ARDB clusters (\<open>nbd/ardb/cluster.go\<close>): the \<open>StorageCluster\<close> interface as a record of functions on the
  state of the servers, and its implementations \<open>UniCluster\<close>, \<open>Cluster\<close>, \<open>ErrorCluster\<close> and \<open>NopCluster\<close>.
\<close>

section \<open>Interfaces\<close>

record 'w StorageServer =
  Server_Do :: "StorageAction \<Rightarrow> 'w \<Rightarrow> do_result \<times> 'w"
  Server_Config :: StorageServerConfig

text \<open>A server iterator is the list of the servers its channel delivers.\<close>

record 'w StorageCluster =
  Do :: "StorageAction \<Rightarrow> 'w \<Rightarrow> do_result \<times> 'w"
  DoFor :: "int \<Rightarrow> StorageAction \<Rightarrow> 'w \<Rightarrow> do_result \<times> 'w"
  DoForAll :: "(int \<times> StorageAction) list \<Rightarrow> 'w \<Rightarrow> reply list result \<times> 'w"
  ServerIterator :: "'w StorageServer list result"
  ServerCount :: int

text \<open>\<open>storageServer\<close>: a configuration and the dialer.\<close>

definition storageServer :: "'w servers \<Rightarrow> StorageServerConfig \<Rightarrow> 'w StorageServer" where
  "storageServer srv cfg = \<lparr>Server_Do = server_Do srv cfg, Server_Config = cfg\<rparr>"

definition nil_config :: StorageServerConfig where
  "nil_config = \<lparr>Address = '''', Database = 0, State = Online\<rparr>"

definition errorStorageServer :: "error \<Rightarrow> 'w StorageServer" where
  "errorStorageServer err = \<lparr>Server_Do = (\<lambda>act w. ((RNil, Some err), w)), Server_Config = nil_config\<rparr>"

definition nopStorageServer :: "'w StorageServer" where
  "nopStorageServer = \<lparr>Server_Do = (\<lambda>act w. ((RNil, None), w)), Server_Config = nil_config\<rparr>"

section \<open>UniCluster\<close>

definition NewUniCluster :: "(string \<Rightarrow> bool) \<Rightarrow> StorageServerConfig \<Rightarrow> StorageServerConfig result" where
  "NewUniCluster isDialString cfg =
     (case StorageServerConfig_Validate isDialString (Some cfg) of
        Some err \<Rightarrow> Inl err
      | None \<Rightarrow> (case State cfg of Online \<Rightarrow> Inr cfg
                 | RIP \<Rightarrow> Inl ErrNoServersAvailable
                 | _ \<Rightarrow> Inl ErrServerStateNotSupported))"

definition UniCluster_Do :: "'w servers \<Rightarrow> StorageServerConfig \<Rightarrow> StorageAction \<Rightarrow> 'w \<Rightarrow> do_result \<times> 'w" where
  "UniCluster_Do srv cfg act w = server_Do srv cfg act w"

definition UniCluster_DoForAll ::
    "'w servers \<Rightarrow> StorageServerConfig \<Rightarrow> (int \<times> StorageAction) list \<Rightarrow> 'w \<Rightarrow> reply list result \<times> 'w" where
  "UniCluster_DoForAll srv cfg pairs w =
     (case pairs of
        [] \<Rightarrow> (Inr [], w)
      | [(i, act)] \<Rightarrow>
          (case UniCluster_Do srv cfg act w of
             ((r, Some err), w') \<Rightarrow> (Inl err, w')
           | ((r, None), w') \<Rightarrow> (Inr [r], w'))
      | _ \<Rightarrow> (case Commands (map snd pairs) of
                Inl err \<Rightarrow> (Inl err, w)
              | Inr act \<Rightarrow> let (res, w') = UniCluster_Do srv cfg act w in (Values res, w')))"

definition UniCluster :: "'w servers \<Rightarrow> StorageServerConfig \<Rightarrow> 'w StorageCluster" where
  "UniCluster srv cfg =
     \<lparr>Do = UniCluster_Do srv cfg, DoFor = (\<lambda>_. UniCluster_Do srv cfg),
      DoForAll = UniCluster_DoForAll srv cfg,
      ServerIterator = Inr [storageServer srv cfg], ServerCount = 1\<rparr>"

section \<open>Cluster\<close>

record Cluster =
  servers :: "StorageServerConfig list"
  serverCount :: int
  availableServerCount :: int

fun count_available :: "StorageServerConfig list \<Rightarrow> int \<Rightarrow> int result" where
  "count_available [] n = Inr n"
| "count_available (server # ss) n =
     (if State server = Online then count_available ss n
      else if State server \<noteq> RIP then Inl ErrServerStateNotSupported
      else count_available ss (n - 1))"

definition NewCluster ::
    "(StorageClusterConfig \<Rightarrow> error option) \<Rightarrow> (string \<Rightarrow> bool) \<Rightarrow> StorageClusterConfig \<Rightarrow> Cluster result" where
  "NewCluster validStruct isDialString cfg =
     (case StorageClusterConfig_Validate validStruct isDialString (Some cfg) of
        Some err \<Rightarrow> Inl err
      | None \<Rightarrow>
          let n = int (length (Servers cfg))
          in case count_available (Servers cfg) n of
               Inl err \<Rightarrow> Inl err
             | Inr available \<Rightarrow>
                 if available = 0 then Inl ErrNoServersAvailable
                 else Inr \<lparr>servers = Servers cfg, serverCount = n, availableServerCount = available\<rparr>)"

definition serverOperational :: "Cluster \<Rightarrow> ServerIndexPredicate" where
  "serverOperational cl index =
     (if index < 0 \<or> int (length (servers cl)) \<le> index then Inl (Panic ''index out of range'')
      else Inr (State (servers cl ! nat index) = Online))"

definition doAt :: "'w servers \<Rightarrow> Cluster \<Rightarrow> int \<Rightarrow> StorageAction \<Rightarrow> 'w \<Rightarrow> do_result \<times> 'w" where
  "doAt srv cl index act w =
     (if index < 0 \<or> int (length (servers cl)) \<le> index then ((RNil, Some (Panic ''index out of range'')), w)
      else server_Do srv (servers cl ! nat index) act w)"

text \<open>A search that does not return never reaches the caller's next statement, like a panic.\<close>

definition returned :: "'a result option \<Rightarrow> 'a result" where
  "returned r = (case r of None \<Rightarrow> Inl (Panic ''does not return'') | Some x \<Rightarrow> x)"

definition Cluster_Do :: "'w servers \<Rightarrow> Cluster \<Rightarrow> StorageAction \<Rightarrow> 'w \<Rightarrow> do_result \<times> 'w" where
  "Cluster_Do srv cl act w =
     (case returned (FindFirstServerIndex (serverCount cl) (serverOperational cl)) of
        Inl err \<Rightarrow> ((RNil, Some err), w)
      | Inr serverIndex \<Rightarrow> doAt srv cl serverIndex act w)"

definition Cluster_DoFor :: "'w servers \<Rightarrow> Cluster \<Rightarrow> int \<Rightarrow> StorageAction \<Rightarrow> 'w \<Rightarrow> do_result \<times> 'w" where
  "Cluster_DoFor srv cl objectIndex act w =
     (case returned (ComputeServerIndex (serverCount cl) objectIndex (serverOperational cl)) of
        Inl err \<Rightarrow> ((RNil, Some err), w)
      | Inr serverIndex \<Rightarrow> doAt srv cl serverIndex act w)"

subsection \<open>Applying many actions\<close>

record IndexActionMap =
  Indices :: "nat list"
  Actions :: "StorageAction list"

definition IndexActionMap_Add :: "nat \<Rightarrow> StorageAction \<Rightarrow> IndexActionMap \<Rightarrow> IndexActionMap" where
  "IndexActionMap_Add index act m = \<lparr>Indices = Indices m @ [index], Actions = Actions m @ [act]\<rparr>"

text \<open>The actions sorted per server: a map from server indices, as an association list.\<close>

definition group_add :: "int \<Rightarrow> nat \<Rightarrow> StorageAction \<Rightarrow> (int \<times> IndexActionMap) list \<Rightarrow> (int \<times> IndexActionMap) list" where
  "group_add s index act m =
     alist_set s (IndexActionMap_Add index act
                    (case map_of m s of None \<Rightarrow> \<lparr>Indices = [], Actions = []\<rparr> | Some x \<Rightarrow> x)) m"

fun group_pairs :: "Cluster \<Rightarrow> nat \<Rightarrow> (int \<times> StorageAction) list \<Rightarrow> (int \<times> IndexActionMap) list \<Rightarrow>
    (int \<times> IndexActionMap) list result" where
  "group_pairs cl index [] m = Inr m"
| "group_pairs cl index ((i, act) # pairs) m =
     (case returned (ComputeServerIndex (serverCount cl) i (serverOperational cl)) of
        Inl err \<Rightarrow> Inl err
      | Inr s \<Rightarrow> group_pairs cl (Suc index) pairs (group_add s index act m))"

definition run_group :: "'w servers \<Rightarrow> Cluster \<Rightarrow> int \<Rightarrow> IndexActionMap \<Rightarrow> 'w \<Rightarrow> reply list result \<times> 'w" where
  "run_group srv cl s m w =
     (case Commands (Actions m) of
        Inl err \<Rightarrow> (Inl err, w)
      | Inr act \<Rightarrow> let (res, w') = doAt srv cl s act w in (Values res, w'))"

text \<open>Storing the replies of one server at the positions of its pairs; \<open>m.Indices[i]\<close> may be out of range.\<close>

fun store_replies :: "nat list \<Rightarrow> reply list \<Rightarrow> reply list \<Rightarrow> reply list result" where
  "store_replies idxs [] replies = Inr replies"
| "store_replies [] (r # rs) replies = Inl (Panic ''index out of range'')"
| "store_replies (i # idxs) (r # rs) replies = store_replies idxs rs (replies[i := r])"

text \<open>
  The goroutines act on different servers; \<open>order\<close> is the order in which they act and in which their
  results arrive. After an error the results still to come are dropped, the actions are not.
\<close>

fun run_groups :: "'w servers \<Rightarrow> Cluster \<Rightarrow> (int \<times> IndexActionMap) list \<Rightarrow> reply list result \<Rightarrow> 'w \<Rightarrow>
    reply list result \<times> 'w" where
  "run_groups srv cl [] replies w = (replies, w)"
| "run_groups srv cl ((s, m) # groups) replies w =
     (let (res, w') = run_group srv cl s m w
      in run_groups srv cl groups
           (case replies of Inl err \<Rightarrow> Inl err
            | Inr rs \<Rightarrow> (case res of Inl err \<Rightarrow> Inl err | Inr new \<Rightarrow> store_replies (Indices m) new rs)) w')"

definition Cluster_DoForAll :: "'w servers \<Rightarrow> ((int \<times> IndexActionMap) list \<Rightarrow> (int \<times> IndexActionMap) list) \<Rightarrow>
    Cluster \<Rightarrow> (int \<times> StorageAction) list \<Rightarrow> 'w \<Rightarrow> reply list result \<times> 'w" where
  "Cluster_DoForAll srv order cl pairs w =
     (if length pairs = 0 then (Inr [], w)
      else if length pairs = 1 then (Inl (Panic ''index out of range''), w)
      else case group_pairs cl 0 pairs [] of
             Inl err \<Rightarrow> (Inl err, w)
           | Inr [(s, m)] \<Rightarrow> run_group srv cl s m w
           | Inr groups \<Rightarrow> run_groups srv cl (order groups) (Inr (replicate (length pairs) RNil)) w)"

definition Cluster_ServerIterator :: "'w servers \<Rightarrow> Cluster \<Rightarrow> 'w StorageServer list" where
  "Cluster_ServerIterator srv cl =
     map (storageServer srv) (filter (\<lambda>cfg. State cfg = Online) (servers cl))"

definition Cluster_cluster :: "'w servers \<Rightarrow> ((int \<times> IndexActionMap) list \<Rightarrow> (int \<times> IndexActionMap) list) \<Rightarrow>
    Cluster \<Rightarrow> 'w StorageCluster" where
  "Cluster_cluster srv order cl =
     \<lparr>Do = Cluster_Do srv cl, DoFor = Cluster_DoFor srv cl, DoForAll = Cluster_DoForAll srv order cl,
      ServerIterator = Inr (Cluster_ServerIterator srv cl), ServerCount = availableServerCount cl\<rparr>"

section \<open>Clusters without servers\<close>

definition ErrorCluster :: "error \<Rightarrow> 'w StorageCluster" where
  "ErrorCluster err =
     \<lparr>Do = (\<lambda>act w. ((RNil, Some err), w)), DoFor = (\<lambda>i act w. ((RNil, Some err), w)),
      DoForAll = (\<lambda>pairs w. (Inl err, w)), ServerIterator = Inr [errorStorageServer err], ServerCount = 0\<rparr>"

definition NopCluster :: "'w StorageCluster" where
  "NopCluster =
     \<lparr>Do = (\<lambda>act w. ((RNil, None), w)), DoFor = (\<lambda>i act w. ((RNil, None), w)),
      DoForAll = (\<lambda>pairs w. (Inr [], w)), ServerIterator = Inr [nopStorageServer], ServerCount = 1\<rparr>"

fun FindFirstAvailableServerConfig :: "StorageServerConfig list \<Rightarrow> StorageServerConfig result" where
  "FindFirstAvailableServerConfig [] = Inl ErrNoServersAvailable"
| "FindFirstAvailableServerConfig (cfg # cfgs) =
     (if State cfg = Online then Inr cfg else FindFirstAvailableServerConfig cfgs)"

section \<open>Well-formed clusters\<close>

text \<open>What \<open>NewCluster\<close> guarantees: online and dead servers only, at least one of them online.\<close>

definition cluster_wf :: "Cluster \<Rightarrow> bool" where
  "cluster_wf cl \<longleftrightarrow>
     serverCount cl = int (length (servers cl)) \<and>
     availableServerCount cl = int (length (filter (\<lambda>s. State s = Online) (servers cl))) \<and>
     0 < availableServerCount cl \<and> (\<forall>s \<in> set (servers cl). State s = Online \<or> State s = RIP)"

lemma count_available_Inr:
  "count_available ss n = Inr m \<longleftrightarrow>
     (\<forall>s \<in> set ss. State s = Online \<or> State s = RIP) \<and>
     m = n - int (length ss) + int (length (filter (\<lambda>s. State s = Online) ss))"
  by (induction ss n rule: count_available.induct) auto

lemma NewCluster_wf:
  assumes "NewCluster validStruct isDialString cfg = Inr cl"
  shows "cluster_wf cl" and "servers cl = Servers cfg"
  using assms
  by (auto simp: NewCluster_def cluster_wf_def count_available_Inr Let_def split: option.splits sum.splits if_splits)

lemma NewCluster_small:
  assumes "NewCluster validStruct isDialString cfg = Inr cl" and "length (Servers cfg) \<le> 2 ^ 15"
  shows "cluster_wf cl" and "serverCount cl \<le> 2 ^ 15" and "servers cl = Servers cfg"
proof -
  show "cluster_wf cl" and e: "servers cl = Servers cfg" by (rule NewCluster_wf[OF assms(1)])+
  then have "serverCount cl = int (length (Servers cfg))" by (simp add: cluster_wf_def)
  with assms(2) show "serverCount cl \<le> 2 ^ 15" by simp
qed

lemma NewCluster_Inr_iff:
  "(\<exists>cl. NewCluster validStruct isDialString cfg = Inr cl) \<longleftrightarrow>
     StorageClusterConfig_Validate validStruct isDialString (Some cfg) = None \<and>
     (\<forall>s \<in> set (Servers cfg). State s = Online \<or> State s = RIP) \<and> (\<exists>s \<in> set (Servers cfg). State s = Online)"
proof -
  let ?av = "int (length (Servers cfg)) - int (length (Servers cfg)) +
    int (length (filter (\<lambda>s. State s = Online) (Servers cfg)))"
  have "?av = 0 \<longleftrightarrow> \<not> (\<exists>s \<in> set (Servers cfg). State s = Online)" by (auto simp: filter_empty_conv)
  moreover have "count_available (Servers cfg) (int (length (Servers cfg))) = Inr ?av"
    if "\<forall>s \<in> set (Servers cfg). State s = Online \<or> State s = RIP" using that by (simp only: count_available_Inr)
  moreover have "\<exists>e. count_available (Servers cfg) (int (length (Servers cfg))) = Inl e"
    if "\<not> (\<forall>s \<in> set (Servers cfg). State s = Online \<or> State s = RIP)"
    using that count_available_Inr[of "Servers cfg"] by (metis obj_sumE)
  ultimately show ?thesis
    by (cases "\<forall>s \<in> set (Servers cfg). State s = Online \<or> State s = RIP")
      (auto simp: NewCluster_def Let_def split: option.splits)
qed

lemma serverOperational_in:
  "0 \<le> k \<Longrightarrow> k < int (length (servers cl)) \<Longrightarrow> serverOperational cl k = Inr (State (servers cl ! nat k) = Online)"
  by (simp add: serverOperational_def)

lemma cluster_online_index:
  assumes "cluster_wf cl"
  obtains s where "0 \<le> s" and "s < serverCount cl" and "serverOperational cl s = Inr True"
proof -
  obtain x where "x \<in> set (servers cl)" "State x = Online"
    using assms by (fastforce simp: cluster_wf_def filter_empty_conv)
  then obtain k where k: "k < length (servers cl)" "State (servers cl ! k) = Online" by (metis in_set_conv_nth)
  show thesis
    by (rule that[of "int k"]) (use k assms in \<open>simp_all add: cluster_wf_def serverOperational_in\<close>)
qed

text \<open>The server an object index is mapped to, and the first available one.\<close>

definition cluster_route :: "Cluster \<Rightarrow> int \<Rightarrow> StorageServerConfig" where
  "cluster_route cl i =
     (case ComputeServerIndex (serverCount cl) i (serverOperational cl) of
        Some (Inr s) \<Rightarrow> servers cl ! nat s | _ \<Rightarrow> nil_config)"

definition cluster_first :: "Cluster \<Rightarrow> StorageServerConfig" where
  "cluster_first cl = hd (filter (\<lambda>s. State s = Online) (servers cl))"

lemma ComputeServerIndex_cluster:
  assumes wf: "cluster_wf cl" and n: "serverCount cl \<le> 2 ^ 15" and i: "0 \<le> i"
  obtains t where "ComputeServerIndex (serverCount cl) i (serverOperational cl) = Some (Inr t)"
    and "0 \<le> t" and "t < serverCount cl" and "State (servers cl ! nat t) = Online"
proof -
  obtain s where s: "0 \<le> s" "s < serverCount cl" "serverOperational cl s = Inr True"
    by (rule cluster_online_index[OF wf])
  have tot: "\<exists>b. serverOperational cl k = Inr b" if "0 \<le> k" "k < serverCount cl" for k
    using that wf by (simp add: cluster_wf_def serverOperational_in)
  from ComputeServerIndex_returns[of i _ "serverOperational cl", OF i n tot s] obtain t where
    t: "ComputeServerIndex (serverCount cl) i (serverOperational cl) = Some (Inr t)" "0 \<le> t" "t < serverCount cl"
    "serverOperational cl t = Inr True" by blast
  with wf have "State (servers cl ! nat t) = Online" by (simp add: cluster_wf_def serverOperational_in)
  with t that show thesis by blast
qed

lemma cluster_route_online:
  assumes "cluster_wf cl" and "serverCount cl \<le> 2 ^ 15" and "0 \<le> i"
  shows "State (cluster_route cl i) = Online" and "cluster_route cl i \<in> set (servers cl)"
proof -
  obtain t where t: "ComputeServerIndex (serverCount cl) i (serverOperational cl) = Some (Inr t)" "0 \<le> t"
    "t < serverCount cl" "State (servers cl ! nat t) = Online" by (rule ComputeServerIndex_cluster[OF assms])
  then have "nat t < length (servers cl)" using assms(1) by (simp add: cluster_wf_def nat_less_iff)
  with t show "State (cluster_route cl i) = Online" and "cluster_route cl i \<in> set (servers cl)"
    by (simp_all add: cluster_route_def)
qed

lemma Cluster_DoFor_route:
  assumes "cluster_wf cl" and "serverCount cl \<le> 2 ^ 15" and "0 \<le> i"
  shows "Cluster_DoFor srv cl i act w = server_Do srv (cluster_route cl i) act w"
proof -
  obtain t where t: "ComputeServerIndex (serverCount cl) i (serverOperational cl) = Some (Inr t)"
    "0 \<le> t" "t < serverCount cl" by (rule ComputeServerIndex_cluster[OF assms])
  then have "\<not> (t < 0 \<or> int (length (servers cl)) \<le> t)" using assms(1) by (simp add: cluster_wf_def)
  with t show ?thesis by (simp add: Cluster_DoFor_def returned_def doAt_def cluster_route_def)
qed

lemma Cluster_DoFor_negative:
  assumes wf: "cluster_wf cl" and i: "i smod serverCount cl < 0"
  shows "Cluster_DoFor srv cl i act w = ((RNil, Some (Panic ''index out of range'')), w)"
proof -
  have "serverCount cl \<noteq> 0" using wf by (auto simp: cluster_wf_def)
  then show ?thesis
    using i by (simp add: Cluster_DoFor_def ComputeServerIndex_def serverOperational_def returned_def Let_def)
qed

text \<open>All servers online: the plain modulo sharding.\<close>

lemma cluster_route_mod:
  assumes wf: "cluster_wf cl" and on: "\<forall>s \<in> set (servers cl). State s = Online" and i: "0 \<le> i"
  shows "cluster_route cl i = servers cl ! nat (i mod serverCount cl)"
proof -
  have n: "0 < serverCount cl" "serverCount cl = int (length (servers cl))"
    using wf by (auto simp: cluster_wf_def dest: length_filter_le[THEN order_trans, rotated])
  have m: "0 \<le> i mod serverCount cl" "i mod serverCount cl < serverCount cl" using n by simp_all
  then have "serverOperational cl (i mod serverCount cl) = Inr True"
    using on n m nat_less_iff[of "i mod serverCount cl"] by (simp add: serverOperational_in)
  with i n show ?thesis by (simp add: cluster_route_def ComputeServerIndex_def)
qed

lemma Cluster_Do_first:
  assumes wf: "cluster_wf cl"
  shows "Cluster_Do srv cl act w = server_Do srv (cluster_first cl) act w"
    and "State (cluster_first cl) = Online" and "cluster_first cl \<in> set (servers cl)"
proof -
  let ?on = "\<lambda>s. State s = Online"
  have ne: "filter ?on (servers cl) \<noteq> []" using wf by (auto simp: cluster_wf_def)
  then have "hd (filter ?on (servers cl)) \<in> set (filter ?on (servers cl))" by (rule hd_in_set)
  then show on: "State (cluster_first cl) = Online" and "cluster_first cl \<in> set (servers cl)"
    by (auto simp: cluster_first_def)
  from ne have "\<exists>x \<in> set (servers cl). ?on x" by (auto simp: filter_empty_conv)
  from split_list_first_prop[OF this] obtain us x vs where
    sp: "servers cl = us @ x # vs" "\<forall>u \<in> set us. \<not> ?on u" "?on x" by blast
  have x: "cluster_first cl = x" using sp by (simp add: cluster_first_def)
  have "serverOperational cl (int (length us)) = Inr True" using sp by (simp add: serverOperational_in)
  moreover have "serverOperational cl k = Inr False" if "0 \<le> k" "k < int (length us)" for k
    using that sp by (simp add: serverOperational_in nth_append nat_less_iff)
  ultimately have "FindFirstServerIndex (serverCount cl) (serverOperational cl) = Some (Inr (int (length us)))"
    unfolding FindFirstServerIndex_def using wf sp
    by (intro FindFirst_loop_Some) (simp_all add: cluster_wf_def)
  then show "Cluster_Do srv cl act w = server_Do srv (cluster_first cl) act w"
    using sp x by (simp add: Cluster_Do_def returned_def doAt_def)
qed

section \<open>What clients rely on\<close>

text \<open>
  A cluster over servers that keep the contract \<open>ardb\<close>: every object index that is not negative has a
  server, which is online and one of those the iterator delivers; \<open>Do\<close> uses the first of these.
\<close>

locale ardb_cluster = ardb srv view up
  for srv :: "'w servers" and view and up +
  fixes cl :: "'w StorageCluster" and route :: "int \<Rightarrow> StorageServerConfig option"
    and members :: "StorageServerConfig list"
  assumes dofor: "route i = Some s \<Longrightarrow> DoFor cl i act w = server_Do srv s act w"
    and dofor_none: "route i = None \<Longrightarrow> \<exists>e. DoFor cl i act w = ((RNil, Some e), w)"
    and routed: "0 \<le> i \<Longrightarrow> \<exists>s \<in> set members. route i = Some s"
    and do_first: "Do cl act w = server_Do srv (hd members) act w"
    and iterator: "ServerIterator cl = Inr (map (storageServer srv) members)"
    and online: "s \<in> set members \<Longrightarrow> State s = Online"
    and count_members: "ServerCount cl = int (length members)"

definition Cluster_route :: "Cluster \<Rightarrow> int \<Rightarrow> StorageServerConfig option" where
  "Cluster_route cl i =
     (case ComputeServerIndex (serverCount cl) i (serverOperational cl) of
        Some (Inr s) \<Rightarrow> if s < 0 \<or> int (length (servers cl)) \<le> s then None else Some (servers cl ! nat s)
      | _ \<Rightarrow> None)"

definition Cluster_members :: "Cluster \<Rightarrow> StorageServerConfig list" where
  "Cluster_members cl = filter (\<lambda>s. State s = Online) (servers cl)"

lemma Cluster_ardb_cluster:
  assumes "ardb srv view up" and wf: "cluster_wf cl" and n: "serverCount cl \<le> 2 ^ 15"
  shows "ardb_cluster srv view up (Cluster_cluster srv order cl) (Cluster_route cl) (Cluster_members cl)"
proof (rule ardb_cluster.intro[OF assms(1)], unfold_locales, goal_cases)
  case (1 i s act w) then show ?case
    by (auto simp: Cluster_cluster_def Cluster_DoFor_def Cluster_route_def returned_def doAt_def
        split: option.splits sum.splits if_splits)
next
  case (2 i act w) then show ?case
    by (auto simp: Cluster_cluster_def Cluster_DoFor_def Cluster_route_def returned_def doAt_def
        split: option.splits sum.splits if_splits)
next
  case (3 i)
  obtain t where t: "ComputeServerIndex (serverCount cl) i (serverOperational cl) = Some (Inr t)" "0 \<le> t"
    "t < serverCount cl" "State (servers cl ! nat t) = Online" by (rule ComputeServerIndex_cluster[OF wf n 3])
  moreover have "nat t < length (servers cl)" using t wf by (simp add: cluster_wf_def nat_less_iff)
  ultimately show ?case by (simp add: Cluster_route_def Cluster_members_def)
next
  case 4 show ?case using Cluster_Do_first(1)[OF wf]
    by (simp add: Cluster_cluster_def cluster_first_def Cluster_members_def)
next
  case 5 show ?case by (simp add: Cluster_cluster_def Cluster_ServerIterator_def Cluster_members_def)
next
  case (6 s) then show ?case by (simp add: Cluster_members_def)
next
  case 7 show ?case using wf by (simp add: Cluster_cluster_def cluster_wf_def Cluster_members_def)
qed

lemma UniCluster_ardb_cluster:
  assumes "ardb srv view up" and "State cfg = Online"
  shows "ardb_cluster srv view up (UniCluster srv cfg) (\<lambda>_. Some cfg) [cfg]"
  by (rule ardb_cluster.intro[OF assms(1)], unfold_locales)
    (simp_all add: UniCluster_def UniCluster_Do_def assms(2))

text \<open>Clusters the constructor accepts, of a size for which the search is known to return.\<close>

typedef valid_cluster = "{cl. cluster_wf cl \<and> serverCount cl \<le> 2 ^ 15}"
proof
  let ?s = "\<lparr>Address = ''localhost:16379'', Database = 0, State = Online\<rparr>"
  show "\<lparr>servers = [?s], serverCount = 1, availableServerCount = 1\<rparr> \<in> {cl. cluster_wf cl \<and> serverCount cl \<le> 2 ^ 15}"
    by (simp add: cluster_wf_def)
qed

interpretation mem_cluster: ardb_cluster "mem_srv failing" mem_view "\<lambda>s. s \<notin> failing"
  "Cluster_cluster (mem_srv failing) order (Rep_valid_cluster vc)" "Cluster_route (Rep_valid_cluster vc)"
  "Cluster_members (Rep_valid_cluster vc)"
  using Rep_valid_cluster[of vc] by (intro Cluster_ardb_cluster mem.ardb_axioms) simp_all

interpretation mem_uni: ardb_cluster "mem_srv failing" mem_view "\<lambda>s. s \<notin> failing"
  "UniCluster (mem_srv failing) (cfg\<lparr>State := Online\<rparr>)" "\<lambda>_. Some (cfg\<lparr>State := Online\<rparr>)" "[cfg\<lparr>State := Online\<rparr>]"
  by (intro UniCluster_ardb_cluster mem.ardb_axioms) simp

section \<open>Fields of a hash spread over a cluster\<close>

text \<open>
  The sectors of an LBA and the blocks of a non-deduped vdisk are fields of one hash key, each on the
  server of its index.
\<close>

definition route_hash :: "('w \<Rightarrow> StorageServerConfig \<Rightarrow> string \<Rightarrow> rvalue option) \<Rightarrow>
    (int \<Rightarrow> StorageServerConfig option) \<Rightarrow> string \<Rightarrow> 'w \<Rightarrow> int \<Rightarrow> bytes option" where
  "route_hash view route k w i =
     (case route i of None \<Rightarrow> None
      | Some s \<Rightarrow> (case hash_at (view w s k) of None \<Rightarrow> None | Some h \<Rightarrow> h (itoa i)))"

definition hash_ok :: "('w \<Rightarrow> StorageServerConfig \<Rightarrow> string \<Rightarrow> rvalue option) \<Rightarrow>
    (int \<Rightarrow> StorageServerConfig option) \<Rightarrow> (StorageServerConfig \<Rightarrow> bool) \<Rightarrow> string \<Rightarrow> 'w \<Rightarrow> bool" where
  "hash_ok view route up k w \<longleftrightarrow>
     (\<forall>i s. 0 \<le> i \<longrightarrow> route i = Some s \<longrightarrow> up s \<and> hash_at (view w s k) \<noteq> None)"

lemma hash_at_hash_value [simp]: "hash_at (hash_value h) = Some h"
  by (auto simp: hash_at_def hash_value_def)

lemma hash_at_VHash [simp]: "hash_at (Some (VHash h)) = Some h" "hash_at None = Some Map.empty"
  by (simp_all add: hash_at_def)

lemma view_cong:
  assumes "view w' = view w"
  shows "route_hash view route k w' = route_hash view route k w"
    and "hash_ok view route up k w' = hash_ok view route up k w"
  by (intro ext) (simp_all add: route_hash_def hash_ok_def assms split: option.split)

lemma route_hash_upd:
  assumes "view w' = key_upd (view w) s k v" and "route i = Some s" and "hash_at (view w s k) = Some h"
    and "hash_at v = Some (h(itoa i := x))"
  shows "route_hash view route k w' = (route_hash view route k w)(i := x)"
  using assms itoa_inject by (auto simp: route_hash_def fun_eq_iff split: option.splits)

lemma route_hash_frame:
  assumes "view w' = key_upd (view w) s k v" and "k' \<noteq> k"
  shows "route_hash view route k' w' = route_hash view route k' w"
  using assms by (auto simp: route_hash_def fun_eq_iff split: option.splits)

lemma hash_ok_upd:
  assumes "view w' = key_upd (view w) s k v" and "hash_at v \<noteq> None" and "hash_ok view route up k w"
  shows "hash_ok view route up k w'"
  using assms by (auto simp: hash_ok_def)

lemma hash_ok_frame:
  assumes "view w' = key_upd (view w) s k v" and "k' \<noteq> k"
  shows "hash_ok view route up k' w' = hash_ok view route up k' w"
  using assms by (auto simp: hash_ok_def)

context ardb_cluster
begin

lemma server_cmd: "State s = Online \<Longrightarrow> server_Do srv s (Command ct args) w = srv s (cmd_name ct) args w"
  by (simp add: server_Do_def Dial_def)

lemma hash_ok_server:
  assumes "hash_ok view route up k w" and "0 \<le> i"
  obtains s h where "route i = Some s" and "State s = Online" and "up s" and "hash_at (view w s k) = Some h"
proof -
  from routed[OF assms(2)] obtain s where "s \<in> set members" "route i = Some s" by blast
  with online assms that show thesis unfolding hash_ok_def by blast
qed

lemma server_down: "\<not> (State s = Online \<and> up s) \<Longrightarrow> \<exists>e. server_Do srv s (Command ct args) w = ((RNil, Some e), w)"
  using down[of s "cmd_name ct" args w] by (cases "State s = Online") (auto simp: server_Do_def Dial_def)

lemma dofor_hget:
  assumes "hash_ok view route up k w" and "0 \<le> i"
  shows "\<exists>w'. DoFor cl i (Command HashGet [AStr k, AInt i]) w =
                ((opt_bulk (route_hash view route k w i), None), w') \<and> view w' = view w"
proof -
  obtain s h where s: "route i = Some s" "State s = Online" "up s" "hash_at (view w s k) = Some h"
    by (rule hash_ok_server[OF assms])
  from hget[OF s(3,4), of i] s show ?thesis
    by (auto simp: dofor server_cmd HashGet_def route_hash_def)
qed

text \<open>A write that reports no error has reached the server; one that reports an error has changed nothing.\<close>

lemma dofor_hset:
  "(\<exists>r w' s h. DoFor cl i (Command HashSet [AStr k, AInt i, ABytes b]) w = ((r, None), w') \<and>
      route i = Some s \<and> hash_at (view w s k) = Some h \<and>
      view w' = key_upd (view w) s k (Some (VHash (h(itoa i \<mapsto> b))))) \<or>
   (\<exists>r e. DoFor cl i (Command HashSet [AStr k, AInt i, ABytes b]) w = ((r, Some e), w))"
proof (cases "route i")
  case None
  from dofor_none[OF this] show ?thesis by blast
next
  case (Some s)
  have d: "DoFor cl i act w = server_Do srv s act w" for act by (rule dofor[OF Some])
  show ?thesis
  proof (cases "State s = Online \<and> up s")
    case True
    show ?thesis
    proof (cases "hash_at (view w s k)")
      case None
      with hset_wrong[of s w k i b] True show ?thesis by (auto simp: d server_cmd HashSet_def)
    next
      case (Some h)
      with hset[of s w k h i b] True \<open>route i = Some s\<close> show ?thesis
        by (fastforce simp: d server_cmd HashSet_def)
    qed
  next
    case False
    from server_down[OF this] show ?thesis unfolding d by blast
  qed
qed

lemma dofor_hdel:
  "(\<exists>r w' s h. DoFor cl i (Command HashDelete [AStr k, AInt i]) w = ((r, None), w') \<and>
      route i = Some s \<and> hash_at (view w s k) = Some h \<and>
      view w' = key_upd (view w) s k (hash_value (h(itoa i := None)))) \<or>
   (\<exists>r e. DoFor cl i (Command HashDelete [AStr k, AInt i]) w = ((r, Some e), w))"
proof (cases "route i")
  case None
  from dofor_none[OF this] show ?thesis by blast
next
  case (Some s)
  have d: "DoFor cl i act w = server_Do srv s act w" for act by (rule dofor[OF Some])
  show ?thesis
  proof (cases "State s = Online \<and> up s")
    case True
    show ?thesis
    proof (cases "hash_at (view w s k)")
      case None
      with hdel_wrong[of s w k i] True show ?thesis by (auto simp: d server_cmd HashDelete_def)
    next
      case (Some h)
      with hdel[of s w k h i] True \<open>route i = Some s\<close> show ?thesis
        by (fastforce simp: d server_cmd HashDelete_def)
    qed
  next
    case False
    from server_down[OF this] show ?thesis unfolding d by blast
  qed
qed

lemma hset_error: "DoFor cl i (Command HashSet [AStr k, AInt i, ABytes b]) w = ((r, Some e), w') \<Longrightarrow> w' = w"
  using dofor_hset[of i k b w] by auto

lemma hdel_error: "DoFor cl i (Command HashDelete [AStr k, AInt i]) w = ((r, Some e), w') \<Longrightarrow> w' = w"
  using dofor_hdel[of i k w] by auto

lemma dofor_hset_ok:
  assumes "hash_ok view route up k w" and "0 \<le> i"
  shows "\<exists>r w'. DoFor cl i (Command HashSet [AStr k, AInt i, ABytes b]) w = ((r, None), w')"
proof -
  obtain s h where s: "route i = Some s" "State s = Online" "up s" "hash_at (view w s k) = Some h"
    by (rule hash_ok_server[OF assms])
  from hset[OF s(3,4), of i b] s show ?thesis by (auto simp: dofor server_cmd HashSet_def)
qed

lemma dofor_hdel_ok:
  assumes "hash_ok view route up k w" and "0 \<le> i"
  shows "\<exists>r w'. DoFor cl i (Command HashDelete [AStr k, AInt i]) w = ((r, None), w')"
proof -
  obtain s h where s: "route i = Some s" "State s = Online" "up s" "hash_at (view w s k) = Some h"
    by (rule hash_ok_server[OF assms])
  from hdel[OF s(3,4), of i] s show ?thesis by (auto simp: dofor server_cmd HashDelete_def)
qed

lemma hset_effect:
  assumes "DoFor cl i (Command HashSet [AStr k, AInt i, ABytes b]) w = ((r, None), w')"
  shows "route_hash view route k w' = (route_hash view route k w)(i \<mapsto> b)"
    and "hash_ok view route up k w \<Longrightarrow> hash_ok view route up k w'"
    and "k' \<noteq> k \<Longrightarrow> route_hash view route k' w' = route_hash view route k' w"
    and "k' \<noteq> k \<Longrightarrow> hash_ok view route up k' w' = hash_ok view route up k' w"
    and "k' \<noteq> k \<Longrightarrow> view w' s k' = view w s k'"
proof -
  from dofor_hset[of i k b w] assms obtain s' h where s: "route i = Some s'" "hash_at (view w s' k) = Some h"
    and v: "view w' = key_upd (view w) s' k (Some (VHash (h(itoa i \<mapsto> b))))" by auto
  show "route_hash view route k w' = (route_hash view route k w)(i \<mapsto> b)" by (rule route_hash_upd[of view _ _ _ _ _ route, OF v s]) simp
  show "hash_ok view route up k w \<Longrightarrow> hash_ok view route up k w'" by (rule hash_ok_upd[of view, OF v]) simp_all
  show "k' \<noteq> k \<Longrightarrow> route_hash view route k' w' = route_hash view route k' w" by (rule route_hash_frame[of view, OF v])
  show "k' \<noteq> k \<Longrightarrow> hash_ok view route up k' w' = hash_ok view route up k' w" by (rule hash_ok_frame[of view, OF v])
  show "k' \<noteq> k \<Longrightarrow> view w' s k' = view w s k'" by (simp add: v)
qed

lemma hdel_effect:
  assumes "DoFor cl i (Command HashDelete [AStr k, AInt i]) w = ((r, None), w')"
  shows "route_hash view route k w' = (route_hash view route k w)(i := None)"
    and "hash_ok view route up k w \<Longrightarrow> hash_ok view route up k w'"
    and "k' \<noteq> k \<Longrightarrow> route_hash view route k' w' = route_hash view route k' w"
    and "k' \<noteq> k \<Longrightarrow> hash_ok view route up k' w' = hash_ok view route up k' w"
    and "k' \<noteq> k \<Longrightarrow> view w' s k' = view w s k'"
proof -
  from dofor_hdel[of i k w] assms obtain s' h where s: "route i = Some s'" "hash_at (view w s' k) = Some h"
    and v: "view w' = key_upd (view w) s' k (hash_value (h(itoa i := None)))" by auto
  show "route_hash view route k w' = (route_hash view route k w)(i := None)" by (rule route_hash_upd[of view _ _ _ _ _ route, OF v s]) simp
  show "hash_ok view route up k w \<Longrightarrow> hash_ok view route up k w'" by (rule hash_ok_upd[of view, OF v]) simp_all
  show "k' \<noteq> k \<Longrightarrow> route_hash view route k' w' = route_hash view route k' w" by (rule route_hash_frame[of view, OF v])
  show "k' \<noteq> k \<Longrightarrow> hash_ok view route up k' w' = hash_ok view route up k' w" by (rule hash_ok_frame[of view, OF v])
  show "k' \<noteq> k \<Longrightarrow> view w' s k' = view w s k'" by (simp add: v)
qed

end

end
