(* ===== verification/Cluster_All.thy ===== *)
theory Cluster_All
  imports Ardb_Cluster
begin

text \<open>
  \<open>Cluster.DoForAll\<close>: the actions are grouped per server and sent in one round trip each, and the replies come
  back in the order of the pairs, in whatever order the servers answer.
\<close>

section \<open>Grouping\<close>

definition positions :: "(int \<Rightarrow> int) \<Rightarrow> (int \<times> StorageAction) list \<Rightarrow> int \<Rightarrow> nat list" where
  "positions route pairs s = filter (\<lambda>k. route (fst (pairs ! k)) = s) [0..<length pairs]"

definition group_of :: "(int \<Rightarrow> int) \<Rightarrow> (int \<times> StorageAction) list \<Rightarrow> int \<Rightarrow> IndexActionMap option" where
  "group_of route pairs s =
     (if positions route pairs s = [] then None
      else Some \<lparr>Indices = positions route pairs s, Actions = map (\<lambda>k. snd (pairs ! k)) (positions route pairs s)\<rparr>)"

definition grouped :: "(int \<Rightarrow> int) \<Rightarrow> (int \<times> StorageAction) list \<Rightarrow> (int \<times> IndexActionMap) list \<Rightarrow> bool" where
  "grouped route pairs m \<longleftrightarrow> distinct (map fst m) \<and> map_of m = group_of route pairs"

lemma alist_set_keys: "fst ` set (alist_set k v m) = insert k (fst ` set m)"
  by (induction k v m rule: alist_set.induct) auto

lemma alist_set_distinct: "distinct (map fst m) \<Longrightarrow> distinct (map fst (alist_set k v m))"
proof (induction k v m rule: alist_set.induct)
  case (2 k v k' v' xs)
  then show ?case by (cases "k' = k") (simp_all add: alist_set_keys)
qed simp

lemma positions_snoc:
  "positions route (pairs @ [(i, a)]) s = positions route pairs s @ (if route i = s then [length pairs] else [])"
proof -
  have "filter (\<lambda>k. route (fst ((pairs @ [(i, a)]) ! k)) = s) [0..<length pairs] = positions route pairs s"
    unfolding positions_def by (rule filter_cong) (auto simp: nth_append)
  then show ?thesis by (simp add: positions_def)
qed

lemma positions_bound: "k \<in> set (positions route pairs s) \<Longrightarrow> k < length pairs"
  by (simp add: positions_def)

lemma group_of_snoc:
  "group_of route (pairs @ [(i, a)]) s =
     (if route i = s
      then Some (IndexActionMap_Add (length pairs) a
                   (case group_of route pairs s of None \<Rightarrow> \<lparr>Indices = [], Actions = []\<rparr> | Some x \<Rightarrow> x))
      else group_of route pairs s)"
proof -
  have "map (\<lambda>k. snd ((pairs @ [(i, a)]) ! k)) (positions route pairs s) = map (\<lambda>k. snd (pairs ! k)) (positions route pairs s)"
    using positions_bound by (auto simp: nth_append)
  then show ?thesis by (auto simp: group_of_def positions_snoc IndexActionMap_Add_def)
qed

lemma group_pairs_ok:
  assumes "\<forall>p \<in> set pairs. returned (ComputeServerIndex (serverCount cl) (fst p) (serverOperational cl)) = Inr (route (fst p))"
    and "grouped route prev m"
  shows "\<exists>m'. group_pairs cl (length prev) pairs m = Inr m' \<and> grouped route (prev @ pairs) m'"
  using assms
proof (induction pairs arbitrary: prev m)
  case (Cons p pairs)
  obtain i a where p: "p = (i, a)" by fastforce
  let ?m = "group_add (route i) (length prev) a m"
  have "grouped route (prev @ [(i, a)]) ?m"
    using Cons.prems(2)
    by (auto simp: grouped_def group_add_def alist_set_distinct fun_eq_iff group_of_snoc)
  from Cons.IH[OF _ this] Cons.prems(1) show ?case by (simp add: p)
qed auto

section \<open>Collecting the replies\<close>

lemma store_replies_ok:
  "\<exists>rs'. store_replies ks (map g ks) rs = Inr rs' \<and> length rs' = length rs \<and>
         (\<forall>k < length rs. rs' ! k = (if k \<in> set ks then g k else rs ! k))"
proof (induction ks arbitrary: rs)
  case (Cons i ks)
  from Cons[of "rs[i := g i]"] show ?case by (auto simp: nth_list_update)
qed auto

lemma run_groups_ok:
  assumes "\<And>s m w. (s, m) \<in> set gs \<Longrightarrow> P w \<Longrightarrow>
      \<exists>w'. run_group srv cl s m w = (Inr (map (\<lambda>k. g s k) (Indices m)), w') \<and> P w'" and "P w"
  shows "\<exists>rs' w'. run_groups srv cl gs (Inr rs) w = (Inr rs', w') \<and> length rs' = length rs \<and>
     (\<forall>k < length rs. (\<forall>s m. (s, m) \<in> set gs \<longrightarrow> k \<notin> set (Indices m)) \<longrightarrow> rs' ! k = rs ! k) \<and>
     (\<forall>k < length rs. (\<exists>s m. (s, m) \<in> set gs \<and> k \<in> set (Indices m)) \<longrightarrow>
        (\<exists>s m. (s, m) \<in> set gs \<and> k \<in> set (Indices m) \<and> rs' ! k = g s k))"
  using assms
proof (induction gs arbitrary: rs w)
  case (Cons x gs)
  obtain s m where x: "x = (s, m)" by fastforce
  from Cons.prems(1)[of s m w] Cons.prems(2) obtain w1 where
    r: "run_group srv cl s m w = (Inr (map (g s) (Indices m)), w1)" and P1: "P w1" by (auto simp: x)
  from store_replies_ok[of "Indices m" "g s" rs] obtain rs1 where
    st: "store_replies (Indices m) (map (g s) (Indices m)) rs = Inr rs1" and l1: "length rs1 = length rs"
    and n1: "\<forall>k < length rs. rs1 ! k = (if k \<in> set (Indices m) then g s k else rs ! k)" by blast
  from Cons.IH[OF _ P1, of rs1] Cons.prems(1) obtain rs' w' where
    rg: "run_groups srv cl gs (Inr rs1) w1 = (Inr rs', w')" and l: "length rs' = length rs1"
    and n: "\<forall>k < length rs1. (\<forall>s m. (s, m) \<in> set gs \<longrightarrow> k \<notin> set (Indices m)) \<longrightarrow> rs' ! k = rs1 ! k"
      "\<forall>k < length rs1. (\<exists>s m. (s, m) \<in> set gs \<and> k \<in> set (Indices m)) \<longrightarrow>
        (\<exists>s m. (s, m) \<in> set gs \<and> k \<in> set (Indices m) \<and> rs' ! k = g s k)" by auto
  have "run_groups srv cl (x # gs) (Inr rs) w = (Inr rs', w')" by (simp add: x r st rg)
  moreover have "rs' ! k = rs ! k" if "k < length rs" "\<forall>s m. (s, m) \<in> set (x # gs) \<longrightarrow> k \<notin> set (Indices m)" for k
    using that n(1) n1 l1 by (auto simp: x)
  moreover have "\<exists>t u. (t, u) \<in> set (x # gs) \<and> k \<in> set (Indices u) \<and> rs' ! k = g t k"
    if k: "k < length rs" and ex: "\<exists>t u. (t, u) \<in> set (x # gs) \<and> k \<in> set (Indices u)" for k
  proof (cases "\<exists>t u. (t, u) \<in> set gs \<and> k \<in> set (Indices u)")
    case True
    with n(2) k l1 have "\<exists>t u. (t, u) \<in> set gs \<and> k \<in> set (Indices u) \<and> rs' ! k = g t k" by simp
    then show ?thesis by (meson list.set_intros(2))
  next
    case False
    with ex have "k \<in> set (Indices m)" by (auto simp: x)
    with False n(1) n1 k l1 show ?thesis by (intro exI[of _ s] exI[of _ m]) (auto simp: x)
  qed
  ultimately show ?case using l l1 by auto
qed simp

text \<open>
  When every server \<open>s\<close> that is asked answers its batches of actions with \<open>f s act\<close> in states that satisfy \<open>P\<close>, two
  or more pairs get the answers of their own servers to their own actions, in order.
\<close>

lemma Cluster_DoForAll_ok:
  assumes n: "2 \<le> length pairs"
    and route: "\<forall>p \<in> set pairs. returned (ComputeServerIndex (serverCount cl) (fst p) (serverOperational cl)) = Inr (route (fst p))"
    and answers: "\<And>s ks w. ks \<noteq> [] \<Longrightarrow> set ks \<subseteq> {k. k < length pairs \<and> route (fst (pairs ! k)) = s} \<Longrightarrow> P w \<Longrightarrow>
      \<exists>res w'. doAt srv cl s (StorageCommands (Some (map (\<lambda>k. snd (pairs ! k)) ks))) w = (res, w') \<and>
               Values res = Inr (map (\<lambda>k. f s (snd (pairs ! k))) ks) \<and> P w'"
    and order: "\<And>gs. set (order gs) = set gs" and P: "P w"
  shows "\<exists>w'. Cluster_DoForAll srv order cl pairs w = (Inr (map (\<lambda>p. f (route (fst p)) (snd p)) pairs), w')"
proof -
  have "grouped route [] []" by (simp add: grouped_def group_of_def positions_def fun_eq_iff)
  from group_pairs_ok[OF route this] obtain m where gp: "group_pairs cl 0 pairs [] = Inr m" and gr: "grouped route pairs m"
    by auto
  have entry: "x = \<lparr>Indices = positions route pairs s, Actions = map (\<lambda>k. snd (pairs ! k)) (positions route pairs s)\<rparr> \<and>
      positions route pairs s \<noteq> []" if "(s, x) \<in> set m" for s x
    using that gr by (auto simp: grouped_def group_of_def split: if_splits dest: map_of_is_SomeI)
  have have_group: "\<exists>x. (route (fst (pairs ! k)), x) \<in> set m \<and> k \<in> set (Indices x)" if "k < length pairs" for k
  proof -
    let ?s = "route (fst (pairs ! k))"
    have k: "k \<in> set (positions route pairs ?s)" using that by (simp add: positions_def)
    then obtain x where "map_of m ?s = Some x" using gr by (fastforce simp: grouped_def group_of_def)
    then have "(?s, x) \<in> set m" by (rule map_of_SomeD)
    moreover from entry[OF this] k have "k \<in> set (Indices x)" by simp
    ultimately show ?thesis by blast
  qed
  let ?g = "\<lambda>s k. f s (snd (pairs ! k))"
  have run: "\<exists>w'. run_group srv cl s x w = (Inr (map (?g s) (Indices x)), w') \<and> P w'"
    if "(s, x) \<in> set m" "P w" for s x w
  proof -
    have "set (positions route pairs s) \<subseteq> {k. k < length pairs \<and> route (fst (pairs ! k)) = s}"
      by (auto simp: positions_def)
    from answers[OF _ this that(2)] entry[OF that(1)] show ?thesis by (auto simp: run_group_def Commands_def)
  qed
  have own: "s = route (fst (pairs ! k))" if "(s, x) \<in> set m" "k \<in> set (Indices x)" for s x k
    using entry[OF that(1)] that(2) by (auto simp: positions_def)
  have ne: "m \<noteq> []" using have_group[of 0] n by (cases pairs) auto
  show ?thesis
  proof (cases "\<exists>s x. m = [(s, x)]")
    case True
    then obtain s x where mx: "m = [(s, x)]" by blast
    have all: "route (fst (pairs ! k)) = s" if "k < length pairs" for k using have_group[OF that] by (auto simp: mx)
    then have "positions route pairs s = [0..<length pairs]" by (auto simp: positions_def intro!: filter_True)
    then have "map (?g s) (Indices x) = map (\<lambda>p. f (route (fst p)) (snd p)) pairs"
      using entry[of s x] all by (auto simp: mx intro!: nth_equalityI)
    with run[of s x w] P n gp show ?thesis by (auto simp: Cluster_DoForAll_def mx)
  next
    case False
    let ?rs = "replicate (length pairs) RNil"
    from run_groups_ok[of "order m" P srv cl ?g w ?rs] run order P obtain rs' w' where
      rg: "run_groups srv cl (order m) (Inr ?rs) w = (Inr rs', w')" and l: "length rs' = length pairs"
      and nth: "\<forall>k < length pairs. (\<exists>s x. (s, x) \<in> set m \<and> k \<in> set (Indices x)) \<longrightarrow>
        (\<exists>s x. (s, x) \<in> set m \<and> k \<in> set (Indices x) \<and> rs' ! k = ?g s k)" by auto
    have "rs' = map (\<lambda>p. f (route (fst p)) (snd p)) pairs"
    proof (rule nth_equalityI)
      show "length rs' = length (map (\<lambda>p. f (route (fst p)) (snd p)) pairs)" by (simp add: l)
      fix k assume "k < length rs'"
      then have k: "k < length pairs" by (simp add: l)
      have "\<exists>s x. (s, x) \<in> set m \<and> k \<in> set (Indices x)" using have_group[OF k] by blast
      with nth k obtain s x where sx: "(s, x) \<in> set m" "k \<in> set (Indices x)" and v: "rs' ! k = ?g s k" by blast
      have "s = route (fst (pairs ! k))" by (rule own[OF sx])
      then show "rs' ! k = map (\<lambda>p. f (route (fst p)) (snd p)) pairs ! k" using v k by simp
    qed
    moreover have "Cluster_DoForAll srv order cl pairs w = run_groups srv cl (order m) (Inr ?rs) w"
      using n gp False ne by (cases m rule: remdups_adj.cases) (auto simp: Cluster_DoForAll_def)
    ultimately show ?thesis using rg by simp
  qed
qed

section \<open>A batch of reads\<close>

lemma conn_flush_ok:
  assumes "\<And>x w. x \<in> set xs \<Longrightarrow> P w \<Longrightarrow> \<exists>w'. conn (nm x) (args x) w = ((g x, None), w') \<and> P w'" and "P w"
  shows "\<exists>w'. conn_flush conn (map (\<lambda>x. (nm x, args x)) xs) rs w = ((RArr (rs @ map g xs), None), w') \<and> P w'"
  using assms
proof (induction xs arbitrary: rs w)
  case (Cons x xs)
  from Cons.prems(1)[of x w] Cons.prems(2) obtain w1 where "conn (nm x) (args x) w = ((g x, None), w1)" "P w1" by auto
  with Cons.IH[of w1 "rs @ [g x]"] Cons.prems(1) show ?case by auto
qed simp

lemma action_Send_all_commands: "action_Send_all (map (\<lambda>x. Command (ct x) (args x)) xs) = Inr (map (\<lambda>x. (cmd_name (ct x), args x)) xs)"
  by (induction xs) (simp_all add: Command_def)

lemma action_Do_commands:
  assumes "xs \<noteq> []"
  shows "action_Do conn (StorageCommands (Some (map (\<lambda>x. Command (ct x) (args x)) xs))) w =
    conn_flush conn (map (\<lambda>x. (cmd_name (ct x), args x)) xs) [] w"
  using assms by (simp add: action_Do_def action_Send_all_commands split: list.split)

lemma Cluster_DoForAll_hget:
  assumes ardb: "ardb srv view up" and wf: "cluster_wf cl" "serverCount cl \<le> 2 ^ 15"
    and ok: "hash_ok view (Cluster_route cl) up k w" and idx: "2 \<le> length is" "\<forall>i \<in> set is. 0 \<le> i"
    and order: "\<And>gs. set (order gs) = set gs"
  shows "\<exists>w'. Cluster_DoForAll srv order cl (map (\<lambda>i. (i, Command HashGet [AStr k, AInt i])) is) w =
      (Inr (map (\<lambda>i. opt_bulk (route_hash view (Cluster_route cl) k w i)) is), w')"
proof -
  let ?pairs = "map (\<lambda>i. (i, Command HashGet [AStr k, AInt i])) is"
  let ?route = "\<lambda>i. case ComputeServerIndex (serverCount cl) i (serverOperational cl) of Some (Inr t) \<Rightarrow> t | _ \<Rightarrow> 0"
  let ?ans = "\<lambda>i. opt_bulk (route_hash view (Cluster_route cl) k w i)"
  let ?f = "\<lambda>s act. case act of StorageCommand (Some (ct, [AStr k, AInt i])) \<Rightarrow> ?ans i | _ \<Rightarrow> RNil"
  have srch: "\<exists>t. ComputeServerIndex (serverCount cl) i (serverOperational cl) = Some (Inr t) \<and> 0 \<le> t \<and>
      t < int (length (servers cl)) \<and> State (servers cl ! nat t) = Online" if "i \<in> set is" for i
    using ComputeServerIndex_cluster[OF wf] idx(2) that wf(1) unfolding cluster_wf_def by metis
  have one: "\<exists>w'. srv (servers cl ! nat (?route i)) ''HGET'' [AStr k, AInt i] v = ((?ans i, None), w') \<and> view w' = view w"
    if i: "i \<in> set is" and v: "view v = view w" for i v
  proof -
    from srch[OF i] obtain t where t: "ComputeServerIndex (serverCount cl) i (serverOperational cl) = Some (Inr t)"
      "0 \<le> t" "t < int (length (servers cl))" "State (servers cl ! nat t) = Online" by blast
    then have r: "Cluster_route cl i = Some (servers cl ! nat t)" by (simp add: Cluster_route_def)
    have "0 \<le> i" using idx(2) i by blast
    with ok r have "up (servers cl ! nat t) \<and> hash_at (view w (servers cl ! nat t) k) \<noteq> None" unfolding hash_ok_def by blast
    then obtain h where h: "up (servers cl ! nat t)" "hash_at (view w (servers cl ! nat t) k) = Some h" by blast
    from ardb.hget[OF ardb h(1), of v k h i] h(2) v t(1) r show ?thesis by (auto simp: route_hash_def)
  qed
  have "\<exists>w'. Cluster_DoForAll srv order cl ?pairs w = (Inr (map (\<lambda>p. ?f (?route (fst p)) (snd p)) ?pairs), w')"
  proof (rule Cluster_DoForAll_ok[where P = "\<lambda>v. view v = view w"])
    show "\<forall>p \<in> set ?pairs. returned (ComputeServerIndex (serverCount cl) (fst p) (serverOperational cl)) = Inr (?route (fst p))"
      using srch by (force simp: returned_def)
    fix s ks v
    assume ks: "ks \<noteq> []" "set ks \<subseteq> {k. k < length ?pairs \<and> ?route (fst (?pairs ! k)) = s}" and v: "view v = view w"
    have in_is: "is ! j \<in> set is" "?route (is ! j) = s" if "j \<in> set ks" for j using ks(2) that by auto
    obtain j0 where j0: "j0 \<in> set ks" using ks(1) by (cases ks) auto
    from srch[OF in_is(1)[OF j0]] in_is(2)[OF j0] have s: "0 \<le> s" "s < int (length (servers cl))" "State (servers cl ! nat s) = Online"
      by auto
    have m: "map (\<lambda>j. snd (?pairs ! j)) ks = map (\<lambda>j. Command HashGet [AStr k, AInt (is ! j)]) ks" using ks(2) by auto
    have "\<exists>w'. conn_flush (srv (servers cl ! nat s)) (map (\<lambda>j. (''HGET'', [AStr k, AInt (is ! j)])) ks) [] v =
        ((RArr ([] @ map (\<lambda>j. ?ans (is ! j)) ks), None), w') \<and> view w' = view w"
    proof (rule conn_flush_ok[where P = "\<lambda>v. view v = view w", OF _ v])
      fix j u assume j: "j \<in> set ks" and u: "view u = view w"
      from one[OF in_is(1)[OF j] u] show "\<exists>w'. srv (servers cl ! nat s) ''HGET'' [AStr k, AInt (is ! j)] u =
          ((?ans (is ! j), None), w') \<and> view w' = view w" unfolding in_is(2)[OF j] .
    qed
    then obtain w' where w': "conn_flush (srv (servers cl ! nat s)) (map (\<lambda>j. (''HGET'', [AStr k, AInt (is ! j)])) ks) [] v =
        ((RArr (map (\<lambda>j. ?ans (is ! j)) ks), None), w')" "view w' = view w" by auto
    have "doAt srv cl s (StorageCommands (Some (map (\<lambda>j. snd (?pairs ! j)) ks))) v = ((RArr (map (\<lambda>j. ?ans (is ! j)) ks), None), w')"
      unfolding m using s ks(1) w'(1) by (simp add: doAt_def server_Do_def Dial_def action_Do_commands HashGet_def)
    moreover have "map (\<lambda>j. ?f s (snd (?pairs ! j))) ks = map (\<lambda>j. ?ans (is ! j)) ks" using ks(2) by (auto simp: Command_def)
    ultimately show "\<exists>res w'. doAt srv cl s (StorageCommands (Some (map (\<lambda>j. snd (?pairs ! j)) ks))) v = (res, w') \<and>
        Values res = Inr (map (\<lambda>j. ?f s (snd (?pairs ! j))) ks) \<and> view w' = view w"
      using w'(2) by (simp add: Values_def redis_Values_def)
  qed (use idx(1) order in auto)
  then show ?thesis by (simp add: comp_def Command_def)
qed

end
