(* ===== verification/Lba_Sector.thy ===== *)
theory Lba_Sector
  imports Prelude
begin

text \<open>
  Hashes (\<open>hash.go\<close>) and LBA sectors (\<open>nbd/ardb/storage/lba/sector.go\<close>): a sector is a slice of
  128 hashes of 32 bytes with a dirty flag. A nil hash is \<open>None\<close>.
\<close>

section \<open>Hashes\<close>

definition HashSize :: int where "HashSize = 32"

definition NewHash :: bytes where "NewHash = replicate (nat HashSize) 0"

definition NilHash :: bytes where "NilHash = NewHash"

definition Hash_Equals :: "bytes \<Rightarrow> bytes \<Rightarrow> bool" where "Hash_Equals h compareTo = (h = compareTo)"

lemma HashSize_nat [simp]: "nat HashSize = 32" by (simp add: HashSize_def)

lemma length_NilHash [simp]: "length NilHash = 32" by (simp add: NilHash_def NewHash_def)

section \<open>Sectors\<close>

definition NumberOfRecordsPerLBASector :: int where "NumberOfRecordsPerLBASector = 128"

definition BytesPerSector :: int where "BytesPerSector = NumberOfRecordsPerLBASector * HashSize"

lemmas sector_consts = HashSize_def NumberOfRecordsPerLBASector_def BytesPerSector_def

record Sector =
  hashes :: bytes
  dirty :: bool

definition NewSector :: Sector where
  "NewSector = \<lparr>hashes = replicate (nat BytesPerSector) 0, dirty = False\<rparr>"

definition SectorFromBytes :: "bytes \<Rightarrow> Sector result" where
  "SectorFromBytes bs =
     (if int (length bs) \<noteq> BytesPerSector then Inl (ErrOther ''raw sector length'')
      else Inr \<lparr>hashes = bs, dirty = False\<rparr>)"

text \<open>\<open>copy(dst, src)\<close> writes the common length and leaves the rest of \<open>dst\<close>.\<close>

definition go_copy :: "'a list \<Rightarrow> 'a list \<Rightarrow> 'a list" where
  "go_copy dst src = take (length dst) src @ drop (length src) dst"

definition Sector_Set :: "Sector \<Rightarrow> int \<Rightarrow> bytes option \<Rightarrow> Sector result" where
  "Sector_Set s hashIndex h =
     (let offset = hashIndex * HashSize;
          hash = (case h of None \<Rightarrow> NilHash | Some x \<Rightarrow> x)
      in if offset < 0 \<or> int (length (hashes s)) < offset + HashSize
         then Inl (Panic ''slice bounds out of range'')
         else Inr (s\<lparr>hashes := blit (hashes s) (nat offset)
                       (go_copy (take (nat HashSize) (drop (nat offset) (hashes s))) hash),
                     dirty := True\<rparr>))"

definition Sector_Get :: "Sector \<Rightarrow> int \<Rightarrow> bytes option result" where
  "Sector_Get s hashIndex =
     (let offset = hashIndex * HashSize
      in if offset < 0 \<or> int (length (hashes s)) < offset + HashSize
         then Inl (Panic ''slice bounds out of range'')
         else let targetHash = take (nat HashSize) (drop (nat offset) (hashes s))
              in if Hash_Equals targetHash NilHash then Inr None
                 else Inr (Some (go_copy NewHash targetHash)))"

fun all_zero :: "bytes \<Rightarrow> bool" where
  "all_zero [] = True"
| "all_zero (b # bs) = (if b \<noteq> 0 then False else all_zero bs)"

definition Sector_IsNil :: "Sector \<Rightarrow> bool" where
  "Sector_IsNil s = all_zero (hashes s)"

definition Sector_Bytes :: "Sector \<Rightarrow> bytes option" where
  "Sector_Bytes s = (if Sector_IsNil s then None else Some (hashes s))"

lemma all_zero_iff: "all_zero bs \<longleftrightarrow> bs = replicate (length bs) 0"
  by (induction bs) auto

text \<open>A well-formed sector has its full length; \<open>sector_slot\<close> is the slice of one record.\<close>

definition sector_wf :: "bytes \<Rightarrow> bool" where
  "sector_wf bs \<longleftrightarrow> length bs = nat BytesPerSector"

definition sector_slot :: "bytes \<Rightarrow> int \<Rightarrow> bytes" where
  "sector_slot bs k = take 32 (drop (nat (k * 32)) bs)"

abbreviation slot_index :: "int \<Rightarrow> bool" where
  "slot_index k \<equiv> 0 \<le> k \<and> k < 128"

text \<open>What \<open>Set\<close> writes: the hash itself, or 32 zero bytes for a nil hash.\<close>

definition hash_bytes :: "bytes option \<Rightarrow> bytes" where
  "hash_bytes h = (case h of None \<Rightarrow> NilHash | Some x \<Rightarrow> x)"

definition opt_hash :: "bytes \<Rightarrow> bytes option" where
  "opt_hash bs = (if bs = NilHash then None else Some bs)"

definition slot_write :: "bytes \<Rightarrow> int \<Rightarrow> bytes \<Rightarrow> bytes" where
  "slot_write bs k h = blit bs (nat (k * 32)) h"

lemma sector_wf_length [simp]: "sector_wf bs \<Longrightarrow> length bs = 4096"
  by (simp add: sector_wf_def sector_consts)

lemma go_copy_same [simp]: "length src = length dst \<Longrightarrow> go_copy dst src = src"
  by (simp add: go_copy_def)

lemma length_sector_slot:
  assumes "sector_wf bs" and "slot_index k" shows "length (sector_slot bs k) = 32"
proof -
  have "nat (k * 32) + 32 \<le> 4096" using assms(2) by auto
  with assms(1) show ?thesis by (simp add: sector_slot_def)
qed

lemma slot_write_wf [simp]:
  assumes "sector_wf bs" and "slot_index k" and "length h = 32"
  shows "sector_wf (slot_write bs k h)"
proof -
  have "nat (k * 32) + 32 \<le> 4096" using assms(2) by auto
  with assms show ?thesis by (simp add: sector_wf_def slot_write_def sector_consts)
qed

lemma sector_slot_write:
  assumes "sector_wf bs" and "slot_index k" and "slot_index j" and "length h = 32"
  shows "sector_slot (slot_write bs k h) j = (if j = k then h else sector_slot bs j)"
proof -
  have b: "nat (k * 32) + 32 \<le> 4096" using assms(2) by auto
  show ?thesis
  proof (cases "j = k")
    case True
    with slice_blit_same[of "nat (k * 32)" h bs] b assms show ?thesis
      by (simp add: sector_slot_def slot_write_def)
  next
    case False
    have "nat (j * 32) + 32 \<le> nat (k * 32) \<or> nat (k * 32) + length h \<le> nat (j * 32)"
      using False assms by (cases "j < k") auto
    with slice_blit_other[of "nat (k * 32)" h bs] b assms False show ?thesis
      by (simp add: sector_slot_def slot_write_def)
  qed
qed

lemma slot_bounds:
  assumes "sector_wf (hashes s)" and "slot_index k"
  shows "\<not> (k * HashSize < 0 \<or> int (length (hashes s)) < k * HashSize + HashSize)"
  using assms by (auto simp: HashSize_def)

lemma Sector_Set_ok:
  assumes "sector_wf (hashes s)" and "slot_index k" and "length (hash_bytes h) = 32"
  shows "Sector_Set s k h = Inr (s\<lparr>hashes := slot_write (hashes s) k (hash_bytes h), dirty := True\<rparr>)"
proof -
  have "nat (k * 32) + 32 \<le> 4096" using assms(2) by auto
  with assms show ?thesis
    using slot_bounds[OF assms(1,2)]
    by (simp add: Sector_Set_def Let_def slot_write_def hash_bytes_def[symmetric] HashSize_def)
qed

lemma Sector_Get_ok:
  assumes "sector_wf (hashes s)" and "slot_index k"
  shows "Sector_Get s k = Inr (opt_hash (sector_slot (hashes s) k))"
proof -
  have "length (sector_slot (hashes s) k) = 32" by (rule length_sector_slot[OF assms])
  then show ?thesis
    using slot_bounds[OF assms]
    by (simp add: Sector_Get_def Let_def opt_hash_def Hash_Equals_def sector_slot_def HashSize_def
        NewHash_def)
qed

lemma NewSector_wf [simp]: "sector_wf (hashes NewSector)"
  by (simp add: sector_wf_def NewSector_def)

lemma sector_slot_zero [simp]: "slot_index k \<Longrightarrow> sector_slot (replicate 4096 0) k = NilHash"
  by (auto simp: sector_slot_def NilHash_def NewHash_def min_def)

lemma Sector_Bytes_wf:
  assumes "sector_wf (hashes s)"
  shows "Sector_Bytes s = (if hashes s = replicate 4096 0 then None else Some (hashes s))"
  using assms by (simp add: Sector_Bytes_def Sector_IsNil_def all_zero_iff)

end
