(* ===== verification/Lba_Bucket.thy ===== *)
theory Lba_Bucket
  imports Lba_Sector
begin

text \<open>
  The sector bucket of \<open>nbd/ardb/storage/lba/bucket.go\<close>: a least-recently-used cache of sectors in
  front of a \<open>SectorStorage\<close> (\<open>storage.go\<close>). The Go code keeps a doubly linked list of entries and
  a map from sector index to list element; here an element is an address paired with its entry, so
  that the map and the list stay two structures that can disagree. Every method runs under the
  bucket's mutex, so one call is one step.
\<close>

section \<open>The storage a bucket writes to\<close>

record 'w SectorStorage =
  GetSector :: "int \<Rightarrow> 'w \<Rightarrow> Sector result \<times> 'w"
  SetSector :: "int \<Rightarrow> Sector \<Rightarrow> 'w \<Rightarrow> error option \<times> 'w"

section \<open>State and operations\<close>

record cacheEntry =
  sectorIndex :: int
  sector :: Sector

type_synonym elem = "nat \<times> cacheEntry"

record sectorBucket =
  sectors :: "int \<rightharpoonup> nat"
  evictList :: "elem list"
  bucket_size :: int
  next_elem :: nat \<comment> \<open>the address the next list element gets\<close>

definition newSectorBucket :: "int \<Rightarrow> sectorBucket" where
  "newSectorBucket sizeLimitInBytes =
     \<lparr>sectors = Map.empty, evictList = [], bucket_size = sizeLimitInBytes sdiv BytesPerSector, next_elem = 0\<rparr>"

definition PushFront :: "cacheEntry \<Rightarrow> sectorBucket \<Rightarrow> nat \<times> sectorBucket" where
  "PushFront e b =
     (next_elem b, b\<lparr>evictList := (next_elem b, e) # evictList b, next_elem := Suc (next_elem b)\<rparr>)"

definition MoveToFront :: "nat \<Rightarrow> sectorBucket \<Rightarrow> sectorBucket" where
  "MoveToFront p b =
     (case map_of (evictList b) p of
        None \<Rightarrow> b
      | Some e \<Rightarrow> b\<lparr>evictList := (p, e) # filter (\<lambda>x. fst x \<noteq> p) (evictList b)\<rparr>)"

definition flushOldest :: "'w SectorStorage \<Rightarrow> sectorBucket \<Rightarrow> 'w \<Rightarrow> error option \<times> sectorBucket \<times> 'w" where
  "flushOldest st b w =
     (if evictList b = [] then (Some (ErrOther ''bucket is empty''), b, w)
      else let (p, entry) = last (evictList b);
               b' = b\<lparr>evictList := butlast (evictList b), sectors := (sectors b)(sectorIndex entry := None)\<rparr>;
               (err, w') = SetSector st (sectorIndex entry) (sector entry) w
           in (err, b', w'))"

text \<open>
  \<open>getSector\<close> returns a pointer to the sector; the pointer is shared with the cache entry only, so
  it is the address of that entry here, together with the sector it points to. The error of
  \<open>flushOldest\<close> is logged and dropped, as in the source.
\<close>

definition getSector :: "'w SectorStorage \<Rightarrow> sectorBucket \<Rightarrow> int \<Rightarrow> 'w \<Rightarrow> (nat \<times> Sector) result \<times> sectorBucket \<times> 'w" where
  "getSector st b index w =
     (case sectors b index of
        Some p \<Rightarrow>
          (case map_of (evictList b) p of
             Some e \<Rightarrow> (Inr (p, sector e), MoveToFront p b, w)
           | None \<Rightarrow> (Inl (Panic ''list element without entry''), b, w))
      | None \<Rightarrow>
          (case GetSector st index w of
             (Inl err, w1) \<Rightarrow> (Inl err, b, w1)
           | (Inr s, w1) \<Rightarrow>
               let (p, b1) = PushFront \<lparr>sectorIndex = index, sector = s\<rparr> b;
                   b2 = b1\<lparr>sectors := (sectors b1)(index \<mapsto> p)\<rparr>
               in if int (length (evictList b2)) > bucket_size b2
                  then let (err, b3, w2) = flushOldest st b2 w1 in (Inr (p, s), b3, w2)
                  else (Inr (p, s), b2, w1)))"

text \<open>Writing through the sector pointer: seen by the cache if the entry is still in its list.\<close>

definition write_sector :: "nat \<Rightarrow> Sector \<Rightarrow> sectorBucket \<Rightarrow> sectorBucket" where
  "write_sector p s b =
     b\<lparr>evictList := map (\<lambda>(q, e). if q = p then (q, e\<lparr>sector := s\<rparr>) else (q, e)) (evictList b)\<rparr>"

definition SetHash :: "'w SectorStorage \<Rightarrow> sectorBucket \<Rightarrow> int \<Rightarrow> bytes option \<Rightarrow> 'w \<Rightarrow> error option \<times> sectorBucket \<times> 'w" where
  "SetHash st b index hash w =
     (case getSector st b (index sdiv NumberOfRecordsPerLBASector) w of
        (Inl err, b1, w1) \<Rightarrow> (Some err, b1, w1)
      | (Inr (p, s), b1, w1) \<Rightarrow>
          (case Sector_Set s (index smod NumberOfRecordsPerLBASector) hash of
             Inl err \<Rightarrow> (Some err, b1, w1)
           | Inr s' \<Rightarrow> (None, write_sector p s' b1, w1)))"

definition GetHash :: "'w SectorStorage \<Rightarrow> sectorBucket \<Rightarrow> int \<Rightarrow> 'w \<Rightarrow> bytes option result \<times> sectorBucket \<times> 'w" where
  "GetHash st b index w =
     (case getSector st b (index sdiv NumberOfRecordsPerLBASector) w of
        (Inl err, b1, w1) \<Rightarrow> (Inl err, b1, w1)
      | (Inr (p, s), b1, w1) \<Rightarrow> (Sector_Get s (index smod NumberOfRecordsPerLBASector), b1, w1))"

fun flush_entries :: "'w SectorStorage \<Rightarrow> elem list \<Rightarrow> error list \<Rightarrow> 'w \<Rightarrow> error list \<times> 'w" where
  "flush_entries st [] errs w = (errs, w)"
| "flush_entries st ((p, entry) # es) errs w =
     (if \<not> dirty (sector entry) then flush_entries st es errs w
      else let (err, w') = SetSector st (sectorIndex entry) (sector entry) w
           in flush_entries st es (ErrorSlice_Add errs err) w')"

definition bucket_Flush :: "'w SectorStorage \<Rightarrow> sectorBucket \<Rightarrow> 'w \<Rightarrow> error option \<times> sectorBucket \<times> 'w" where
  "bucket_Flush st b w =
     (let (errs, w') = flush_entries st (evictList b) [] w
      in (ErrorSlice_AsError errs, b\<lparr>sectors := Map.empty, evictList := []\<rparr>, w'))"

section \<open>Invariant\<close>

text \<open>
  The index map and the list describe the same entries, addresses are fresh, every cached sector is
  well-formed and there is room for at least one entry and never more than \<open>bucket_size\<close>.
\<close>

abbreviation index_of :: "elem \<Rightarrow> int" where "index_of x \<equiv> sectorIndex (snd x)"

definition bucket_wf :: "sectorBucket \<Rightarrow> bool" where
  "bucket_wf b \<longleftrightarrow>
     distinct (map fst (evictList b)) \<and> distinct (map index_of (evictList b)) \<and>
     sectors b = map_of (map (\<lambda>x. (index_of x, fst x)) (evictList b)) \<and>
     (\<forall>x \<in> set (evictList b). fst x < next_elem b \<and> 0 \<le> index_of x \<and> sector_wf (hashes (sector (snd x))))"

definition bucket_inv :: "sectorBucket \<Rightarrow> bool" where
  "bucket_inv b \<longleftrightarrow> bucket_wf b \<and> int (length (evictList b)) \<le> bucket_size b \<and> 1 \<le> bucket_size b"

text \<open>The bytes a bucket holds for a sector index, and what it shows over a store \<open>f\<close>.\<close>

definition cached :: "sectorBucket \<Rightarrow> int \<rightharpoonup> bytes" where
  "cached b = map_of (map (\<lambda>x. (index_of x, hashes (sector (snd x)))) (evictList b))"

definition bucket_view :: "sectorBucket \<Rightarrow> (int \<Rightarrow> bytes) \<Rightarrow> int \<Rightarrow> bytes" where
  "bucket_view b f i = (case cached b i of None \<Rightarrow> f i | Some bs \<Rightarrow> bs)"

definition bucket_clean :: "sectorBucket \<Rightarrow> (int \<Rightarrow> bytes) \<Rightarrow> bool" where
  "bucket_clean b f \<longleftrightarrow>
     (\<forall>x \<in> set (evictList b). \<not> dirty (sector (snd x)) \<longrightarrow> hashes (sector (snd x)) = f (index_of x))"

lemma newSectorBucket_inv:
  assumes "BytesPerSector \<le> limit"
  shows "bucket_inv (newSectorBucket limit)" and "cached (newSectorBucket limit) = Map.empty"
proof -
  have "1 \<le> limit sdiv BytesPerSector"
    using assms by (simp add: sector_consts)
  then show "bucket_inv (newSectorBucket limit)"
    by (simp add: bucket_inv_def bucket_wf_def newSectorBucket_def)
  show "cached (newSectorBucket limit) = Map.empty" by (simp add: cached_def newSectorBucket_def)
qed

lemma cached_None_iff: "cached b i = None \<longleftrightarrow> i \<notin> index_of ` set (evictList b)"
  by (force simp: cached_def map_of_eq_None_iff image_image)

lemma sectors_dom: "bucket_wf b \<Longrightarrow> sectors b i = None \<longleftrightarrow> cached b i = None"
  by (force simp: bucket_wf_def cached_def map_of_eq_None_iff image_image)

lemma cached_Some_iff:
  assumes "bucket_wf b"
  shows "cached b i = Some bs \<longleftrightarrow>
    (\<exists>x \<in> set (evictList b). index_of x = i \<and> hashes (sector (snd x)) = bs)"
  using assms by (simp add: cached_def map_of_map_Some_iff bucket_wf_def)

lemma sectors_Some_iff:
  assumes "bucket_wf b"
  shows "sectors b i = Some p \<longleftrightarrow> (\<exists>e. (p, e) \<in> set (evictList b) \<and> sectorIndex e = i)"
  using assms by (force simp: map_of_map_Some_iff bucket_wf_def)

text \<open>Two buckets that hold the same entries in another order show the same sectors.\<close>

lemma cached_cong_set:
  assumes "bucket_wf b" and "bucket_wf b'" and "set (evictList b') = set (evictList b)"
  shows "cached b' = cached b"
  by (rule ext, rule option_eqI) (simp add: cached_Some_iff assms)

subsection \<open>Moving an entry to the front\<close>

lemma MoveToFront_spec:
  assumes inv: "bucket_wf b" and p: "map_of (evictList b) p = Some e"
  shows "bucket_wf (MoveToFront p b)"
    and "evictList (MoveToFront p b) = (p, e) # filter (\<lambda>x. fst x \<noteq> p) (evictList b)"
    and "set (evictList (MoveToFront p b)) = set (evictList b)"
proof -
  have df: "distinct (map fst (evictList b))" using inv by (simp add: bucket_wf_def)
  from map_of_split[OF p df] obtain ys zs where xs: "evictList b = ys @ (p, e) # zs"
    and nin: "p \<notin> fst ` set ys" "p \<notin> fst ` set zs" by blast
  from nin have ids: "filter (\<lambda>x. fst x \<noteq> p) ys = ys" "filter (\<lambda>x. fst x \<noteq> p) zs = zs"
    by (auto simp: filter_id_conv)
  show ev: "evictList (MoveToFront p b) = (p, e) # filter (\<lambda>x. fst x \<noteq> p) (evictList b)"
    using p by (simp add: MoveToFront_def)
  then have ev': "evictList (MoveToFront p b) = (p, e) # ys @ zs" by (simp add: xs ids)
  have rest: "sectors (MoveToFront p b) = sectors b" "next_elem (MoveToFront p b) = next_elem b"
    "bucket_size (MoveToFront p b) = bucket_size b"
    using p by (simp_all add: MoveToFront_def)
  show "set (evictList (MoveToFront p b)) = set (evictList b)" by (auto simp: ev' xs)
  have "map_of (map (\<lambda>x. (index_of x, fst x)) (ys @ (p, e) # zs)) =
        map_of (map (\<lambda>x. (index_of x, fst x)) ((p, e) # ys @ zs))"
  proof -
    have "sectorIndex e \<notin> index_of ` set ys" using inv by (auto simp: bucket_wf_def xs)
    then have "map_of (map (\<lambda>x. (index_of x, fst x)) ys) (sectorIndex e) = None"
      by (force simp: map_of_eq_None_iff)
    then show ?thesis by (auto simp: fun_eq_iff map_add_def split: option.splits)
  qed
  with inv show "bucket_wf (MoveToFront p b)"
    by (auto simp: bucket_wf_def ev' rest xs)
qed

subsection \<open>Writing through a sector pointer\<close>

lemma write_sector_fields [simp]:
  "sectors (write_sector p s b) = sectors b" "next_elem (write_sector p s b) = next_elem b"
  "bucket_size (write_sector p s b) = bucket_size b"
  "map fst (evictList (write_sector p s b)) = map fst (evictList b)"
  "map index_of (evictList (write_sector p s b)) = map index_of (evictList b)"
  "length (evictList (write_sector p s b)) = length (evictList b)"
  by (auto simp: write_sector_def)

lemma write_sector_set:
  "x \<in> set (evictList (write_sector p s b)) \<longleftrightarrow>
     (\<exists>e. (fst x, e) \<in> set (evictList b) \<and> snd x = (if fst x = p then e\<lparr>sector := s\<rparr> else e))"
  by (cases x) (auto simp: write_sector_def image_iff split: prod.splits if_splits; metis)

lemma write_sector_wf:
  assumes "bucket_wf b" and "sector_wf (hashes s)"
  shows "bucket_wf (write_sector p s b)"
proof -
  have "map (\<lambda>x. (index_of x, fst x)) (evictList (write_sector p s b)) =
        map (\<lambda>x. (index_of x, fst x)) (evictList b)"
    by (auto simp: write_sector_def)
  moreover have "fst x < next_elem b \<and> 0 \<le> index_of x \<and> sector_wf (hashes (sector (snd x)))"
    if "x \<in> set (evictList (write_sector p s b))" for x
    using that assms by (auto simp: write_sector_set bucket_wf_def split: if_splits)
  ultimately show ?thesis using assms(1) by (simp add: bucket_wf_def)
qed

lemma write_sector_split:
  assumes "bucket_wf b" and "map_of (evictList b) p = Some e"
  obtains ys zs where "evictList b = ys @ (p, e) # zs"
    and "evictList (write_sector p s b) = ys @ (p, e\<lparr>sector := s\<rparr>) # zs"
    and "sectorIndex e \<notin> index_of ` set ys"
proof -
  have df: "distinct (map fst (evictList b))" using assms(1) by (simp add: bucket_wf_def)
  from map_of_split[OF assms(2) df] obtain ys zs where xs: "evictList b = ys @ (p, e) # zs"
    and nin: "p \<notin> fst ` set ys" "p \<notin> fst ` set zs" by blast
  let ?f = "\<lambda>(q, e). if q = p then (q, e\<lparr>sector := s\<rparr>) else (q, e)"
  have "map ?f ys = ys" "map ?f zs = zs" using nin by (force intro!: map_idI)+
  then have "evictList (write_sector p s b) = ys @ (p, e\<lparr>sector := s\<rparr>) # zs"
    by (simp add: write_sector_def xs)
  moreover have "sectorIndex e \<notin> index_of ` set ys" using assms(1) by (auto simp: bucket_wf_def xs)
  ultimately show thesis using xs that by blast
qed

lemma write_sector_cached:
  assumes "bucket_wf b" and "map_of (evictList b) p = Some e"
  shows "cached (write_sector p s b) = (cached b)(sectorIndex e \<mapsto> hashes s)"
proof -
  from write_sector_split[OF assms, of s] obtain ys zs where xs: "evictList b = ys @ (p, e) # zs"
    and xs': "evictList (write_sector p s b) = ys @ (p, e\<lparr>sector := s\<rparr>) # zs"
    and nin: "sectorIndex e \<notin> index_of ` set ys" by blast
  have "map_of (map (\<lambda>x. (index_of x, hashes (sector (snd x)))) ys) (sectorIndex e) = None"
    using nin by (force simp: map_of_eq_None_iff)
  then show ?thesis
    by (auto simp: cached_def xs xs' fun_eq_iff map_add_def split: option.splits)
qed

lemma write_sector_clean:
  assumes "bucket_wf b" and "map_of (evictList b) p = Some e" and "bucket_clean b f" and "dirty s"
  shows "bucket_clean (write_sector p s b) f"
proof -
  from write_sector_split[OF assms(1,2), of s] obtain ys zs where "evictList b = ys @ (p, e) # zs"
    and "evictList (write_sector p s b) = ys @ (p, e\<lparr>sector := s\<rparr>) # zs" by blast
  with assms(3,4) show ?thesis by (auto simp: bucket_clean_def)
qed

lemma write_sector_inv:
  "bucket_inv b \<Longrightarrow> sector_wf (hashes s) \<Longrightarrow> bucket_inv (write_sector p s b)"
  by (simp add: bucket_inv_def write_sector_wf)

lemma write_sector_map_of:
  assumes "bucket_wf b" and "map_of (evictList b) p = Some e"
  shows "map_of (evictList (write_sector p s b)) p = Some (e\<lparr>sector := s\<rparr>)"
proof -
  from write_sector_split[OF assms, of s] obtain ys zs where xs: "evictList b = ys @ (p, e) # zs"
    and xs': "evictList (write_sector p s b) = ys @ (p, e\<lparr>sector := s\<rparr>) # zs" by blast
  have "p \<notin> fst ` set ys" using assms(1) by (auto simp: bucket_wf_def xs)
  then have "map_of ys p = None" by (simp add: map_of_eq_None_iff)
  then show ?thesis by (simp add: xs' map_add_def)
qed

subsection \<open>Adding an entry and dropping the oldest\<close>

lemma push_spec:
  assumes "bucket_wf b" and "cached b i = None" and "sector_wf (hashes s)" and "0 \<le> i"
    and "PushFront \<lparr>sectorIndex = i, sector = s\<rparr> b = (p, b1)"
    and "b2 = b1\<lparr>sectors := (sectors b1)(i \<mapsto> p)\<rparr>"
  shows "bucket_wf b2" and "cached b2 = (cached b)(i \<mapsto> hashes s)"
    and "evictList b2 = (p, \<lparr>sectorIndex = i, sector = s\<rparr>) # evictList b"
    and "bucket_size b2 = bucket_size b"
proof -
  have p: "p = next_elem b" and ev: "evictList b2 = (p, \<lparr>sectorIndex = i, sector = s\<rparr>) # evictList b"
    and rest: "sectors b2 = (sectors b)(i \<mapsto> p)" "next_elem b2 = Suc (next_elem b)" "bucket_size b2 = bucket_size b"
    using assms(5,6) by (auto simp: PushFront_def)
  have "p \<notin> fst ` set (evictList b)" using assms(1) by (auto simp: bucket_wf_def p)
  moreover have "i \<notin> index_of ` set (evictList b)" using assms(2) by (simp add: cached_None_iff)
  ultimately show "bucket_wf b2"
    using assms(1,3,4) by (auto simp: bucket_wf_def ev rest p less_Suc_eq)
  show "cached b2 = (cached b)(i \<mapsto> hashes s)" by (simp add: cached_def ev)
  show "evictList b2 = (p, \<lparr>sectorIndex = i, sector = s\<rparr>) # evictList b" by (rule ev)
  show "bucket_size b2 = bucket_size b" by (rule rest)
qed

lemma map_of_index_None:
  "i \<notin> index_of ` set xs \<Longrightarrow> map_of (map (\<lambda>x. (index_of x, g x)) xs) i = None"
  by (force simp: map_of_eq_None_iff)

lemma map_of_drop_last:
  assumes "index_of x \<notin> index_of ` set xs"
  shows "(map_of (map (\<lambda>x. (index_of x, g x)) (xs @ [x])))(index_of x := None) =
    map_of (map (\<lambda>x. (index_of x, g x)) xs)"
  using map_of_index_None[OF assms, of g] by (auto simp: fun_eq_iff map_add_def split: option.splits)

lemma drop_oldest_spec:
  assumes wf: "bucket_wf b" and ev: "evictList b = xs @ [(q, e)]"
    and b': "b' = b\<lparr>evictList := xs, sectors := (sectors b)(sectorIndex e := None)\<rparr>"
  shows "bucket_wf b'" and "cached b' = (cached b)(sectorIndex e := None)"
    and "cached b (sectorIndex e) = Some (hashes (sector e))"
proof -
  have nin: "sectorIndex e \<notin> index_of ` set xs" using wf by (auto simp: bucket_wf_def ev)
  then have nin': "index_of (q, e) \<notin> index_of ` set xs" by simp
  show "bucket_wf b'" using wf map_of_drop_last[OF nin', of fst] by (auto simp: bucket_wf_def ev b')
  show "cached b' = (cached b)(sectorIndex e := None)"
    using map_of_drop_last[OF nin', of "\<lambda>x. hashes (sector (snd x))"] by (simp add: cached_def ev b')
  show "cached b (sectorIndex e) = Some (hashes (sector e))"
    using map_of_index_None[OF nin, of "\<lambda>x. hashes (sector (snd x))"] by (simp add: cached_def ev map_add_def)
qed

section \<open>The contract of a sector storage\<close>

text \<open>
  \<open>psec w i\<close> is what the storage persists for sector \<open>i\<close> in state \<open>w\<close>; \<open>ok w\<close> says that the
  storage answers. A write that reports success is persisted even when the storage is not healthy
  otherwise, and a failing one touches no other sector.
\<close>

locale sector_storage =
  fixes st :: "'w SectorStorage" and psec :: "'w \<Rightarrow> int \<Rightarrow> bytes" and ok :: "'w \<Rightarrow> bool"
  assumes psec_wf: "sector_wf (psec w i)"
    and get_ok: "ok w \<Longrightarrow> 0 \<le> i \<Longrightarrow> \<exists>w'. GetSector st i w = (Inr \<lparr>hashes = psec w i, dirty = False\<rparr>, w') \<and>
                          psec w' = psec w \<and> ok w'"
    and set_ok: "ok w \<Longrightarrow> 0 \<le> i \<Longrightarrow> sector_wf (hashes s) \<Longrightarrow> \<exists>w'. SetSector st i s w = (None, w') \<and> ok w'"
    and set_nil: "SetSector st i s w = (None, w') \<Longrightarrow> sector_wf (hashes s) \<Longrightarrow>
                  psec w' = (psec w)(i := hashes s)"
    and set_frame: "SetSector st i s w = (r, w') \<Longrightarrow> j \<noteq> i \<Longrightarrow> psec w' j = psec w j"
begin

lemma getSector_miss:
  assumes inv: "bucket_inv b" and clean: "bucket_clean b (psec w)" and "ok w" and i: "0 \<le> i" and none: "sectors b i = None"
  obtains p s b' w' where "getSector st b i w = (Inr (p, s), b', w')"
    and "map_of (evictList b') p = Some \<lparr>sectorIndex = i, sector = s\<rparr>"
    and "hashes s = bucket_view b (psec w) i" and "bucket_inv b'" and "bucket_clean b' (psec w')"
    and "ok w'" and "bucket_view b' (psec w') = bucket_view b (psec w)"
    and "\<And>j. cached b j = None \<Longrightarrow> psec w' j = psec w j"
    and "dom (cached b') \<subseteq> insert i (dom (cached b))"
proof -
  have wf: "bucket_wf b" and cap: "int (length (evictList b)) \<le> bucket_size b" "1 \<le> bucket_size b"
    using inv by (simp_all add: bucket_inv_def)
  have ci: "cached b i = None" using none sectors_dom[OF wf] by simp
  define s where "s = \<lparr>hashes = psec w i, dirty = False\<rparr>"
  from get_ok[OF \<open>ok w\<close> i] obtain w1 where g: "GetSector st i w = (Inr s, w1)"
    and w1: "psec w1 = psec w" "ok w1" by (auto simp: s_def)
  obtain p b1 where push: "PushFront \<lparr>sectorIndex = i, sector = s\<rparr> b = (p, b1)" by fastforce
  define b2 where "b2 = b1\<lparr>sectors := (sectors b1)(i \<mapsto> p)\<rparr>"
  have b12: "evictList b1 = evictList b2" "bucket_size b1 = bucket_size b2" by (simp_all add: b2_def)
  have "sector_wf (hashes s)" by (simp add: s_def psec_wf)
  note ps = push_spec[OF wf ci this i push b2_def]
  have view2: "bucket_view b2 (psec w1) = bucket_view b (psec w)"
    by (auto simp: fun_eq_iff bucket_view_def ps(2) w1 s_def ci)
  have clean2: "bucket_clean b2 (psec w1)"
    using clean by (auto simp: bucket_clean_def ps(3) w1 s_def)
  have hs: "hashes s = bucket_view b (psec w) i" by (simp add: bucket_view_def ci s_def)
  show thesis
  proof (cases "int (length (evictList b2)) > bucket_size b2")
    case False
    then have "getSector st b i w = (Inr (p, s), b2, w1)"
      by (simp add: getSector_def none g push b2_def[symmetric] b12)
    moreover have "bucket_inv b2" using False ps cap by (simp add: bucket_inv_def)
    ultimately show thesis using that[of p s b2 w1] hs clean2 w1 view2 ps by auto
  next
    case True
    then have ne: "evictList b \<noteq> []" using cap by (auto simp: ps)
    then obtain xs q e where ev: "evictList b = xs @ [(q, e)]"
      by (metis append_butlast_last_id prod.exhaust)
    then have ev2: "evictList b2 = ((p, \<lparr>sectorIndex = i, sector = s\<rparr>) # xs) @ [(q, e)]" by (simp add: ps)
    define b3 where "b3 = b2\<lparr>evictList := (p, \<lparr>sectorIndex = i, sector = s\<rparr>) # xs,
                             sectors := (sectors b2)(sectorIndex e := None)\<rparr>"
    note dr = drop_oldest_spec[OF ps(1) ev2 b3_def]
    have ewf: "sector_wf (hashes (sector e))" and e0: "0 \<le> sectorIndex e" using wf by (auto simp: bucket_wf_def ev)
    from set_ok[OF w1(2) e0 ewf] obtain w2 where st: "SetSector st (sectorIndex e) (sector e) w1 = (None, w2)"
      and w2: "ok w2" by blast
    have pw2: "psec w2 = (psec w1)(sectorIndex e := hashes (sector e))" by (rule set_nil[OF st ewf])
    have gs: "getSector st b i w = (Inr (p, s), b3, w2)"
      using True by (simp add: getSector_def none g push b2_def[symmetric] b12 flushOldest_def ev2 st b3_def)
    have sz: "bucket_size b3 = bucket_size b" by (simp add: b3_def ps)
    have ne_i: "sectorIndex e \<noteq> i" using ci by (auto simp: cached_None_iff ev)
    show thesis
    proof (rule that[OF gs])
      show "map_of (evictList b3) p = Some \<lparr>sectorIndex = i, sector = s\<rparr>" by (simp add: b3_def)
      show "hashes s = bucket_view b (psec w) i" by (rule hs)
      show "bucket_inv b3" using dr(1) cap by (simp add: bucket_inv_def sz) (simp add: b3_def ev)
      show "bucket_clean b3 (psec w2)"
      proof -
        have "sectorIndex e \<notin> index_of ` set (evictList b3)"
          using dr(2) cached_None_iff[of b3 "sectorIndex e"] by simp
        moreover have "set (evictList b3) \<subseteq> set (evictList b2)" by (auto simp: b3_def ev2)
        ultimately show ?thesis using clean2 by (auto simp: bucket_clean_def pw2 image_iff)
      qed
      show "ok w2" by (rule w2)
      show "bucket_view b3 (psec w2) = bucket_view b (psec w)"
        using dr(2,3) by (auto simp: fun_eq_iff bucket_view_def pw2 simp flip: view2 split: option.splits)
      show "cached b j = None \<Longrightarrow> psec w2 j = psec w j" for j
        using ne_i by (auto simp: pw2 w1 cached_None_iff ev)
      show "dom (cached b3) \<subseteq> insert i (dom (cached b))" by (auto simp: dr(2) ps(2) split: if_splits)
    qed
  qed
qed

text \<open>
  \<open>getSector\<close> on a healthy storage returns the sector the bucket shows, keeps the invariant and
  what the bucket shows, and persists at most sectors it had cached.
\<close>

lemma getSector_ok:
  assumes inv: "bucket_inv b" and clean: "bucket_clean b (psec w)" and "ok w" and "0 \<le> i"
  obtains p s b' w' where "getSector st b i w = (Inr (p, s), b', w')"
    and "map_of (evictList b') p = Some \<lparr>sectorIndex = i, sector = s\<rparr>"
    and "hashes s = bucket_view b (psec w) i" and "bucket_inv b'" and "bucket_clean b' (psec w')"
    and "ok w'" and "bucket_view b' (psec w') = bucket_view b (psec w)"
    and "\<And>j. cached b j = None \<Longrightarrow> psec w' j = psec w j"
    and "dom (cached b') \<subseteq> insert i (dom (cached b))"
proof (cases "sectors b i")
  case (Some p)
  have wf: "bucket_wf b" using inv by (simp add: bucket_inv_def)
  from Some wf obtain e where e: "(p, e) \<in> set (evictList b)" "sectorIndex e = i"
    by (auto simp: sectors_Some_iff)
  have pe: "map_of (evictList b) p = Some e"
    using e(1) wf by (auto simp: bucket_wf_def intro: map_of_is_SomeI)
  note mtf = MoveToFront_spec[OF wf pe]
  have c: "cached (MoveToFront p b) = cached b" by (rule cached_cong_set[OF wf mtf(1,3)])
  have len: "length (evictList (MoveToFront p b)) \<le> length (evictList b)"
  proof -
    have "length (filter (\<lambda>x. fst x \<noteq> p) (evictList b)) < length (evictList b)"
      using e(1) by (intro length_filter_less) auto
    then show ?thesis by (simp add: mtf(2))
  qed
  have sz: "bucket_size (MoveToFront p b) = bucket_size b"
    by (simp add: MoveToFront_def split: option.splits)
  show thesis
  proof (rule that)
    show "getSector st b i w = (Inr (p, sector e), MoveToFront p b, w)"
      by (simp add: getSector_def Some pe)
    show "map_of (evictList (MoveToFront p b)) p = Some \<lparr>sectorIndex = i, sector = sector e\<rparr>"
      by (simp add: mtf(2) flip: e(2))
    have "cached b i = Some (hashes (sector e))"
      unfolding cached_Some_iff[OF wf] using e by force
    then show "hashes (sector e) = bucket_view b (psec w) i" by (simp add: bucket_view_def)
    show "bucket_inv (MoveToFront p b)" using inv mtf(1) len by (simp add: bucket_inv_def sz)
    show "bucket_clean (MoveToFront p b) (psec w)" using clean by (simp add: bucket_clean_def mtf(3))
    show "bucket_view (MoveToFront p b) (psec w) = bucket_view b (psec w)"
      by (simp add: bucket_view_def c fun_eq_iff)
    show "dom (cached (MoveToFront p b)) \<subseteq> insert i (dom (cached b))" by (auto simp: c)
  qed (use \<open>ok w\<close> in simp_all)
next
  case None
  from getSector_miss[OF assms None] show thesis using that by blast
qed

text \<open>Setting and reading a hash, for a non-negative block index.\<close>

lemma SetHash_ok:
  assumes "bucket_inv b" and "bucket_clean b (psec w)" and "ok w" and "0 \<le> idx"
    and "length (hash_bytes h) = 32"
  obtains b' w' where "SetHash st b idx h w = (None, b', w')" and "bucket_inv b'"
    and "bucket_clean b' (psec w')" and "ok w'"
    and "bucket_view b' (psec w') = (bucket_view b (psec w))
           (idx div 128 := slot_write (bucket_view b (psec w) (idx div 128)) (idx mod 128) (hash_bytes h))"
    and "\<And>j. cached b j = None \<Longrightarrow> psec w' j = psec w j"
    and "dom (cached b') \<subseteq> insert (idx div 128) (dom (cached b))"
proof -
  let ?i = "idx div 128" and ?k = "idx mod 128"
  have i0: "0 \<le> idx div 128" using assms(4) by simp
  from getSector_ok[OF assms(1-3) i0] obtain p s b1 w1 where
    gs: "getSector st b ?i w = (Inr (p, s), b1, w1)"
    and pe: "map_of (evictList b1) p = Some \<lparr>sectorIndex = ?i, sector = s\<rparr>"
    and hs: "hashes s = bucket_view b (psec w) ?i" and inv: "bucket_inv b1"
    and cl: "bucket_clean b1 (psec w1)" and "ok w1"
    and vw: "bucket_view b1 (psec w1) = bucket_view b (psec w)"
    and fr: "\<And>j. cached b j = None \<Longrightarrow> psec w1 j = psec w j"
    and dm: "dom (cached b1) \<subseteq> insert ?i (dom (cached b))" by metis
  have wf: "bucket_wf b1" using inv by (simp add: bucket_inv_def)
  have swf: "sector_wf (hashes s)"
    using wf map_of_SomeD[OF pe] by (fastforce simp: bucket_wf_def)
  define s' where "s' = s\<lparr>hashes := slot_write (hashes s) ?k (hash_bytes h), dirty := True\<rparr>"
  have set: "Sector_Set s ?k h = Inr s'"
    unfolding s'_def using swf assms(5) by (intro Sector_Set_ok) auto
  have s'wf: "sector_wf (hashes s')" using swf assms(5) by (simp add: s'_def)
  show thesis
  proof (rule that)
    show "SetHash st b idx h w = (None, write_sector p s' b1, w1)"
      using assms(4) by (simp add: SetHash_def NumberOfRecordsPerLBASector_def gs set)
    show "bucket_inv (write_sector p s' b1)" by (rule write_sector_inv[OF inv s'wf])
    show "bucket_clean (write_sector p s' b1) (psec w1)"
      by (rule write_sector_clean[OF wf pe cl]) (simp add: s'_def)
    have c: "cached (write_sector p s' b1) = (cached b1)(?i \<mapsto> hashes s')"
      using write_sector_cached[OF wf pe, of s'] by simp
    have "hashes s' = slot_write (bucket_view b (psec w) ?i) ?k (hash_bytes h)" by (simp add: s'_def hs)
    then show "bucket_view (write_sector p s' b1) (psec w1) = (bucket_view b (psec w))
        (?i := slot_write (bucket_view b (psec w) ?i) ?k (hash_bytes h))"
      by (simp add: fun_eq_iff bucket_view_def c flip: vw)
    show "dom (cached (write_sector p s' b1)) \<subseteq> insert ?i (dom (cached b))" using dm by (auto simp: c)
  qed (use \<open>ok w1\<close> fr in simp_all)
qed

lemma GetHash_ok:
  assumes "bucket_inv b" and "bucket_clean b (psec w)" and "ok w" and "0 \<le> idx"
  obtains b' w' where
    "GetHash st b idx w = (Inr (opt_hash (sector_slot (bucket_view b (psec w) (idx div 128)) (idx mod 128))), b', w')"
    and "bucket_inv b'" and "bucket_clean b' (psec w')" and "ok w'"
    and "bucket_view b' (psec w') = bucket_view b (psec w)"
    and "\<And>j. cached b j = None \<Longrightarrow> psec w' j = psec w j"
    and "dom (cached b') \<subseteq> insert (idx div 128) (dom (cached b))"
proof -
  have i0: "0 \<le> idx div 128" using assms(4) by simp
  from getSector_ok[OF assms(1-3) i0] obtain p s b1 w1 where
    gs: "getSector st b (idx div 128) w = (Inr (p, s), b1, w1)"
    and pe: "map_of (evictList b1) p = Some \<lparr>sectorIndex = idx div 128, sector = s\<rparr>"
    and hs: "hashes s = bucket_view b (psec w) (idx div 128)" and inv: "bucket_inv b1"
    and rest: "bucket_clean b1 (psec w1)" "ok w1" "bucket_view b1 (psec w1) = bucket_view b (psec w)"
    "\<And>j. cached b j = None \<Longrightarrow> psec w1 j = psec w j"
    "dom (cached b1) \<subseteq> insert (idx div 128) (dom (cached b))" by metis
  have "sector_wf (hashes s)"
    using inv map_of_SomeD[OF pe] by (fastforce simp: bucket_inv_def bucket_wf_def)
  then have "Sector_Get s (idx mod 128) = Inr (opt_hash (sector_slot (hashes s) (idx mod 128)))"
    by (intro Sector_Get_ok) auto
  then have "GetHash st b idx w =
      (Inr (opt_hash (sector_slot (bucket_view b (psec w) (idx div 128)) (idx mod 128))), b1, w1)"
    using assms(4) by (simp add: GetHash_def NumberOfRecordsPerLBASector_def gs flip: hs)
  then show thesis using that inv rest by blast
qed

subsection \<open>Flushing\<close>

lemma flush_entries_errs:
  "flush_entries st es errs w = (errs', w') \<Longrightarrow> errs' = [] \<Longrightarrow> errs = []"
  by (induction st es errs w rule: flush_entries.induct)
    (auto simp: Let_def split: if_splits prod.splits)

text \<open>
  Whatever the health of the storage: if no error was collected, every dirty entry is persisted and
  nothing else changed.
\<close>

lemma flush_entries_nil:
  assumes "flush_entries st es errs w = ([], w')"
    and "\<forall>x \<in> set es. sector_wf (hashes (sector (snd x)))" and "distinct (map index_of es)"
  shows "psec w' j = (case map_of (map (\<lambda>x. (index_of x, sector (snd x))) es) j of
                        Some s \<Rightarrow> if dirty s then hashes s else psec w j | None \<Rightarrow> psec w j)"
  using assms
proof (induction es arbitrary: errs w)
  case Nil
  then show ?case by simp
next
  case (Cons x es)
  obtain p e where x: "x = (p, e)" by fastforce
  have tail: "map_of (map (\<lambda>x. (index_of x, sector (snd x))) es) (sectorIndex e) = None"
    using Cons.prems(3) by (intro map_of_index_None) (simp add: x)
  show ?case
  proof (cases "dirty (sector e)")
    case False
    with Cons.prems have "psec w' j = (case map_of (map (\<lambda>x. (index_of x, sector (snd x))) es) j of
        Some s \<Rightarrow> if dirty s then hashes s else psec w j | None \<Rightarrow> psec w j)"
      by (intro Cons.IH) (auto simp: x)
    with False tail show ?thesis by (auto simp: x)
  next
    case True
    obtain err w1 where st: "SetSector st (sectorIndex e) (sector e) w = (err, w1)" by fastforce
    with True Cons.prems(1) have rec: "flush_entries st es (ErrorSlice_Add errs err) w1 = ([], w')"
      by (simp add: x)
    from flush_entries_errs[OF rec] have "err = None" by simp
    then have w1: "psec w1 = (psec w)(sectorIndex e := hashes (sector e))"
      using st Cons.prems(2) by (intro set_nil) (auto simp: x)
    from rec Cons.prems have "psec w' j = (case map_of (map (\<lambda>x. (index_of x, sector (snd x))) es) j of
        Some s \<Rightarrow> if dirty s then hashes s else psec w1 j | None \<Rightarrow> psec w1 j)"
      by (intro Cons.IH) auto
    with True tail show ?thesis by (auto simp: x w1 split: option.splits)
  qed
qed

lemma bucket_Flush_nil:
  assumes "bucket_Flush st b w = (None, b', w')" and "bucket_inv b" and "bucket_clean b (psec w)"
  shows "psec w' = bucket_view b (psec w)"
proof
  fix j
  have wf: "bucket_wf b" using assms(2) by (simp add: bucket_inv_def)
  have fl: "flush_entries st (evictList b) [] w = ([], w')"
    using assms(1) by (auto simp: bucket_Flush_def Let_def split: prod.splits)
  let ?m = "map_of (map (\<lambda>x. (index_of x, sector (snd x))) (evictList b))"
  have "cached b j = map_option hashes (?m j)"
    by (simp add: cached_def map_of_map_option[where h = hashes and f = index_of])
  moreover have "psec w' j = (case ?m j of Some s \<Rightarrow> if dirty s then hashes s else psec w j | None \<Rightarrow> psec w j)"
    using wf by (intro flush_entries_nil[OF fl]) (auto simp: bucket_wf_def)
  moreover have "\<not> dirty s \<Longrightarrow> hashes s = psec w j" if "?m j = Some s" for s
    using map_of_SomeD[OF that] assms(3) by (auto simp: bucket_clean_def)
  ultimately show "psec w' j = bucket_view b (psec w) j"
    by (auto simp: bucket_view_def split: option.splits)
qed

lemma flush_entries_frame:
  assumes "flush_entries st es errs w = (errs', w')" and "j \<notin> index_of ` set es"
  shows "psec w' j = psec w j"
  using assms
proof (induction es arbitrary: errs w)
  case (Cons x es)
  then show ?case
    by (cases x; cases "SetSector st (index_of x) (sector (snd x)) w")
      (force split: if_splits dest: set_frame)
qed simp

end

end
