(* ===== verification/Lba.thy ===== *)
theory Lba
  imports Lba_Bucket Jump_Hash
begin

text \<open>
  The LBA of \<open>nbd/ardb/storage/lba/lba.go\<close>: an array of sector buckets, a sector always going to
  the bucket its jump consistent hash names. It is shown to behave like one map from block indices
  to hashes over the sector storage, whatever the buckets have cached.
\<close>

section \<open>State and operations\<close>

definition MinimumBucketSizeLimit :: int where
  "MinimumBucketSizeLimit = BytesPerSector * 8"

definition maxNumberOfSectorBuckets :: int where
  "maxNumberOfSectorBuckets = 64"

record LBA =
  buckets :: "sectorBucket list"
  bucketCount :: int32

definition NewLBA :: "int \<Rightarrow> 'w SectorStorage option \<Rightarrow> LBA result" where
  "NewLBA cacheLimitInBytes storage =
     (if cacheLimitInBytes < MinimumBucketSizeLimit then Inl (ErrOther ''sectorCache too small'')
      else if storage = None then Inl (ErrOther ''LBA requires a non-nil storage'')
      else let bc = cacheLimitInBytes sdiv MinimumBucketSizeLimit;
               bc = (if bc > maxNumberOfSectorBuckets then maxNumberOfSectorBuckets else bc);
               bucketLimitInBytes = cacheLimitInBytes sdiv bc
           in Inr \<lparr>buckets = replicate (nat bc) (newSectorBucket bucketLimitInBytes),
                   bucketCount = word_of_int bc\<rparr>)"

definition bucketIndex :: "int \<Rightarrow> int32 \<Rightarrow> int" where
  "bucketIndex blockIndex n =
     (let sectorIndex = blockIndex sdiv NumberOfRecordsPerLBASector
      in jumpConsistentHash (word_of_int sectorIndex) n)"

text \<open>
  \<open>getBucket\<close> indexes the slice of buckets, so a position outside it would panic; the position is
  returned, since the callers change the bucket in place.
\<close>

definition getBucket :: "LBA \<Rightarrow> int \<Rightarrow> nat result" where
  "getBucket lba blockIndex =
     (let k = bucketIndex blockIndex (bucketCount lba)
      in if k < 0 \<or> int (length (buckets lba)) \<le> k then Inl (Panic ''index out of range'')
         else Inr (nat k))"

definition LBA_Set :: "'w SectorStorage \<Rightarrow> LBA \<Rightarrow> int \<Rightarrow> bytes option \<Rightarrow> 'w \<Rightarrow> error option \<times> LBA \<times> 'w" where
  "LBA_Set st lba blockIndex h w =
     (case getBucket lba blockIndex of
        Inl e \<Rightarrow> (Some e, lba, w)
      | Inr k \<Rightarrow>
          let (err, b, w') = SetHash st (buckets lba ! k) blockIndex h w
          in (err, lba\<lparr>buckets := (buckets lba)[k := b]\<rparr>, w'))"

definition LBA_Delete :: "'w SectorStorage \<Rightarrow> LBA \<Rightarrow> int \<Rightarrow> 'w \<Rightarrow> error option \<times> LBA \<times> 'w" where
  "LBA_Delete st lba blockIndex w = LBA_Set st lba blockIndex None w"

definition LBA_Get :: "'w SectorStorage \<Rightarrow> LBA \<Rightarrow> int \<Rightarrow> 'w \<Rightarrow> bytes option result \<times> LBA \<times> 'w" where
  "LBA_Get st lba blockIndex w =
     (case getBucket lba blockIndex of
        Inl e \<Rightarrow> (Inl e, lba, w)
      | Inr k \<Rightarrow>
          let (r, b, w') = GetHash st (buckets lba ! k) blockIndex w
          in (r, lba\<lparr>buckets := (buckets lba)[k := b]\<rparr>, w'))"

text \<open>
  \<open>Flush\<close> starts one goroutine per bucket and waits for all of them: the buckets are flushed in
  some order, which is a parameter here.
\<close>

fun flush_buckets :: "'w SectorStorage \<Rightarrow> nat list \<Rightarrow> LBA \<Rightarrow> error list \<Rightarrow> 'w \<Rightarrow> error list \<times> LBA \<times> 'w" where
  "flush_buckets st [] lba errs w = (errs, lba, w)"
| "flush_buckets st (k # ks) lba errs w =
     (let (err, b, w') = bucket_Flush st (buckets lba ! k) w
      in flush_buckets st ks (lba\<lparr>buckets := (buckets lba)[k := b]\<rparr>) (ErrorSlice_Add errs err) w')"

definition LBA_Flush :: "'w SectorStorage \<Rightarrow> nat list \<Rightarrow> LBA \<Rightarrow> 'w \<Rightarrow> error option \<times> LBA \<times> 'w" where
  "LBA_Flush st order lba w =
     (let (errs, lba', w') = flush_buckets st order lba [] w in (ErrorSlice_AsError errs, lba', w'))"

section \<open>Invariant and abstraction\<close>

definition owner :: "LBA \<Rightarrow> int \<Rightarrow> nat" where
  "owner lba i = nat (jumpConsistentHash (word_of_int i) (bucketCount lba))"

definition lba_inv :: "LBA \<Rightarrow> (int \<Rightarrow> bytes) \<Rightarrow> bool" where
  "lba_inv lba f \<longleftrightarrow>
     0 < sint (bucketCount lba) \<and> int (length (buckets lba)) = sint (bucketCount lba) \<and>
     (\<forall>k < length (buckets lba). bucket_inv (buckets lba ! k) \<and> bucket_clean (buckets lba ! k) f \<and>
        (\<forall>i. cached (buckets lba ! k) i \<noteq> None \<longrightarrow> owner lba i = k))"

definition lba_view :: "LBA \<Rightarrow> (int \<Rightarrow> bytes) \<Rightarrow> int \<Rightarrow> bytes" where
  "lba_view lba f i = bucket_view (buckets lba ! owner lba i) f i"

text \<open>The abstract state: the hash recorded for each block index.\<close>

definition lba_map :: "LBA \<Rightarrow> (int \<Rightarrow> bytes) \<Rightarrow> int \<Rightarrow> bytes option" where
  "lba_map lba f idx = opt_hash (sector_slot (lba_view lba f (idx div 128)) (idx mod 128))"

definition stored_map :: "(int \<Rightarrow> bytes) \<Rightarrow> int \<Rightarrow> bytes option" where
  "stored_map f idx = opt_hash (sector_slot (f (idx div 128)) (idx mod 128))"

lemma owner_upd [simp]: "owner (lba\<lparr>buckets := bs\<rparr>) = owner lba"
  by (simp add: owner_def fun_eq_iff)

lemma owner_bound: "lba_inv lba f \<Longrightarrow> owner lba i < length (buckets lba)"
  using jumpConsistentHash_range[of "bucketCount lba" "word_of_int i"]
  by (auto simp: lba_inv_def owner_def nat_less_iff)

lemma getBucket_owner:
  assumes "lba_inv lba f" and "0 \<le> idx"
  shows "getBucket lba idx = Inr (owner lba (idx div 128))"
  using assms jumpConsistentHash_range[of "bucketCount lba" "word_of_int (idx div 128)"]
  by (auto simp: getBucket_def bucketIndex_def owner_def lba_inv_def NumberOfRecordsPerLBASector_def)

text \<open>
  Replacing one bucket: other buckets keep what they show when the storage changes only at
  sectors the replaced bucket had cached.
\<close>

lemma lba_step:
  assumes inv: "lba_inv lba f" and k: "k = owner lba i"
    and b: "bucket_inv b" "bucket_clean b f'"
    and frame: "\<And>j. cached (buckets lba ! k) j = None \<Longrightarrow> f' j = f j"
    and dom: "dom (cached b) \<subseteq> insert i (dom (cached (buckets lba ! k)))"
    and lba': "lba' = lba\<lparr>buckets := (buckets lba)[k := b]\<rparr>"
  shows "lba_inv lba' f'"
    and "lba_view lba' f' j = (if owner lba j = k then bucket_view b f' j else lba_view lba f j)"
proof -
  have kb: "k < length (buckets lba)" using owner_bound[OF inv] k by simp
  have own: "owner lba j = k" if "cached (buckets lba ! k) j \<noteq> None" for j
    using inv kb that by (simp add: lba_inv_def)
  have ownb: "owner lba j = k" if "cached b j \<noteq> None" for j
  proof -
    have "j \<in> insert i (dom (cached (buckets lba ! k)))" using that dom by auto
    then show ?thesis using own k by auto
  qed
  have feq: "f' j = f j" if "owner lba j \<noteq> k" for j using own frame that by blast
  have cl: "bucket_clean (buckets lba ! l) f'" if l: "l < length (buckets lba)" "l \<noteq> k" for l
  proof -
    have "owner lba (index_of x) = l" if "x \<in> set (evictList (buckets lba ! l))" for x
      using inv l(1) that by (auto simp: lba_inv_def cached_None_iff)
    moreover have "bucket_clean (buckets lba ! l) f" using inv l(1) by (simp add: lba_inv_def)
    ultimately show ?thesis using l(2) feq by (simp add: bucket_clean_def)
  qed
  show "lba_inv lba' f'"
    unfolding lba_inv_def lba'
    using inv b ownb cl by (auto simp: lba_inv_def nth_list_update[OF kb] split: if_splits)
  show "lba_view lba' f' j = (if owner lba j = k then bucket_view b f' j else lba_view lba f j)"
    using kb feq by (auto simp: lba_view_def lba' bucket_view_def split: option.splits)
qed

lemma lba_map_slot_write:
  assumes "\<And>i. lba_view lba' f' i = (if i = idx div 128 then slot_write (lba_view lba f i) (idx mod 128) h else lba_view lba f i)"
    and "sector_wf (lba_view lba f (idx div 128))" and "length h = 32"
  shows "lba_map lba' f' j = (if j = idx then opt_hash h else lba_map lba f j)"
proof (cases "j div 128 = idx div 128")
  case True
  then have "j = idx \<longleftrightarrow> j mod 128 = idx mod 128"
    by (metis div_mult_mod_eq)
  with True sector_slot_write[OF assms(2) _ _ assms(3), of "idx mod 128" "j mod 128"] show ?thesis
    by (simp add: lba_map_def assms(1))
next
  case False
  then show ?thesis by (auto simp: lba_map_def assms(1))
qed

context sector_storage
begin

lemma lba_view_wf: "lba_inv lba (psec w) \<Longrightarrow> sector_wf (lba_view lba (psec w) i)"
proof -
  assume inv: "lba_inv lba (psec w)"
  let ?b = "buckets lba ! owner lba i"
  have "bucket_wf ?b" using inv owner_bound[OF inv] by (auto simp: lba_inv_def bucket_inv_def)
  then show ?thesis
    using psec_wf cached_Some_iff[of ?b i]
    by (auto simp: lba_view_def bucket_view_def bucket_wf_def split: option.splits)
qed

theorem LBA_Set_ok:
  assumes inv: "lba_inv lba (psec w)" and "ok w" and "0 \<le> idx" and h: "length (hash_bytes h) = 32"
  obtains lba' w' where "LBA_Set st lba idx h w = (None, lba', w')" and "lba_inv lba' (psec w')" and "ok w'"
    and "lba_map lba' (psec w') = (lba_map lba (psec w))(idx := opt_hash (hash_bytes h))"
proof -
  let ?i = "idx div 128" and ?k = "owner lba (idx div 128)"
  have kb: "?k < length (buckets lba)" by (rule owner_bound[OF inv])
  have b: "bucket_inv (buckets lba ! ?k)" "bucket_clean (buckets lba ! ?k) (psec w)"
    using inv kb by (auto simp: lba_inv_def)
  from SetHash_ok[OF b \<open>ok w\<close> \<open>0 \<le> idx\<close> h] obtain b' w' where
    sh: "SetHash st (buckets lba ! ?k) idx h w = (None, b', w')"
    and b': "bucket_inv b'" "bucket_clean b' (psec w')" and "ok w'"
    and vw: "bucket_view b' (psec w') = (bucket_view (buckets lba ! ?k) (psec w))
           (?i := slot_write (bucket_view (buckets lba ! ?k) (psec w) ?i) (idx mod 128) (hash_bytes h))"
    and fr: "\<And>j. cached (buckets lba ! ?k) j = None \<Longrightarrow> psec w' j = psec w j"
    and dm: "dom (cached b') \<subseteq> insert ?i (dom (cached (buckets lba ! ?k)))" by metis
  define lba' where "lba' = lba\<lparr>buckets := (buckets lba)[?k := b']\<rparr>"
  note step = lba_step[OF inv refl b' fr dm lba'_def]
  show thesis
  proof (rule that)
    show "LBA_Set st lba idx h w = (None, lba', w')"
      by (simp add: LBA_Set_def getBucket_owner[OF inv \<open>0 \<le> idx\<close>] sh lba'_def)
    show "lba_inv lba' (psec w')" by (rule step)
    have "lba_view lba' (psec w') i = (if i = ?i then slot_write (lba_view lba (psec w) i) (idx mod 128) (hash_bytes h)
            else lba_view lba (psec w) i)" for i
      using step(2)[of i] vw by (auto simp: lba_view_def[of lba])
    from lba_map_slot_write[OF this lba_view_wf[OF inv] h]
    show "lba_map lba' (psec w') = (lba_map lba (psec w))(idx := opt_hash (hash_bytes h))"
      by (simp add: fun_eq_iff)
  qed (fact \<open>ok w'\<close>)
qed

theorem LBA_Get_ok:
  assumes inv: "lba_inv lba (psec w)" and "ok w" and "0 \<le> idx"
  obtains lba' w' where "LBA_Get st lba idx w = (Inr (lba_map lba (psec w) idx), lba', w')"
    and "lba_inv lba' (psec w')" and "ok w'" and "lba_map lba' (psec w') = lba_map lba (psec w)"
proof -
  let ?k = "owner lba (idx div 128)"
  have kb: "?k < length (buckets lba)" by (rule owner_bound[OF inv])
  have b: "bucket_inv (buckets lba ! ?k)" "bucket_clean (buckets lba ! ?k) (psec w)"
    using inv kb by (auto simp: lba_inv_def)
  from GetHash_ok[OF b \<open>ok w\<close> \<open>0 \<le> idx\<close>] obtain b' w' where
    gh: "GetHash st (buckets lba ! ?k) idx w =
      (Inr (opt_hash (sector_slot (bucket_view (buckets lba ! ?k) (psec w) (idx div 128)) (idx mod 128))), b', w')"
    and b': "bucket_inv b'" "bucket_clean b' (psec w')" and "ok w'"
    and vw: "bucket_view b' (psec w') = bucket_view (buckets lba ! ?k) (psec w)"
    and fr: "\<And>j. cached (buckets lba ! ?k) j = None \<Longrightarrow> psec w' j = psec w j"
    and dm: "dom (cached b') \<subseteq> insert (idx div 128) (dom (cached (buckets lba ! ?k)))" by metis
  define lba' where "lba' = lba\<lparr>buckets := (buckets lba)[?k := b']\<rparr>"
  note step = lba_step[OF inv refl b' fr dm lba'_def]
  show thesis
  proof (rule that)
    show "LBA_Get st lba idx w = (Inr (lba_map lba (psec w) idx), lba', w')"
      by (simp add: LBA_Get_def getBucket_owner[OF inv \<open>0 \<le> idx\<close>] gh lba'_def lba_map_def lba_view_def)
    show "lba_inv lba' (psec w')" by (rule step)
    have "lba_view lba' (psec w') = lba_view lba (psec w)"
      using step(2) vw by (auto simp: fun_eq_iff lba_view_def[of lba])
    then show "lba_map lba' (psec w') = lba_map lba (psec w)" by (simp add: lba_map_def fun_eq_iff)
  qed (fact \<open>ok w'\<close>)
qed

subsection \<open>Flushing every bucket\<close>

lemma flush_buckets_errs:
  "flush_buckets st ks lba errs w = ([], lba', w') \<Longrightarrow> errs = []"
  by (induction ks arbitrary: lba errs w) (force simp: Let_def split: prod.splits)+

lemma bucket_Flush_state:
  "bucket_Flush st b w = (r, b', w') \<Longrightarrow> b' = b\<lparr>sectors := Map.empty, evictList := []\<rparr>"
  by (auto simp: bucket_Flush_def Let_def split: prod.splits)

lemma bucket_Flush_frame:
  assumes "bucket_Flush st b w = (r, b', w')" and "cached b j = None"
  shows "psec w' j = psec w j"
proof -
  obtain errs where "flush_entries st (evictList b) [] w = (errs, w')"
    using assms(1) by (auto simp: bucket_Flush_def Let_def split: prod.splits)
  then show ?thesis using assms(2) by (intro flush_entries_frame) (simp_all add: cached_None_iff)
qed

text \<open>One bucket flushed without an error: the LBA shows the same sectors, the bucket is empty.\<close>

lemma flush_bucket_step:
  assumes inv: "lba_inv lba (psec w)" and k: "k < length (buckets lba)"
    and fl: "bucket_Flush st (buckets lba ! k) w = (None, b', w')"
    and lba': "lba' = lba\<lparr>buckets := (buckets lba)[k := b']\<rparr>"
  shows "lba_inv lba' (psec w')" and "lba_view lba' (psec w') = lba_view lba (psec w)"
proof -
  let ?b = "buckets lba ! k"
  have b: "bucket_inv ?b" "bucket_clean ?b (psec w)"
    and own: "\<And>i. cached ?b i \<noteq> None \<Longrightarrow> owner lba i = k" using inv k by (auto simp: lba_inv_def)
  have ps: "psec w' = bucket_view ?b (psec w)" by (rule bucket_Flush_nil[OF fl b])
  have b': "b' = ?b\<lparr>sectors := Map.empty, evictList := []\<rparr>" by (rule bucket_Flush_state[OF fl])
  have c': "cached b' = Map.empty" and inv': "bucket_inv b'"
    using b(1) by (auto simp: b' cached_def bucket_inv_def bucket_wf_def)
  have same: "psec w' j = psec w j" if "owner lba j \<noteq> k" for j
    using own that bucket_Flush_frame[OF fl] by blast
  have cl: "bucket_clean (buckets lba ! l) (psec w')" if l: "l < length (buckets lba)" "l \<noteq> k" for l
  proof -
    have "owner lba (index_of x) = l" if "x \<in> set (evictList (buckets lba ! l))" for x
      using inv l(1) that by (auto simp: lba_inv_def cached_None_iff)
    moreover have "bucket_clean (buckets lba ! l) (psec w)" using inv l(1) by (simp add: lba_inv_def)
    ultimately show ?thesis using l(2) same by (simp add: bucket_clean_def)
  qed
  have clb: "bucket_clean b' (psec w')" by (simp add: b' bucket_clean_def)
  show "lba_inv lba' (psec w')"
    unfolding lba_inv_def lba' using inv inv' clb c' cl
    by (auto simp: lba_inv_def nth_list_update[OF k] split: if_splits)
  show "lba_view lba' (psec w') = lba_view lba (psec w)"
  proof
    fix i
    show "lba_view lba' (psec w') i = lba_view lba (psec w) i"
    proof (cases "owner lba i = k")
      case True
      then show ?thesis using k by (simp add: lba_view_def lba' bucket_view_def[of b'] c' ps)
    next
      case False
      then show ?thesis using k same by (auto simp: lba_view_def lba' bucket_view_def split: option.splits)
    qed
  qed
qed

lemma flush_buckets_nil:
  assumes "flush_buckets st ks lba errs w = ([], lba', w')" and "lba_inv lba (psec w)"
    and "set ks \<subseteq> {..<length (buckets lba)}"
  shows "lba_inv lba' (psec w') \<and> lba_view lba' (psec w') = lba_view lba (psec w) \<and>
    length (buckets lba') = length (buckets lba) \<and>
    (\<forall>k < length (buckets lba). evictList (buckets lba' ! k) =
       (if k \<in> set ks then [] else evictList (buckets lba ! k)))"
  using assms
proof (induction ks arbitrary: lba errs w)
  case Nil
  then show ?case by simp
next
  case (Cons k ks)
  obtain err b' w1 where fl: "bucket_Flush st (buckets lba ! k) w = (err, b', w1)" by (metis prod_cases3)
  define lba1 where "lba1 = lba\<lparr>buckets := (buckets lba)[k := b']\<rparr>"
  from Cons.prems(1) fl have rec: "flush_buckets st ks lba1 (ErrorSlice_Add errs err) w1 = ([], lba', w')"
    by (simp add: lba1_def)
  from flush_buckets_errs[OF rec] have "err = None" by simp
  moreover have k: "k < length (buckets lba)" using Cons.prems(3) by simp
  ultimately have step: "lba_inv lba1 (psec w1)" "lba_view lba1 (psec w1) = lba_view lba (psec w)"
    using flush_bucket_step[OF Cons.prems(2) k _ lba1_def] fl by auto
  have len: "length (buckets lba1) = length (buckets lba)" by (simp add: lba1_def)
  have ev: "evictList b' = []" using bucket_Flush_state[OF fl] by simp
  from Cons.IH[OF rec step(1)] Cons.prems(3) len step(2) k ev show ?case
    by (auto simp: lba1_def nth_list_update)
qed

text \<open>
  Durability: when \<open>Flush\<close> reports no error, whatever order the buckets were flushed in, the
  storage holds every hash the LBA showed before, and no bucket caches anything any more.
\<close>

theorem LBA_Flush_durable:
  assumes "LBA_Flush st order lba w = (None, lba', w')" and inv: "lba_inv lba (psec w)"
    and "set order = {..<length (buckets lba)}"
  shows "stored_map (psec w') = lba_map lba (psec w)" and "lba_inv lba' (psec w')"
    and "lba_map lba' (psec w') = lba_map lba (psec w)"
proof -
  have "flush_buckets st order lba [] w = ([], lba', w')"
    using assms(1) by (auto simp: LBA_Flush_def Let_def split: prod.splits)
  from flush_buckets_nil[OF this inv] assms(3) have
    inv': "lba_inv lba' (psec w')" and vw: "lba_view lba' (psec w') = lba_view lba (psec w)"
    and len: "length (buckets lba') = length (buckets lba)"
    and ev: "\<And>k. k < length (buckets lba) \<Longrightarrow> evictList (buckets lba' ! k) = []" by auto
  have "lba_view lba' (psec w') i = psec w' i" for i
    using ev[of "owner lba' i"] owner_bound[OF inv'] len
    by (simp add: lba_view_def bucket_view_def cached_def)
  then show "stored_map (psec w') = lba_map lba (psec w)"
    by (simp add: fun_eq_iff stored_map_def lba_map_def flip: vw)
  show "lba_inv lba' (psec w')" by (rule inv')
  show "lba_map lba' (psec w') = lba_map lba (psec w)" by (simp add: lba_map_def fun_eq_iff vw)
qed

text \<open>On a healthy storage \<open>Flush\<close> reports no error.\<close>

lemma flush_entries_ok:
  assumes "ok w" and "\<forall>x \<in> set es. 0 \<le> index_of x \<and> sector_wf (hashes (sector (snd x)))"
  shows "\<exists>w'. flush_entries st es errs w = (errs, w') \<and> ok w'"
  using assms
proof (induction es arbitrary: w)
  case (Cons x es)
  obtain p e where x: "x = (p, e)" by fastforce
  have e: "0 \<le> sectorIndex e" "sector_wf (hashes (sector e))" using Cons.prems(2) by (simp_all add: x)
  from set_ok[OF Cons.prems(1) e] obtain w1 where "SetSector st (sectorIndex e) (sector e) w = (None, w1)" "ok w1"
    by blast
  with Cons.IH[of w] Cons.IH[of w1] Cons.prems show ?case by (auto simp: x ErrorSlice_Add_def)
qed simp

lemma flush_buckets_ok:
  assumes "lba_inv lba (psec w)" and "ok w" and "set ks \<subseteq> {..<length (buckets lba)}"
  shows "\<exists>lba' w'. flush_buckets st ks lba [] w = ([], lba', w') \<and> ok w'"
  using assms
proof (induction ks arbitrary: lba w)
  case (Cons k ks)
  let ?b = "buckets lba ! k"
  have k: "k < length (buckets lba)" using Cons.prems(3) by simp
  have "\<forall>x \<in> set (evictList ?b). 0 \<le> index_of x \<and> sector_wf (hashes (sector (snd x)))"
    using Cons.prems(1) k by (auto simp: lba_inv_def bucket_inv_def bucket_wf_def)
  from flush_entries_ok[OF Cons.prems(2) this, of "[]"] obtain w1 where
    fl: "bucket_Flush st ?b w = (None, ?b\<lparr>sectors := Map.empty, evictList := []\<rparr>, w1)" and "ok w1"
    by (auto simp: bucket_Flush_def ErrorSlice_AsError_def)
  note step = flush_bucket_step(1)[OF Cons.prems(1) k fl refl]
  from Cons.IH[OF step \<open>ok w1\<close>] Cons.prems(3) fl show ?case by (simp add: ErrorSlice_Add_def)
qed simp

theorem LBA_Flush_ok:
  assumes "lba_inv lba (psec w)" and "ok w" and "set order = {..<length (buckets lba)}"
  obtains lba' w' where "LBA_Flush st order lba w = (None, lba', w')" and "ok w'"
    and "lba_inv lba' (psec w')" and "lba_map lba' (psec w') = lba_map lba (psec w)"
    and "stored_map (psec w') = lba_map lba (psec w)"
proof -
  from flush_buckets_ok[OF assms(1,2), of order] assms(3) obtain lba' w' where
    "flush_buckets st order lba [] w = ([], lba', w')" and "ok w'" by auto
  then have fl: "LBA_Flush st order lba w = (None, lba', w')"
    by (simp add: LBA_Flush_def ErrorSlice_AsError_def)
  from LBA_Flush_durable[OF fl assms(1,3)] that[OF fl \<open>ok w'\<close>] show thesis by simp
qed

end

section \<open>A new LBA\<close>

lemma NewLBA_ok:
  assumes "NewLBA limit storage = Inr lba"
  shows "lba_inv lba f" and "lba_view lba f = f"
    and "1 \<le> length (buckets lba)" and "length (buckets lba) \<le> 64"
    and "\<forall>b \<in> set (buckets lba). 8 \<le> bucket_size b"
    and "(\<Sum>b\<leftarrow>buckets lba. bucket_size b * BytesPerSector) \<le> limit"
proof -
  define bc where "bc = (if limit sdiv MinimumBucketSizeLimit > maxNumberOfSectorBuckets
    then maxNumberOfSectorBuckets else limit sdiv MinimumBucketSizeLimit)"
  have lim: "MinimumBucketSizeLimit \<le> limit"
    and lba: "lba = \<lparr>buckets = replicate (nat bc) (newSectorBucket (limit sdiv bc)), bucketCount = word_of_int bc\<rparr>"
    using assms by (auto simp: NewLBA_def bc_def Let_def split: if_splits)
  have c: "MinimumBucketSizeLimit = 32768" by (simp add: MinimumBucketSizeLimit_def sector_consts)
  have bc: "bc = min 64 (limit div 32768)" "1 \<le> bc" "bc \<le> 64"
    using lim by (auto simp: bc_def c maxNumberOfSectorBuckets_def min_def)
  have le: "bc * 32768 \<le> limit"
  proof -
    have "bc * 32768 \<le> (limit div 32768) * 32768" using bc(1) by simp
    also have "\<dots> \<le> limit" by (simp add: div_mult_mod_eq minus_mod_eq_div_mult [symmetric])
    finally show ?thesis .
  qed
  have q: "limit sdiv bc = limit div bc" using lim bc(2) c by simp
  have per: "32768 \<le> limit div bc"
    using zdiv_mono1[OF le, of bc] bc(2) by simp
  have sz: "bucket_size (newSectorBucket (limit div bc)) = limit div bc div 4096"
    using per by (simp add: newSectorBucket_def sector_consts)
  have nb: "bucket_inv (newSectorBucket (limit div bc))" "cached (newSectorBucket (limit div bc)) = Map.empty"
    using newSectorBucket_inv per by (simp_all add: sector_consts)
  have sint: "sint (word_of_int bc :: int32) = bc"
    using bc(2,3) by (simp add: signed_of_int signed_take_bit_int_eq_self)
  have cl: "bucket_clean (newSectorBucket (limit div bc)) f"
    by (simp add: bucket_clean_def newSectorBucket_def)
  show inv: "lba_inv lba f"
    using bc(2) nb cl by (simp add: lba_inv_def lba q sint)
  show "lba_view lba f = f"
    using owner_bound[OF inv] nb(2) by (auto simp: fun_eq_iff lba_view_def bucket_view_def lba q)
  show "1 \<le> length (buckets lba)" "length (buckets lba) \<le> 64" using bc(2,3) by (simp_all add: lba)
  have eight: "8 \<le> limit div bc div 4096"
    using per zdiv_mono1[of 32768 "limit div bc" 4096] by simp
  then show "\<forall>b \<in> set (buckets lba). 8 \<le> bucket_size b" by (auto simp: lba q sz)
  have "limit div bc div 4096 * 4096 \<le> limit div bc"
    by (simp add: minus_mod_eq_div_mult [symmetric])
  then have "bc * (limit div bc div 4096 * 4096) \<le> bc * (limit div bc)" using bc(2) by simp
  also have "\<dots> \<le> limit" using bc(2) by (simp add: minus_mod_eq_mult_div [symmetric])
  finally show "(\<Sum>b\<leftarrow>buckets lba. bucket_size b * BytesPerSector) \<le> limit"
    using bc(2) by (simp add: lba q sz sum_list_replicate sector_consts)
qed

end
