(* ===== verification/Lba_Storage.thy ===== *)
theory Lba_Storage
  imports Lba Ardb_Cluster
begin

text \<open>
  \<open>nbd/ardb/storage/lba.go\<close>: the sector storage of an LBA over an ARDB cluster. Sector \<open>i\<close> of vdisk
  \<open>id\<close> is field \<open>i\<close> of the hash \<open>lba:id\<close> on the server of object index \<open>i\<close>.
\<close>

definition lbaStorageKeyPrefix :: string where "lbaStorageKeyPrefix = ''lba:''"

definition lbaStorageKey :: "string \<Rightarrow> string" where
  "lbaStorageKey vdiskID = lbaStorageKeyPrefix @ vdiskID"

definition lba_GetSector :: "'w StorageCluster \<Rightarrow> string \<Rightarrow> int \<Rightarrow> 'w \<Rightarrow> Sector result \<times> 'w" where
  "lba_GetSector cluster key index w =
     (let ((reply, err), w') = DoFor cluster index (Command HashGet [AStr key, AInt index]) w
      in if reply = RNil then (Inr NewSector, w')
         else case Bytes (reply, err) of
                Inl e \<Rightarrow> (Inl e, w')
              | Inr data \<Rightarrow> (SectorFromBytes data, w'))"

definition lba_SetSector :: "'w StorageCluster \<Rightarrow> string \<Rightarrow> int \<Rightarrow> Sector \<Rightarrow> 'w \<Rightarrow> error option \<times> 'w" where
  "lba_SetSector cluster key index s w =
     (let cmd = (case Sector_Bytes s of
                   None \<Rightarrow> Command HashDelete [AStr key, AInt index]
                 | Some data \<Rightarrow> Command HashSet [AStr key, AInt index, ABytes data]);
          (res, w') = DoFor cluster index cmd w
      in (reply_Error res, w'))"

definition newLBASectorStorage :: "string \<Rightarrow> 'w StorageCluster \<Rightarrow> 'w SectorStorage" where
  "newLBASectorStorage vdiskID cluster =
     \<lparr>GetSector = lba_GetSector cluster (lbaStorageKey vdiskID),
      SetSector = lba_SetSector cluster (lbaStorageKey vdiskID)\<rparr>"

section \<open>The stored sectors\<close>

definition lba_psec :: "('w \<Rightarrow> StorageServerConfig \<Rightarrow> string \<Rightarrow> rvalue option) \<Rightarrow>
    (int \<Rightarrow> StorageServerConfig option) \<Rightarrow> string \<Rightarrow> 'w \<Rightarrow> int \<Rightarrow> bytes" where
  "lba_psec view route vdiskID w i =
     (case route_hash view route (lbaStorageKey vdiskID) w i of
        None \<Rightarrow> replicate 4096 0
      | Some b \<Rightarrow> if length b = 4096 then b else replicate 4096 0)"

text \<open>A healthy storage: reachable servers, and every stored sector has its full length.\<close>

definition lba_ok :: "('w \<Rightarrow> StorageServerConfig \<Rightarrow> string \<Rightarrow> rvalue option) \<Rightarrow>
    (int \<Rightarrow> StorageServerConfig option) \<Rightarrow> (StorageServerConfig \<Rightarrow> bool) \<Rightarrow> string \<Rightarrow> 'w \<Rightarrow> bool" where
  "lba_ok view route up vdiskID w \<longleftrightarrow>
     hash_ok view route up (lbaStorageKey vdiskID) w \<and>
     (\<forall>i b. 0 \<le> i \<longrightarrow> route_hash view route (lbaStorageKey vdiskID) w i = Some b \<longrightarrow> length b = 4096)"

lemma lba_view_cong:
  assumes "view w' = view w"
  shows "lba_psec view route vd w' = lba_psec view route vd w"
    and "lba_ok view route up vd w' = lba_ok view route up vd w"
  using view_cong[of view, OF assms] by (simp_all add: lba_psec_def fun_eq_iff lba_ok_def)

context ardb_cluster
begin

lemma lba_GetSector_ok:
  assumes "lba_ok view route up vd w" and "0 \<le> i"
  shows "\<exists>w'. lba_GetSector cl (lbaStorageKey vd) i w = (Inr \<lparr>hashes = lba_psec view route vd w i, dirty = False\<rparr>, w') \<and>
              view w' = view w"
proof -
  from dofor_hget[of "lbaStorageKey vd" w i] assms obtain w' where
    d: "DoFor cl i (Command HashGet [AStr (lbaStorageKey vd), AInt i]) w =
      ((opt_bulk (route_hash view route (lbaStorageKey vd) w i), None), w')" and "view w' = view w"
    by (auto simp: lba_ok_def)
  moreover have "length b = 4096" if "route_hash view route (lbaStorageKey vd) w i = Some b" for b
    using that assms by (auto simp: lba_ok_def)
  ultimately show ?thesis
    by (auto simp: lba_GetSector_def lba_psec_def opt_bulk_def NewSector_def SectorFromBytes_def sector_consts
        Bytes_def redis_Bytes_def split: option.splits)
qed

lemma lba_SetSector_nil:
  assumes "lba_SetSector cl (lbaStorageKey vd) i s w = (None, w')" and wf: "sector_wf (hashes s)"
  shows "lba_psec view route vd w' = (lba_psec view route vd w)(i := hashes s)"
    and "lba_ok view route up vd w \<Longrightarrow> lba_ok view route up vd w'"
    and "k \<noteq> lbaStorageKey vd \<Longrightarrow> view w' sv k = view w sv k"
proof -
  let ?k = "lbaStorageKey vd"
  have len: "length (hashes s) = 4096" using wf by simp
  consider (del) r where "hashes s = replicate 4096 0" "DoFor cl i (Command HashDelete [AStr ?k, AInt i]) w = ((r, None), w')"
    | (set) r where "DoFor cl i (Command HashSet [AStr ?k, AInt i, ABytes (hashes s)]) w = ((r, None), w')"
    using assms by (auto simp: lba_SetSector_def Sector_Bytes_wf reply_Error_def Let_def split: prod.splits if_splits)
  then obtain v where rh: "route_hash view route ?k w' = (route_hash view route ?k w)(i := v)"
    and ok: "hash_ok view route up ?k w \<Longrightarrow> hash_ok view route up ?k w'"
    and fr: "\<And>k s. k \<noteq> ?k \<Longrightarrow> view w' s k = view w s k"
    and v: "v = Some (hashes s) \<or> v = None \<and> hashes s = replicate 4096 0"
  proof cases
    case del
    note e = hdel_effect[OF del(2)]
    show thesis by (rule that[OF e(1)]) (use e del(1) in auto)
  next
    case set
    note e = hset_effect[OF set]
    show thesis by (rule that[OF e(1)]) (use e in auto)
  qed
  show "lba_psec view route vd w' = (lba_psec view route vd w)(i := hashes s)"
    using v by (auto simp: lba_psec_def fun_eq_iff rh len)
  show "lba_ok view route up vd w \<Longrightarrow> lba_ok view route up vd w'" using ok v len by (auto simp: lba_ok_def rh)
  show "k \<noteq> lbaStorageKey vd \<Longrightarrow> view w' sv k = view w sv k" by (rule fr)
qed

lemma lba_SetSector_ok:
  assumes "lba_ok view route up vd w" and "0 \<le> i"
  shows "\<exists>w'. lba_SetSector cl (lbaStorageKey vd) i s w = (None, w')"
  using assms dofor_hdel_ok[of "lbaStorageKey vd" w i] dofor_hset_ok[of "lbaStorageKey vd" w i "hashes s"]
  by (auto simp: lba_SetSector_def Sector_Bytes_def reply_Error_def lba_ok_def)

lemma lba_SetSector_frame:
  assumes "lba_SetSector cl (lbaStorageKey vd) i s w = (r, w')" and "j \<noteq> i"
  shows "lba_psec view route vd w' j = lba_psec view route vd w j"
proof -
  let ?k = "lbaStorageKey vd"
  obtain cmd res where cmd: "cmd = Command HashDelete [AStr ?k, AInt i] \<or>
      (\<exists>b. cmd = Command HashSet [AStr ?k, AInt i, ABytes b])" and d: "DoFor cl i cmd w = (res, w')"
    using assms(1) by (auto simp: lba_SetSector_def Let_def split: prod.splits option.splits)
  show ?thesis
  proof (cases "snd res")
    case None
    with cmd d assms(2) show ?thesis
      by (cases res) (auto simp: lba_psec_def hdel_effect(1) hset_effect(1))
  next
    case (Some e)
    then have "w' = w" using cmd d by (cases res) (auto dest: hset_error hdel_error)
    then show ?thesis by simp
  qed
qed

end

text \<open>The storage keeps the contract the LBA relies on.\<close>

sublocale ardb_cluster \<subseteq> lba: sector_storage "newLBASectorStorage vd cl" "lba_psec view route vd" "lba_ok view route up vd"
  for vd
proof (unfold_locales, goal_cases)
  case (1 w i) show ?case by (simp add: lba_psec_def sector_wf_def sector_consts split: option.splits)
next
  case (2 w i)
  from lba_GetSector_ok[OF this] obtain w' where
    "lba_GetSector cl (lbaStorageKey vd) i w = (Inr \<lparr>hashes = lba_psec view route vd w i, dirty = False\<rparr>, w')"
    and v: "view w' = view w" by blast
  with 2 show ?case by (simp add: newLBASectorStorage_def lba_view_cong[OF v])
next
  case (3 w i s)
  from lba_SetSector_ok[OF this(1,2)] 3 show ?case
    using lba_SetSector_nil(2) by (fastforce simp: newLBASectorStorage_def)
next
  case (4 i s w w') then show ?case by (simp add: newLBASectorStorage_def lba_SetSector_nil(1))
next
  case (5 i s w r w' j) then show ?case by (simp add: newLBASectorStorage_def lba_SetSector_frame)
qed

context ardb_cluster
begin

lemmas lba_sector_storage = lba.sector_storage_axioms

end

end
