(* ===== verification/Lba_Frame.thy ===== *)
theory Lba_Frame
  imports Lba_Storage
begin

text \<open>
  What the LBA leaves alone: a relation between states that every access to the sector storage
  respects is respected by the operations of the LBA. Over an ARDB cluster they touch no key but
  the one of the LBA.
\<close>

locale storage_frame =
  fixes st :: "'w SectorStorage" and R :: "'w \<Rightarrow> 'w \<Rightarrow> bool"
  assumes R_refl: "R w w" and R_trans: "R w1 w2 \<Longrightarrow> R w2 w3 \<Longrightarrow> R w1 w3"
    and get_frame: "GetSector st i w = (r, w') \<Longrightarrow> R w w'"
    and put_frame: "SetSector st i s w = (e, w') \<Longrightarrow> R w w'"
begin

lemma flushOldest_frame: "flushOldest st b w = (e, b', w') \<Longrightarrow> R w w'"
  by (auto simp: flushOldest_def Let_def R_refl split: if_splits prod.splits dest: put_frame)

lemma getSector_frame: "getSector st b i w = (r, b', w') \<Longrightarrow> R w w'"
  unfolding getSector_def
  by (auto simp: Let_def R_refl split: if_splits prod.splits option.splits sum.splits
      dest!: get_frame flushOldest_frame intro: R_trans)

lemma SetHash_frame: "SetHash st b i h w = (e, b', w') \<Longrightarrow> R w w'"
  by (auto simp: SetHash_def split: prod.splits sum.splits dest!: getSector_frame)

lemma GetHash_frame: "GetHash st b i w = (r, b', w') \<Longrightarrow> R w w'"
  by (auto simp: GetHash_def split: prod.splits sum.splits dest!: getSector_frame)

lemma flush_entries_R: "flush_entries st es errs w = (r, w') \<Longrightarrow> R w w'"
proof (induction es arbitrary: errs w)
  case (Cons x es)
  then show ?case
    by (cases x) (auto simp: Let_def split: if_splits prod.splits dest!: put_frame intro: R_trans)
qed (simp add: R_refl)

lemma bucket_Flush_R: "bucket_Flush st b w = (e, b', w') \<Longrightarrow> R w w'"
  by (auto simp: bucket_Flush_def Let_def split: prod.splits dest!: flush_entries_R)

lemma flush_buckets_R: "flush_buckets st ks lba errs w = (r, lba', w') \<Longrightarrow> R w w'"
proof (induction ks arbitrary: lba errs w)
  case (Cons k ks)
  then show ?case by (auto simp: Let_def split: prod.splits dest!: bucket_Flush_R intro: R_trans)
qed (simp add: R_refl)

lemma LBA_Set_frame: "LBA_Set st lba i h w = (e, lba', w') \<Longrightarrow> R w w'"
  by (auto simp: LBA_Set_def Let_def R_refl split: prod.splits sum.splits dest!: SetHash_frame)

lemma LBA_Get_frame: "LBA_Get st lba i w = (r, lba', w') \<Longrightarrow> R w w'"
  by (auto simp: LBA_Get_def Let_def R_refl split: prod.splits sum.splits dest!: GetHash_frame)

lemma LBA_Flush_frame: "LBA_Flush st order lba w = (e, lba', w') \<Longrightarrow> R w w'"
  by (auto simp: LBA_Flush_def Let_def split: prod.splits dest!: flush_buckets_R)

end

text \<open>Two states that agree on every key but one.\<close>

definition same_but :: "('w \<Rightarrow> StorageServerConfig \<Rightarrow> string \<Rightarrow> rvalue option) \<Rightarrow> string \<Rightarrow> 'w \<Rightarrow> 'w \<Rightarrow> bool" where
  "same_but view k w w' \<longleftrightarrow> (\<forall>s k'. k' \<noteq> k \<longrightarrow> view w' s k' = view w s k')"

context ardb_cluster
begin

lemma dofor_hget_view:
  assumes "DoFor cl i (Command HashGet [AStr k, AInt i]) w = (r, w')"
  shows "view w' = view w"
proof (cases "route i")
  case None
  from dofor_none[OF this] assms show ?thesis by (metis Pair_inject)
next
  case (Some s)
  have d: "DoFor cl i act w = server_Do srv s act w" for act by (rule dofor[OF Some])
  show ?thesis
  proof (cases "State s = Online \<and> up s")
    case True
    then have c: "srv s ''HGET'' [AStr k, AInt i] w = (r, w')"
      using assms by (simp add: d server_cmd HashGet_def)
    show ?thesis
    proof (cases "hash_at (view w s k)")
      case None with hget_wrong[of s w k i] True c show ?thesis by auto
    next
      case (Some h) with hget[of s w k h i] True c show ?thesis by auto
    qed
  next
    case False
    from server_down[OF this] assms show ?thesis unfolding d by (metis Pair_inject)
  qed
qed

end

sublocale ardb_cluster \<subseteq> lba_frame: storage_frame "newLBASectorStorage vd cl" "same_but view (lbaStorageKey vd)" for vd
proof (unfold_locales, goal_cases)
  case (3 i w r w')
  then obtain x where "DoFor cl i (Command HashGet [AStr (lbaStorageKey vd), AInt i]) w = (x, w')"
    by (auto simp: newLBASectorStorage_def lba_GetSector_def Let_def split: prod.splits if_splits sum.splits)
  from dofor_hget_view[OF this] show ?case by (simp add: same_but_def)
next
  case (4 i s w e w')
  let ?k = "lbaStorageKey vd"
  obtain cmd res where cmd: "cmd = Command HashDelete [AStr ?k, AInt i] \<or>
      (\<exists>b. cmd = Command HashSet [AStr ?k, AInt i, ABytes b])" and d: "DoFor cl i cmd w = (res, w')"
    using 4 by (auto simp: newLBASectorStorage_def lba_SetSector_def Let_def split: prod.splits option.splits)
  show ?case
  proof (cases "snd res")
    case None
    with cmd d show ?thesis by (cases res) (auto simp: same_but_def dest: hdel_effect(5) hset_effect(5))
  next
    case (Some e)
    then have "w' = w" using cmd d by (cases res) (auto dest: hset_error hdel_error)
    then show ?thesis by (simp add: same_but_def)
  qed
qed (simp_all add: same_but_def)

end
