(* ===== verification/Block_Storage.thy ===== *)
theory Block_Storage
  imports Lba_Sector Ardb
begin

text \<open>
  The \<open>BlockStorage\<close> interface (\<open>nbd/ardb/storage/storage.go\<close>), the contract its clients rely on, and the
  in-memory implementation (\<open>nbd/ardb/storage/inmemory.go\<close>).
\<close>

section \<open>The interface\<close>

text \<open>
  A block storage as functions on a state, which holds the storage object and the servers behind it.
  A nil content is \<open>None\<close>.
\<close>

record 's BlockStorage =
  SetBlock :: "int \<Rightarrow> bytes \<Rightarrow> 's \<Rightarrow> error option \<times> 's"
  GetBlock :: "int \<Rightarrow> 's \<Rightarrow> bytes option result \<times> 's"
  DeleteBlock :: "int \<Rightarrow> 's \<Rightarrow> error option \<times> 's"
  Flush :: "'s \<Rightarrow> error option \<times> 's"
  Close :: "'s \<Rightarrow> error option \<times> 's"

text \<open>A block of zeroes is not stored.\<close>

definition stored :: "bytes \<Rightarrow> bytes option" where
  "stored c = (if all_zero c then None else Some c)"

text \<open>
  The contract: in a state that satisfies \<open>inv\<close> the operations succeed and act on the contents as on a map
  from block indices; \<open>valid\<close> are the contents the storage is used with.
\<close>

locale block_storage =
  fixes bs :: "'s BlockStorage" and blockSize :: int and valid :: "bytes \<Rightarrow> bool"
    and inv :: "'s \<Rightarrow> bool" and content :: "'s \<Rightarrow> int \<Rightarrow> bytes option"
  assumes set_block: "inv s \<Longrightarrow> 0 \<le> i \<Longrightarrow> int (length c) = blockSize \<Longrightarrow> valid c \<Longrightarrow>
      \<exists>s'. SetBlock bs i c s = (None, s') \<and> inv s' \<and> content s' = (content s)(i := stored c)"
    and get_block: "inv s \<Longrightarrow> 0 \<le> i \<Longrightarrow>
      \<exists>s'. GetBlock bs i s = (Inr (content s i), s') \<and> inv s' \<and> content s' = content s"
    and delete_block: "inv s \<Longrightarrow> 0 \<le> i \<Longrightarrow>
      \<exists>s'. DeleteBlock bs i s = (None, s') \<and> inv s' \<and> content s' = (content s)(i := None)"
    and flush: "inv s \<Longrightarrow> \<exists>s'. Flush bs s = (None, s') \<and> inv s' \<and> content s' = content s"
    and content_length: "inv s \<Longrightarrow> 0 \<le> i \<Longrightarrow> content s i = Some c \<Longrightarrow> int (length c) = blockSize"
begin

text \<open>A sequence of operations, as a client issues them.\<close>

lemma set_then_get:
  assumes "inv s" and "0 \<le> i" and "0 \<le> j" and "int (length c) = blockSize" and "valid c"
  obtains s1 s2 where "SetBlock bs i c s = (None, s1)"
    and "GetBlock bs j s1 = (Inr (if j = i then stored c else content s j), s2)" and "inv s2"
proof -
  from set_block[OF assms(1,2,4,5)] obtain s1 where s1: "SetBlock bs i c s = (None, s1)" "inv s1"
    "content s1 = (content s)(i := stored c)" by blast
  from get_block[OF s1(2) assms(3)] obtain s2 where "GetBlock bs j s1 = (Inr (content s1 j), s2)" "inv s2" by blast
  with s1 that show thesis by simp
qed

end

section \<open>In-memory storage\<close>

record inMemoryStorage =
  im_blockSize :: int
  im_vdiskID :: string
  vdisk :: "int \<rightharpoonup> bytes"

definition NewInMemoryStorage :: "string \<Rightarrow> int \<Rightarrow> inMemoryStorage" where
  "NewInMemoryStorage vdiskID blockSize = \<lparr>im_blockSize = blockSize, im_vdiskID = vdiskID, vdisk = Map.empty\<rparr>"

definition inMemory_SetBlock :: "int \<Rightarrow> bytes \<Rightarrow> inMemoryStorage \<Rightarrow> error option \<times> inMemoryStorage" where
  "inMemory_SetBlock blockIndex content ms =
     (if all_zero content then (None, ms\<lparr>vdisk := (vdisk ms)(blockIndex := None)\<rparr>)
      else (None, ms\<lparr>vdisk := (vdisk ms)(blockIndex \<mapsto> content)\<rparr>))"

definition inMemory_GetBlock :: "int \<Rightarrow> inMemoryStorage \<Rightarrow> bytes option result \<times> inMemoryStorage" where
  "inMemory_GetBlock blockIndex ms = (Inr (vdisk ms blockIndex), ms)"

definition inMemory_DeleteBlock :: "int \<Rightarrow> inMemoryStorage \<Rightarrow> error option \<times> inMemoryStorage" where
  "inMemory_DeleteBlock blockIndex ms = (None, ms\<lparr>vdisk := (vdisk ms)(blockIndex := None)\<rparr>)"

definition inMemory_Flush :: "inMemoryStorage \<Rightarrow> error option \<times> inMemoryStorage" where
  "inMemory_Flush ms = (None, ms)"

definition inMemory_Close :: "inMemoryStorage \<Rightarrow> error option \<times> inMemoryStorage" where
  "inMemory_Close ms = (None, ms)"

definition inMemory :: "inMemoryStorage BlockStorage" where
  "inMemory = \<lparr>SetBlock = inMemory_SetBlock, GetBlock = inMemory_GetBlock, DeleteBlock = inMemory_DeleteBlock,
               Flush = inMemory_Flush, Close = inMemory_Close\<rparr>"

definition inMemory_inv :: "int \<Rightarrow> inMemoryStorage \<Rightarrow> bool" where
  "inMemory_inv blockSize ms \<longleftrightarrow> (\<forall>c \<in> ran (vdisk ms). int (length c) = blockSize)"

lemmas inMemory_defs [go_defs] = inMemory_def inMemory_SetBlock_def inMemory_GetBlock_def
  inMemory_DeleteBlock_def inMemory_Flush_def inMemory_Close_def

interpretation memory_storage: block_storage inMemory blockSize "\<lambda>_. True" "inMemory_inv blockSize" vdisk
proof (unfold_locales, goal_cases)
  case (1 s i c) then show ?case
    by (auto simp: inMemory_defs inMemory_inv_def stored_def ran_def split: if_splits)
next
  case (2 s i) then show ?case by (simp add: inMemory_defs)
next
  case (3 s i) then show ?case by (auto simp: inMemory_defs inMemory_inv_def ran_def split: if_splits)
next
  case (4 s) then show ?case by (simp add: inMemory_defs)
next
  case (5 s i c) then show ?case by (auto simp: inMemory_inv_def ran_def)
qed

end
