(* ===== verification/Deduped.thy ===== *)
theory Deduped
  imports Lba_Frame Block_Storage
begin

text \<open>
  The deduped storage (\<open>nbd/ardb/storage/deduped.go\<close>): a block is stored under the hash of its content, on
  the server of the first byte of the hash; the LBA of the vdisk records the hash of every block index.
  The hash function (\<open>zerodisk.HashBytes\<close>, BLAKE2b) is the parameter \<open>HashBytes\<close>.
\<close>

section \<open>The storage\<close>

definition DefaultLBACacheLimit :: int where "DefaultLBACacheLimit = 20 * 1024 * 1024"

record 'w dedupedStorage =
  ds_blockSize :: int
  ds_vdiskID :: string
  ds_zeroContentHash :: bytes
  ds_cluster :: "'w StorageCluster"
  ds_templateCluster :: "'w StorageCluster option"
  ds_lba :: LBA

definition Deduped :: "(bytes \<Rightarrow> bytes) \<Rightarrow> string \<Rightarrow> int \<Rightarrow> int \<Rightarrow> 'w StorageCluster \<Rightarrow> 'w StorageCluster option \<Rightarrow>
    'w dedupedStorage result" where
  "Deduped HashBytes vdiskID blockSize lbaCacheLimit cluster templateCluster =
     (let cacheLimit = (if lbaCacheLimit < BytesPerSector then DefaultLBACacheLimit else lbaCacheLimit)
      in case NewLBA cacheLimit (Some (newLBASectorStorage vdiskID cluster)) of
           Inl err \<Rightarrow> Inl err
         | Inr vlba \<Rightarrow>
             if blockSize < 0 then Inl (Panic ''makeslice: len out of range'')
             else Inr \<lparr>ds_blockSize = blockSize, ds_vdiskID = vdiskID,
                       ds_zeroContentHash = HashBytes (replicate (nat blockSize) 0),
                       ds_cluster = cluster, ds_templateCluster = templateCluster, ds_lba = vlba\<rparr>)"

definition ds_storage :: "'w dedupedStorage \<Rightarrow> 'w SectorStorage" where
  "ds_storage ds = newLBASectorStorage (ds_vdiskID ds) (ds_cluster ds)"

text \<open>\<open>int64(hash[0])\<close>; indexing an empty slice panics.\<close>

definition hash_index :: "bytes \<Rightarrow> int result" where
  "hash_index h = (case h of [] \<Rightarrow> Inl (Panic ''index out of range'') | b # _ \<Rightarrow> Inr (uint b))"

definition ds_setContent :: "'w dedupedStorage \<Rightarrow> bytes \<Rightarrow> bytes \<Rightarrow> 'w \<Rightarrow> error option \<times> 'w" where
  "ds_setContent ds hash content w =
     (case hash_index hash of
        Inl e \<Rightarrow> (Some e, w)
      | Inr i \<Rightarrow> let (res, w') = DoFor (ds_cluster ds) i (Command Set [ABytes hash, ABytes content]) w
                in (reply_Error res, w'))"

definition ds_SetBlock :: "(bytes \<Rightarrow> bytes) \<Rightarrow> int \<Rightarrow> bytes \<Rightarrow> 'w dedupedStorage \<Rightarrow> 'w \<Rightarrow>
    error option \<times> 'w dedupedStorage \<times> 'w" where
  "ds_SetBlock HashBytes blockIndex content ds w =
     (let hash = HashBytes content
      in if Hash_Equals (ds_zeroContentHash ds) hash then
           let (err, lba, w') = LBA_Delete (ds_storage ds) (ds_lba ds) blockIndex w in (err, ds\<lparr>ds_lba := lba\<rparr>, w')
         else case ds_setContent ds hash content w of
                (Some err, w1) \<Rightarrow> (Some err, ds, w1)
              | (None, w1) \<Rightarrow>
                  let (err, lba, w') = LBA_Set (ds_storage ds) (ds_lba ds) blockIndex (Some hash) w1
                  in (err, ds\<lparr>ds_lba := lba\<rparr>, w'))"

definition ds_getPrimaryContent :: "'w dedupedStorage \<Rightarrow> bytes \<Rightarrow> 'w \<Rightarrow> bytes option result \<times> 'w" where
  "ds_getPrimaryContent ds hash w =
     (case hash_index hash of
        Inl e \<Rightarrow> (Inl e, w)
      | Inr i \<Rightarrow> let (res, w') = DoFor (ds_cluster ds) i (Command Get [ABytes hash]) w in (OptBytes res, w'))"

text \<open>
  The goroutine that stores template content in the primary cluster: a task, the hash and the content of the slice at present.
  The slice is also returned to the caller; that callers change it is an event of \<open>Histories\<close>.
\<close>

type_synonym ds_task = "bytes \<times> bytes"

definition ds_getPrimaryOrTemplateContent :: "'w dedupedStorage \<Rightarrow> 'w StorageCluster \<Rightarrow> bytes \<Rightarrow> 'w \<Rightarrow>
    bytes option result \<times> ds_task list \<times> 'w" where
  "ds_getPrimaryOrTemplateContent ds tc hash w =
     (case ds_getPrimaryContent ds hash w of
        (Inl err, w1) \<Rightarrow> (Inl err, [], w1)
      | (Inr (Some content), w1) \<Rightarrow> (Inr (Some content), [], w1)
      | (Inr None, w1) \<Rightarrow>
          (case hash_index hash of
             Inl e \<Rightarrow> (Inl e, [], w1)
           | Inr i \<Rightarrow>
               let (res, w2) = DoFor tc i (Command Get [ABytes hash]) w1
               in case OptBytes res of
                    Inl err \<Rightarrow> if err = ErrClusterNotDefined then (Inr None, [], w2) else (Inl err, [], w2)
                  | Inr None \<Rightarrow> (Inr None, [], w2)
                  | Inr (Some content) \<Rightarrow> (Inr (Some content), [(hash, content)], w2)))"

definition ds_getContent :: "'w dedupedStorage \<Rightarrow> bytes \<Rightarrow> 'w \<Rightarrow> bytes option result \<times> ds_task list \<times> 'w" where
  "ds_getContent ds hash w =
     (case ds_templateCluster ds of
        None \<Rightarrow> (let (r, w') = ds_getPrimaryContent ds hash w in (r, [], w'))
      | Some tc \<Rightarrow> ds_getPrimaryOrTemplateContent ds tc hash w)"

definition ds_run_task :: "'w dedupedStorage \<Rightarrow> ds_task \<Rightarrow> 'w \<Rightarrow> 'w" where
  "ds_run_task ds t w = snd (ds_setContent ds (fst t) (snd t) w)"

definition ds_GetBlock :: "int \<Rightarrow> 'w dedupedStorage \<Rightarrow> 'w \<Rightarrow>
    bytes option result \<times> ds_task list \<times> 'w dedupedStorage \<times> 'w" where
  "ds_GetBlock blockIndex ds w =
     (case LBA_Get (ds_storage ds) (ds_lba ds) blockIndex w of
        (Inl err, lba, w1) \<Rightarrow> (Inl err, [], ds\<lparr>ds_lba := lba\<rparr>, w1)
      | (Inr None, lba, w1) \<Rightarrow> (Inr None, [], ds\<lparr>ds_lba := lba\<rparr>, w1)
      | (Inr (Some hash), lba, w1) \<Rightarrow>
          if Hash_Equals hash NilHash then (Inr None, [], ds\<lparr>ds_lba := lba\<rparr>, w1)
          else let (r, ts, w2) = ds_getContent (ds\<lparr>ds_lba := lba\<rparr>) hash w1 in (r, ts, ds\<lparr>ds_lba := lba\<rparr>, w2))"

text \<open>\<open>hash, _ := ds.lba.Get(blockIndex)\<close>: an error of the LBA is ignored.\<close>

definition ds_DeleteBlock :: "int \<Rightarrow> 'w dedupedStorage \<Rightarrow> 'w \<Rightarrow> error option \<times> 'w dedupedStorage \<times> 'w" where
  "ds_DeleteBlock blockIndex ds w =
     (case LBA_Get (ds_storage ds) (ds_lba ds) blockIndex w of
        (Inr (Some hash), lba, w1) \<Rightarrow>
          let (err, lba', w') = LBA_Delete (ds_storage ds) lba blockIndex w1 in (err, ds\<lparr>ds_lba := lba'\<rparr>, w')
      | (_, lba, w1) \<Rightarrow> (None, ds\<lparr>ds_lba := lba\<rparr>, w1))"

definition ds_Flush :: "nat list \<Rightarrow> 'w dedupedStorage \<Rightarrow> 'w \<Rightarrow> error option \<times> 'w dedupedStorage \<times> 'w" where
  "ds_Flush order ds w =
     (let (err, lba, w') = LBA_Flush (ds_storage ds) order (ds_lba ds) w in (err, ds\<lparr>ds_lba := lba\<rparr>, w'))"

definition ds_Close :: "'w dedupedStorage \<Rightarrow> 'w \<Rightarrow> error option \<times> 'w dedupedStorage \<times> 'w" where
  "ds_Close ds w = (None, ds, w)"

section \<open>Content by hash\<close>

definition hash_slot :: "bytes \<Rightarrow> int" where "hash_slot h = uint (hd h)"

definition str_val :: "('w \<Rightarrow> StorageServerConfig \<Rightarrow> string \<Rightarrow> rvalue option) \<Rightarrow>
    (int \<Rightarrow> StorageServerConfig option) \<Rightarrow> 'w \<Rightarrow> bytes \<Rightarrow> bytes option" where
  "str_val view route w h =
     (case route (hash_slot h) of None \<Rightarrow> None
      | Some s \<Rightarrow> (case string_at (view w s (string_of_bytes h)) of None \<Rightarrow> None | Some v \<Rightarrow> v))"

definition str_ok :: "('w \<Rightarrow> StorageServerConfig \<Rightarrow> string \<Rightarrow> rvalue option) \<Rightarrow>
    (int \<Rightarrow> StorageServerConfig option) \<Rightarrow> (StorageServerConfig \<Rightarrow> bool) \<Rightarrow> 'w \<Rightarrow> bytes \<Rightarrow> bool" where
  "str_ok view route up w h \<longleftrightarrow>
     (\<forall>s. route (hash_slot h) = Some s \<longrightarrow> up s \<and> string_at (view w s (string_of_bytes h)) \<noteq> None)"

lemma string_of_bytes_inject [simp]: "string_of_bytes a = string_of_bytes b \<longleftrightarrow> a = b"
proof -
  have "inj (\<lambda>b::byte. char_of (unat b))"
  proof (rule injI)
    fix x y :: byte
    assume "(char_of (unat x) :: char) = char_of (unat y)"
    then have "of_char (char_of (unat x) :: char) = (of_char (char_of (unat y) :: char) :: nat)" by simp
    then have "unat x mod 256 = unat y mod 256" by (simp only: of_char_of)
    then have "unat x = unat y"
      using unsigned_less[of x, where ?'a = nat] unsigned_less[of y, where ?'a = nat] by simp
    then show "x = y" by (rule unsigned_word_eqI)
  qed
  then show ?thesis by (simp add: string_of_bytes_def inj_map_eq_map)
qed

lemma string_at_VString [simp]: "string_at (Some (VString c)) = Some (Some c)"
  by (simp add: string_at_def)

lemma str_val_same_but:
  assumes "same_but view k w w'" and "string_of_bytes h \<noteq> k"
  shows "str_val view route w' h = str_val view route w h"
    and "str_ok view route up w' h = str_ok view route up w h"
  using assms by (auto simp: str_val_def str_ok_def same_but_def split: option.splits)

lemma str_val_upd:
  assumes "view w' = key_upd (view w) s (string_of_bytes h) (Some (VString c))"
  shows "str_val view route w' h' =
           (if h' = h \<and> route (hash_slot h) = Some s then Some c else str_val view route w h')"
    and "str_ok view route up w h' \<Longrightarrow> str_ok view route up w' h'"
  using assms by (auto simp: str_val_def str_ok_def split: option.splits)

lemma str_view_cong:
  assumes "view w' = view w"
  shows "str_val view route w' h = str_val view route w h" and "str_ok view route up w' h = str_ok view route up w h"
  by (simp_all add: str_val_def str_ok_def assms split: option.split)

lemma hash_index_slot: "h \<noteq> [] \<Longrightarrow> hash_index h = Inr (hash_slot h)"
  by (cases h) (simp_all add: hash_index_def hash_slot_def)

lemma hash_slot_ge: "0 \<le> hash_slot h" by (simp add: hash_slot_def)

context ardb_cluster
begin

lemma str_ok_server:
  assumes "str_ok view route up w h"
  obtains s v where "route (hash_slot h) = Some s" and "State s = Online" and "up s"
    and "string_at (view w s (string_of_bytes h)) = Some v"
proof -
  from routed[OF hash_slot_ge] obtain s where "s \<in> set members" "route (hash_slot h) = Some s" by blast
  with online assms that show thesis unfolding str_ok_def by blast
qed

lemma dofor_get:
  assumes "str_ok view route up w h"
  shows "\<exists>w'. DoFor cl (hash_slot h) (Command Get [ABytes h]) w = ((opt_bulk (str_val view route w h), None), w') \<and>
              view w' = view w"
proof -
  obtain s v where s: "route (hash_slot h) = Some s" "State s = Online" "up s"
    "string_at (view w s (string_of_bytes h)) = Some v" by (rule str_ok_server[OF assms])
  from get_bytes[OF s(3,4)] s show ?thesis by (auto simp: dofor server_cmd Get_def str_val_def)
qed

lemma dofor_set:
  assumes "str_ok view route up w h"
  shows "\<exists>r w' s. DoFor cl (hash_slot h) (Command Set [ABytes h, ABytes c]) w = ((r, None), w') \<and>
                  route (hash_slot h) = Some s \<and>
                  view w' = key_upd (view w) s (string_of_bytes h) (Some (VString c))"
proof -
  obtain s v where s: "route (hash_slot h) = Some s" "State s = Online" "up s"
    "string_at (view w s (string_of_bytes h)) = Some v" by (rule str_ok_server[OF assms])
  from set_bytes[OF s(3), of h c w] s show ?thesis by (auto simp: dofor server_cmd Set_def)
qed

end

section \<open>Correctness\<close>

text \<open>
  The servers hold under the hash of a content that content or nothing. A hash the LBA records is
  available when the primary or the template cluster holds its content.
\<close>

definition store_inv :: "('w \<Rightarrow> StorageServerConfig \<Rightarrow> string \<Rightarrow> rvalue option) \<Rightarrow>
    (int \<Rightarrow> StorageServerConfig option) \<Rightarrow> (StorageServerConfig \<Rightarrow> bool) \<Rightarrow> (bytes \<Rightarrow> bytes) \<Rightarrow> bytes set \<Rightarrow> 'w \<Rightarrow> bool" where
  "store_inv view route up H C w \<longleftrightarrow>
     (\<forall>c \<in> C. str_ok view route up w (H c) \<and> str_val view route w (H c) \<in> {None, Some c})"

definition available :: "('w \<Rightarrow> StorageServerConfig \<Rightarrow> string \<Rightarrow> rvalue option) \<Rightarrow>
    (int \<Rightarrow> StorageServerConfig option) \<Rightarrow> (int \<Rightarrow> StorageServerConfig option) option \<Rightarrow> (bytes \<Rightarrow> bytes) \<Rightarrow> 'w \<Rightarrow> bytes \<Rightarrow> bool" where
  "available view route troute H w c \<longleftrightarrow>
     str_val view route w (H c) = Some c \<or> (\<exists>r. troute = Some r \<and> str_val view r w (H c) = Some c)"

text \<open>The state of a deduped storage: the object, the servers, and the tasks still to run.\<close>

type_synonym 'w ds_state = "'w dedupedStorage \<times> 'w \<times> ds_task list"

definition ds_content :: "('w \<Rightarrow> StorageServerConfig \<Rightarrow> string \<Rightarrow> rvalue option) \<Rightarrow>
    (int \<Rightarrow> StorageServerConfig option) \<Rightarrow> (bytes \<Rightarrow> bytes) \<Rightarrow> bytes set \<Rightarrow> string \<Rightarrow> 'w ds_state \<Rightarrow> int \<Rightarrow> bytes option" where
  "ds_content view route H C vd st i =
     (case st of (ds, w, ts) \<Rightarrow> map_option (inv_into C H) (lba_map (ds_lba ds) (lba_psec view route vd w) i))"

definition refs_inv :: "('w \<Rightarrow> StorageServerConfig \<Rightarrow> string \<Rightarrow> rvalue option) \<Rightarrow>
    (int \<Rightarrow> StorageServerConfig option) \<Rightarrow> (int \<Rightarrow> StorageServerConfig option) option \<Rightarrow> (bytes \<Rightarrow> bytes) \<Rightarrow> bytes set \<Rightarrow>
    int \<Rightarrow> (int \<Rightarrow> bytes option) \<Rightarrow> 'w \<Rightarrow> bool" where
  "refs_inv view route troute H C bsize m w \<longleftrightarrow>
     (\<forall>i h. 0 \<le> i \<longrightarrow> m i = Some h \<longrightarrow>
        (\<exists>c \<in> C. h = H c \<and> int (length c) = bsize \<and> available view route troute H w c))"

definition ds_inv :: "('w \<Rightarrow> StorageServerConfig \<Rightarrow> string \<Rightarrow> rvalue option) \<Rightarrow>
    (int \<Rightarrow> StorageServerConfig option) \<Rightarrow> (int \<Rightarrow> StorageServerConfig option) option \<Rightarrow> (StorageServerConfig \<Rightarrow> bool) \<Rightarrow>
    (bytes \<Rightarrow> bytes) \<Rightarrow> bytes set \<Rightarrow> string \<Rightarrow> int \<Rightarrow> 'w StorageCluster \<Rightarrow> 'w StorageCluster option \<Rightarrow> 'w ds_state \<Rightarrow> bool" where
  "ds_inv view route troute up H C vd bsize cl tc st \<longleftrightarrow>
     (case st of (ds, w, ts) \<Rightarrow>
        ds_cluster ds = cl \<and> ds_templateCluster ds = tc \<and> ds_vdiskID ds = vd \<and>
        ds_zeroContentHash ds = H (replicate (nat bsize) 0) \<and>
        lba_inv (ds_lba ds) (lba_psec view route vd w) \<and> lba_ok view route up vd w \<and>
        store_inv view route up H C w \<and> (\<forall>r. troute = Some r \<longrightarrow> store_inv view r up H C w) \<and>
        refs_inv view route troute H C bsize (lba_map (ds_lba ds) (lba_psec view route vd w)) w \<and>
        (\<forall>t \<in> set ts. snd t \<in> C \<and> fst t = H (snd t)))"

definition dedupedStorage :: "(bytes \<Rightarrow> bytes) \<Rightarrow> (nat \<Rightarrow> nat list) \<Rightarrow> 'w ds_state BlockStorage" where
  "dedupedStorage HashBytes order =
     \<lparr>SetBlock = (\<lambda>i c (ds, w, ts). let (e, ds', w') = ds_SetBlock HashBytes i c ds w in (e, (ds', w', ts))),
      GetBlock = (\<lambda>i (ds, w, ts). let (r, ts', ds', w') = ds_GetBlock i ds w in (r, (ds', w', ts @ ts'))),
      DeleteBlock = (\<lambda>i (ds, w, ts). let (e, ds', w') = ds_DeleteBlock i ds w in (e, (ds', w', ts))),
      Flush = (\<lambda>(ds, w, ts). let (e, ds', w') = ds_Flush (order (length (buckets (ds_lba ds)))) ds w in (e, (ds', w', ts))),
      Close = (\<lambda>(ds, w, ts). let (e, ds', w') = ds_Close ds w in (e, (ds', w', ts)))\<rparr>"

lemma store_inv_same_but:
  assumes "same_but view k w w'" and "\<And>c. c \<in> C \<Longrightarrow> string_of_bytes (H c) \<noteq> k"
  shows "store_inv view route up H C w' = store_inv view route up H C w"
    and "c \<in> C \<Longrightarrow> available view route troute H w' c = available view route troute H w c"
  using str_val_same_but[OF assms(1)] assms(2) by (auto simp: store_inv_def available_def)

lemma refs_inv_same_but:
  assumes "same_but view k w w'" and "\<And>c. c \<in> C \<Longrightarrow> string_of_bytes (H c) \<noteq> k"
  shows "refs_inv view route troute H C bsize m w' = refs_inv view route troute H C bsize m w"
  using store_inv_same_but(2)[OF assms] by (auto simp: refs_inv_def)

lemma refs_inv_mono:
  assumes "refs_inv view route troute H C bsize m w"
    and "\<forall>d \<in> C. available view route troute H w d \<longrightarrow> available view route troute H w' d"
  shows "refs_inv view route troute H C bsize m w'"
  using assms unfolding refs_inv_def by blast

lemma lba_same_but:
  assumes "same_but view k w w'" and "lbaStorageKey vd \<noteq> k"
  shows "lba_psec view route vd w' = lba_psec view route vd w"
    and "lba_ok view route up vd w' = lba_ok view route up vd w"
proof -
  have "route_hash view route (lbaStorageKey vd) w' = route_hash view route (lbaStorageKey vd) w"
    using assms by (auto simp: route_hash_def same_but_def fun_eq_iff split: option.splits)
  moreover have "hash_ok view route up (lbaStorageKey vd) w' = hash_ok view route up (lbaStorageKey vd) w"
    using assms by (auto simp: hash_ok_def same_but_def)
  ultimately show "lba_psec view route vd w' = lba_psec view route vd w"
    and "lba_ok view route up vd w' = lba_ok view route up vd w"
    by (simp_all add: lba_psec_def lba_ok_def fun_eq_iff)
qed

locale dedup = ardb_cluster srv view up cl route members
  for srv :: "'w servers" and view and up and cl and route and members +
  fixes H :: "bytes \<Rightarrow> bytes" and C :: "bytes set" and vd :: string and bsize :: int
    and tc :: "'w StorageCluster option" and troute :: "(int \<Rightarrow> StorageServerConfig option) option"
    and order :: "nat \<Rightarrow> nat list"
  assumes hash_len: "c \<in> C \<Longrightarrow> length (H c) = 32"
    and hash_not_nil: "c \<in> C \<Longrightarrow> H c \<noteq> NilHash"
    and hash_inj: "inj_on H C"
    and zero_in: "replicate (nat bsize) 0 \<in> C"
    and hash_key: "c \<in> C \<Longrightarrow> string_of_bytes (H c) \<noteq> lbaStorageKey vd"
    and template: "tc = Some t \<Longrightarrow> \<exists>r tmembers. troute = Some r \<and> ardb_cluster srv view up t r tmembers"
    and no_template: "tc = None \<Longrightarrow> troute = None"
    and order: "set (order n) = {..<n}"
begin

lemma H_eq: "c \<in> C \<Longrightarrow> d \<in> C \<Longrightarrow> H c = H d \<longleftrightarrow> c = d"
  using hash_inj by (meson inj_on_eq_iff)

lemma H_ne [simp]: "c \<in> C \<Longrightarrow> H c \<noteq> []"
  using hash_len by fastforce

lemma unhash [simp]: "c \<in> C \<Longrightarrow> inv_into C H (H c) = c"
  using hash_inj by simp

lemma setContent_ok:
  assumes "c \<in> C" and "store_inv view route up H C w" and "ds_cluster ds = cl"
    and "\<forall>r. troute = Some r \<longrightarrow> store_inv view r up H C w"
  obtains w' where "ds_setContent ds (H c) c w = (None, w')"
    and "same_but view (string_of_bytes (H c)) w w'" and "store_inv view route up H C w'"
    and "\<forall>r. troute = Some r \<longrightarrow> store_inv view r up H C w'"
    and "\<forall>d \<in> C. d = c \<or> available view route troute H w d \<longrightarrow> available view route troute H w' d"
proof -
  have ok: "str_ok view route up w (H c)" using assms(1,2) by (simp add: store_inv_def)
  from dofor_set[OF ok] obtain r w' s where
    d: "DoFor cl (hash_slot (H c)) (Command Set [ABytes (H c), ABytes c]) w = ((r, None), w')"
    and s: "route (hash_slot (H c)) = Some s"
    and v: "view w' = key_upd (view w) s (string_of_bytes (H c)) (Some (VString c))" by blast
  have val: "str_val view rt w' (H e) = Some e \<or> str_val view rt w' (H e) = str_val view rt w (H e)"
    if "e \<in> C" for rt e using that H_eq[OF that assms(1)] by (auto simp: str_val_upd(1)[OF v])
  have inv: "store_inv view rt up H C w \<Longrightarrow> store_inv view rt up H C w'" for rt
    using val str_val_upd(2)[of view, OF v, of rt up] unfolding store_inv_def by (metis insertCI)
  show thesis
  proof (rule that)
    show "ds_setContent ds (H c) c w = (None, w')"
      using d assms(1,3) by (simp add: ds_setContent_def hash_index_slot reply_Error_def)
    show "same_but view (string_of_bytes (H c)) w w'" by (simp add: same_but_def v)
    show "store_inv view route up H C w'" using inv assms(2) .
    show "\<forall>r. troute = Some r \<longrightarrow> store_inv view r up H C w'" using inv assms(4) by blast
    show "\<forall>d \<in> C. d = c \<or> available view route troute H w d \<longrightarrow> available view route troute H w' d"
      using val s str_val_upd(1)[OF v, of route "H c"] unfolding available_def by metis
  qed
qed

lemma same_but_lba:
  assumes "same_but view (lbaStorageKey vd) w w'"
  shows "store_inv view rt up H C w' = store_inv view rt up H C w"
    and "refs_inv view route troute H C bsize m w' = refs_inv view route troute H C bsize m w"
  by (rule store_inv_same_but(1)[OF assms hash_key] refs_inv_same_but[OF assms hash_key], assumption)+

text \<open>Recording a hash, or its absence, in the LBA.\<close>

lemma lba_set_step:
  assumes inv: "ds_inv view route troute up H C vd bsize cl tc (ds, w, ts)" and i: "0 \<le> i"
    and c: "\<And>x. c = Some x \<Longrightarrow> x \<in> C \<and> int (length x) = bsize \<and> available view route troute H w x"
  obtains lba w' where "LBA_Set (ds_storage ds) (ds_lba ds) i (map_option H c) w = (None, lba, w')"
    and "ds_inv view route troute up H C vd bsize cl tc (ds\<lparr>ds_lba := lba\<rparr>, w', ts)"
    and "ds_content view route H C vd (ds\<lparr>ds_lba := lba\<rparr>, w', ts) = (ds_content view route H C vd (ds, w, ts))(i := c)"
    and "same_but view (lbaStorageKey vd) w w'"
proof -
  let ?m = "lba_map (ds_lba ds) (lba_psec view route vd w)"
  have st: "ds_storage ds = newLBASectorStorage vd cl" using inv by (simp add: ds_inv_def ds_storage_def)
  have lba: "lba_inv (ds_lba ds) (lba_psec view route vd w)" "lba_ok view route up vd w"
    and rf: "refs_inv view route troute H C bsize ?m w" using inv by (simp_all add: ds_inv_def)
  have len: "length (hash_bytes (map_option H c)) = 32"
    using c hash_len by (cases c) (simp_all add: hash_bytes_def)
  from lba.LBA_Set_ok[OF lba i len] obtain lba' w' where
    s: "LBA_Set (newLBASectorStorage vd cl) (ds_lba ds) i (map_option H c) w = (None, lba', w')"
    and l': "lba_inv lba' (lba_psec view route vd w')" "lba_ok view route up vd w'"
    and m': "lba_map lba' (lba_psec view route vd w') = ?m(i := opt_hash (hash_bytes (map_option H c)))" by blast
  have oh: "opt_hash (hash_bytes (map_option H c)) = map_option H c"
    using c hash_not_nil by (cases c) (auto simp: opt_hash_def hash_bytes_def)
  note sb = same_but_lba[OF lba_frame.LBA_Set_frame[OF s]]
  have "refs_inv view route troute H C bsize (?m(i := map_option H c)) w"
    using rf c by (auto simp: refs_inv_def)
  then have "ds_inv view route troute up H C vd bsize cl tc (ds\<lparr>ds_lba := lba'\<rparr>, w', ts)"
    using inv l' by (auto simp: ds_inv_def sb m' oh)
  moreover have "ds_content view route H C vd (ds\<lparr>ds_lba := lba'\<rparr>, w', ts) = (ds_content view route H C vd (ds, w, ts))(i := c)"
    using c unfolding ds_content_def by (cases c) (auto simp: m'[unfolded oh] fun_eq_iff)
  ultimately show thesis using that s st lba_frame.LBA_Set_frame[OF s] by simp
qed

lemma ds_SetBlock_ok:
  assumes inv: "ds_inv view route troute up H C vd bsize cl tc (ds, w, ts)" and i: "0 \<le> i"
    and c: "c \<in> C" "int (length c) = bsize"
  obtains ds' w' where "ds_SetBlock H i c ds w = (None, ds', w')"
    and "ds_inv view route troute up H C vd bsize cl tc (ds', w', ts)"
    and "ds_content view route H C vd (ds', w', ts) = (ds_content view route H C vd (ds, w, ts))(i := stored c)"
proof (cases "all_zero c")
  case True
  then have z: "c = replicate (nat bsize) 0" using c(2) by (metis all_zero_iff nat_int)
  from lba_set_step[OF inv i, of None] obtain lba w' where
    "LBA_Set (ds_storage ds) (ds_lba ds) i None w = (None, lba, w')"
    "ds_inv view route troute up H C vd bsize cl tc (ds\<lparr>ds_lba := lba\<rparr>, w', ts)"
    "ds_content view route H C vd (ds\<lparr>ds_lba := lba\<rparr>, w', ts) = (ds_content view route H C vd (ds, w, ts))(i := None)"
    "same_but view (lbaStorageKey vd) w w'"
    by auto
  with inv show thesis
    by (intro that[of "ds\<lparr>ds_lba := lba\<rparr>" w'])
      (simp_all add: ds_SetBlock_def Hash_Equals_def ds_inv_def z[symmetric] LBA_Delete_def stored_def True)
next
  case False
  then have "c \<noteq> replicate (nat bsize) 0" by (metis all_zero_iff length_replicate)
  then have hz: "\<not> Hash_Equals (ds_zeroContentHash ds) (H c)"
    using inv H_eq[OF zero_in c(1)] by (auto simp: Hash_Equals_def ds_inv_def)
  have si: "store_inv view route up H C w" "\<forall>r. troute = Some r \<longrightarrow> store_inv view r up H C w"
    and cl: "ds_cluster ds = cl" using inv by (auto simp: ds_inv_def)
  obtain w1 where s: "ds_setContent ds (H c) c w = (None, w1)"
    and sb: "same_but view (string_of_bytes (H c)) w w1" and si1: "store_inv view route up H C w1"
    "\<forall>r. troute = Some r \<longrightarrow> store_inv view r up H C w1"
    and av: "\<forall>d \<in> C. d = c \<or> available view route troute H w d \<longrightarrow> available view route troute H w1 d"
    by (rule setContent_ok[OF c(1) si(1) cl si(2)])
  note lb = lba_same_but[of view, OF sb, of vd route]
  have k: "lbaStorageKey vd \<noteq> string_of_bytes (H c)" using hash_key[OF c(1)] by simp
  have inv1: "ds_inv view route troute up H C vd bsize cl tc (ds, w1, ts)"
    using inv si1 refs_inv_mono[of view route troute H C bsize _ w w1] av by (auto simp: ds_inv_def lb[OF k])
  have ct1: "ds_content view route H C vd (ds, w1, ts) = ds_content view route H C vd (ds, w, ts)"
    by (simp add: ds_content_def lb[OF k] fun_eq_iff)
  from lba_set_step[OF inv1 i, of "Some c"] c av obtain lba w' where
    "LBA_Set (ds_storage ds) (ds_lba ds) i (Some (H c)) w1 = (None, lba, w')"
    "ds_inv view route troute up H C vd bsize cl tc (ds\<lparr>ds_lba := lba\<rparr>, w', ts)"
    "ds_content view route H C vd (ds\<lparr>ds_lba := lba\<rparr>, w', ts) = (ds_content view route H C vd (ds, w, ts))(i \<mapsto> c)"
    "same_but view (lbaStorageKey vd) w1 w'"
    by (auto simp: ct1)
  with hz s False show thesis
    by (intro that[of "ds\<lparr>ds_lba := lba\<rparr>" w']) (simp_all add: ds_SetBlock_def stored_def)
qed

text \<open>A step that changes neither the LBA's map nor the keys of the contents.\<close>

lemma lba_read_step:
  assumes inv: "ds_inv view route troute up H C vd bsize cl tc (ds, w, ts)"
    and l': "lba_inv lba' (lba_psec view route vd w')" "lba_ok view route up vd w'"
    and m': "lba_map lba' (lba_psec view route vd w') = lba_map (ds_lba ds) (lba_psec view route vd w)"
    and sb: "same_but view (lbaStorageKey vd) w w'"
  shows "ds_inv view route troute up H C vd bsize cl tc (ds\<lparr>ds_lba := lba'\<rparr>, w', ts)"
    and "ds_content view route H C vd (ds\<lparr>ds_lba := lba'\<rparr>, w', ts) = ds_content view route H C vd (ds, w, ts)"
  using inv l' by (simp_all add: ds_inv_def ds_content_def fun_eq_iff m' same_but_lba[OF sb])

lemma lba_get_step:
  assumes inv: "ds_inv view route troute up H C vd bsize cl tc (ds, w, ts)" and i: "0 \<le> i"
  obtains lba w' where "LBA_Get (ds_storage ds) (ds_lba ds) i w =
      (Inr (lba_map (ds_lba ds) (lba_psec view route vd w) i), lba, w')"
    and "ds_inv view route troute up H C vd bsize cl tc (ds\<lparr>ds_lba := lba\<rparr>, w', ts)"
    and "ds_content view route H C vd (ds\<lparr>ds_lba := lba\<rparr>, w', ts) = ds_content view route H C vd (ds, w, ts)"
    and "lba_map lba (lba_psec view route vd w') = lba_map (ds_lba ds) (lba_psec view route vd w)"
    and "same_but view (lbaStorageKey vd) w w'"
proof -
  have st: "ds_storage ds = newLBASectorStorage vd cl" using inv by (simp add: ds_inv_def ds_storage_def)
  have lba: "lba_inv (ds_lba ds) (lba_psec view route vd w)" "lba_ok view route up vd w"
    using inv by (simp_all add: ds_inv_def)
  from lba.LBA_Get_ok[OF lba i] obtain lba' w' where
    s: "LBA_Get (newLBASectorStorage vd cl) (ds_lba ds) i w =
      (Inr (lba_map (ds_lba ds) (lba_psec view route vd w) i), lba', w')"
    and l': "lba_inv lba' (lba_psec view route vd w')" "lba_ok view route up vd w'"
    and m': "lba_map lba' (lba_psec view route vd w') = lba_map (ds_lba ds) (lba_psec view route vd w)" by blast
  note step = lba_read_step[OF inv l' m' lba_frame.LBA_Get_frame[OF s]]
  with s st m' that lba_frame.LBA_Get_frame[OF s] show thesis by simp
qed

lemma ds_view_cong:
  assumes v: "view w' = view w"
  shows "ds_inv view route troute up H C vd bsize cl tc (ds, w', ts) = ds_inv view route troute up H C vd bsize cl tc (ds, w, ts)"
    and "ds_content view route H C vd (ds, w', ts) = ds_content view route H C vd (ds, w, ts)"
proof -
  show "ds_inv view route troute up H C vd bsize cl tc (ds, w', ts) = ds_inv view route troute up H C vd bsize cl tc (ds, w, ts)"
    by (simp add: ds_inv_def store_inv_def refs_inv_def available_def lba_view_cong[of view, OF v]
        str_view_cong[of view, OF v])
  show "ds_content view route H C vd (ds, w', ts) = ds_content view route H C vd (ds, w, ts)"
    by (rule ext) (simp add: ds_content_def lba_view_cong[of view, OF v])
qed

text \<open>Content that is available is found, in the primary cluster or in the template cluster.\<close>

lemma getContent_ok:
  assumes inv: "ds_inv view route troute up H C vd bsize cl tc (ds, w, ts)" and c: "c \<in> C"
    and av: "available view route troute H w c"
  obtains ts' w' where "ds_getContent ds (H c) w = (Inr (Some c), ts', w')" and "view w' = view w"
    and "\<forall>t \<in> set ts'. snd t \<in> C \<and> fst t = H (snd t)"
    and "str_val view route w (H c) = None \<longrightarrow> ts' = [(H c, c)]"
proof -
  have fs: "ds_cluster ds = cl" "ds_templateCluster ds = tc" using inv by (simp_all add: ds_inv_def)
  have ok: "str_ok view route up w (H c)" and val: "str_val view route w (H c) \<in> {None, Some c}"
    using inv c by (auto simp: ds_inv_def store_inv_def)
  from dofor_get[OF ok] obtain w1 where
    "DoFor cl (hash_slot (H c)) (Command Get [ABytes (H c)]) w = ((opt_bulk (str_val view route w (H c)), None), w1)"
    and v1: "view w1 = view w" by blast
  then have p: "ds_getPrimaryContent ds (H c) w = (Inr (str_val view route w (H c)), w1)"
    using c fs by (auto simp: ds_getPrimaryContent_def hash_index_slot OptBytes_def redis_Bytes_def opt_bulk_def
        split: option.splits)
  show thesis
  proof (cases "str_val view route w (H c)")
    case (Some x)
    then have "x = c" using val by simp
    with Some p v1 show thesis
      by (intro that[of "[]" w1]) (auto simp: ds_getContent_def ds_getPrimaryOrTemplateContent_def split: option.splits)
  next
    case None
    with av obtain r where r: "troute = Some r" "str_val view r w (H c) = Some c" by (auto simp: available_def)
    with no_template obtain t where t: "tc = Some t" by (cases tc) auto
    from template[OF t] r(1) obtain tm where tl: "ardb_cluster srv view up t r tm" by auto
    have okt: "str_ok view r up w1 (H c)"
      using inv c r(1) str_view_cong(2)[of view, OF v1] by (auto simp: ds_inv_def store_inv_def)
    from ardb_cluster.dofor_get[OF tl okt] obtain w2 where
      "DoFor t (hash_slot (H c)) (Command Get [ABytes (H c)]) w1 = ((opt_bulk (str_val view r w1 (H c)), None), w2)"
      and v2: "view w2 = view w1" by blast
    then have "DoFor t (hash_slot (H c)) (Command Get [ABytes (H c)]) w1 = ((RBulk c, None), w2)"
      using r(2) str_view_cong(1)[of view, OF v1] by (simp add: opt_bulk_def)
    then show thesis
      using None p fs t c v1 v2
      by (intro that[of "[(H c, c)]" w2])
        (simp_all add: ds_getContent_def ds_getPrimaryOrTemplateContent_def hash_index_slot OptBytes_def redis_Bytes_def)
  qed
qed

lemma ds_GetBlock_ok:
  assumes inv: "ds_inv view route troute up H C vd bsize cl tc (ds, w, ts)" and i: "0 \<le> i"
  obtains ds' w' ts' where "ds_GetBlock i ds w = (Inr (ds_content view route H C vd (ds, w, ts) i), ts', ds', w')"
    and "ds_inv view route troute up H C vd bsize cl tc (ds', w', ts @ ts')"
    and "ds_content view route H C vd (ds', w', ts @ ts') = ds_content view route H C vd (ds, w, ts)"
    and "same_but view (lbaStorageKey vd) w w'"
proof -
  let ?m = "lba_map (ds_lba ds) (lba_psec view route vd w)"
  obtain lba w1 where g: "LBA_Get (ds_storage ds) (ds_lba ds) i w = (Inr (?m i), lba, w1)"
    and inv1: "ds_inv view route troute up H C vd bsize cl tc (ds\<lparr>ds_lba := lba\<rparr>, w1, ts)"
    and ct1: "ds_content view route H C vd (ds\<lparr>ds_lba := lba\<rparr>, w1, ts) = ds_content view route H C vd (ds, w, ts)"
    and m1: "lba_map lba (lba_psec view route vd w1) = ?m" and sb: "same_but view (lbaStorageKey vd) w w1"
    by (rule lba_get_step[OF inv i])
  show thesis
  proof (cases "?m i")
    case None
    with g inv1 ct1 sb show thesis
      by (intro that[of "[]" "ds\<lparr>ds_lba := lba\<rparr>" w1]) (simp_all add: ds_GetBlock_def ds_content_def)
  next
    case (Some h)
    have "refs_inv view route troute H C bsize ?m w1" using inv1 by (simp add: ds_inv_def m1)
    with Some i obtain c where c: "c \<in> C" "h = H c" "available view route troute H w1 c"
      unfolding refs_inv_def by blast
    obtain ts' w2 where gc: "ds_getContent (ds\<lparr>ds_lba := lba\<rparr>) h w1 = (Inr (Some c), ts', w2)" and v: "view w2 = view w1"
      and tk: "\<forall>t \<in> set ts'. snd t \<in> C \<and> fst t = H (snd t)"
      unfolding c(2) by (rule getContent_ok[OF inv1 c(1,3)])
    have "ds_inv view route troute up H C vd bsize cl tc (ds\<lparr>ds_lba := lba\<rparr>, w2, ts @ ts')"
      using inv1 tk ds_view_cong(1)[OF v, of "ds\<lparr>ds_lba := lba\<rparr>" ts] by (auto simp: ds_inv_def)
    moreover have "ds_content view route H C vd (ds\<lparr>ds_lba := lba\<rparr>, w2, ts @ ts') = ds_content view route H C vd (ds, w, ts)"
      using ct1 ds_view_cong(2)[OF v, of "ds\<lparr>ds_lba := lba\<rparr>" ts] by (simp add: ds_content_def fun_eq_iff)
    moreover have "ds_GetBlock i ds w = (Inr (ds_content view route H C vd (ds, w, ts) i), ts', ds\<lparr>ds_lba := lba\<rparr>, w2)"
      using g Some gc c hash_not_nil[OF c(1)] by (simp add: ds_GetBlock_def ds_content_def Hash_Equals_def)
    moreover have "same_but view (lbaStorageKey vd) w w2" using sb by (simp add: same_but_def v)
    ultimately show thesis using that by blast
  qed
qed

lemma ds_DeleteBlock_ok:
  assumes inv: "ds_inv view route troute up H C vd bsize cl tc (ds, w, ts)" and i: "0 \<le> i"
  obtains ds' w' where "ds_DeleteBlock i ds w = (None, ds', w')"
    and "ds_inv view route troute up H C vd bsize cl tc (ds', w', ts)"
    and "ds_content view route H C vd (ds', w', ts) = (ds_content view route H C vd (ds, w, ts))(i := None)"
    and "same_but view (lbaStorageKey vd) w w'"
proof -
  let ?m = "lba_map (ds_lba ds) (lba_psec view route vd w)"
  obtain lba w1 where g: "LBA_Get (ds_storage ds) (ds_lba ds) i w = (Inr (?m i), lba, w1)"
    and inv1: "ds_inv view route troute up H C vd bsize cl tc (ds\<lparr>ds_lba := lba\<rparr>, w1, ts)"
    and ct1: "ds_content view route H C vd (ds\<lparr>ds_lba := lba\<rparr>, w1, ts) = ds_content view route H C vd (ds, w, ts)"
    and sb: "same_but view (lbaStorageKey vd) w w1" by (rule lba_get_step[OF inv i])
  show thesis
  proof (cases "?m i")
    case None
    with g inv1 ct1 sb show thesis
      by (intro that[of "ds\<lparr>ds_lba := lba\<rparr>" w1]) (auto simp: ds_DeleteBlock_def ds_content_def fun_eq_iff)
  next
    case (Some h)
    from lba_set_step[OF inv1 i, of None] obtain lba' w2 where
      "LBA_Set (ds_storage ds) lba i None w1 = (None, lba', w2)"
      "ds_inv view route troute up H C vd bsize cl tc (ds\<lparr>ds_lba := lba'\<rparr>, w2, ts)"
      "ds_content view route H C vd (ds\<lparr>ds_lba := lba'\<rparr>, w2, ts) = (ds_content view route H C vd (ds, w, ts))(i := None)"
      "same_but view (lbaStorageKey vd) w1 w2"
      by (auto simp: ct1 ds_storage_def)
    moreover from this have "same_but view (lbaStorageKey vd) w w2" using sb by (simp add: same_but_def)
    ultimately show thesis using g Some
      by (intro that[of "ds\<lparr>ds_lba := lba'\<rparr>" w2]) (simp_all add: ds_DeleteBlock_def LBA_Delete_def)
  qed
qed

lemma ds_Flush_ok:
  assumes inv: "ds_inv view route troute up H C vd bsize cl tc (ds, w, ts)"
  obtains ds' w' where "ds_Flush (order (length (buckets (ds_lba ds)))) ds w = (None, ds', w')"
    and "ds_inv view route troute up H C vd bsize cl tc (ds', w', ts)"
    and "ds_content view route H C vd (ds', w', ts) = ds_content view route H C vd (ds, w, ts)"
    and "stored_map (lba_psec view route vd w') = lba_map (ds_lba ds) (lba_psec view route vd w)"
    and "same_but view (lbaStorageKey vd) w w'"
proof -
  have st: "ds_storage ds = newLBASectorStorage vd cl" using inv by (simp add: ds_inv_def ds_storage_def)
  have lba: "lba_inv (ds_lba ds) (lba_psec view route vd w)" "lba_ok view route up vd w"
    using inv by (simp_all add: ds_inv_def)
  from lba.LBA_Flush_ok[OF lba order] obtain lba' w' where
    s: "LBA_Flush (newLBASectorStorage vd cl) (order (length (buckets (ds_lba ds)))) (ds_lba ds) w = (None, lba', w')"
    and l': "lba_ok view route up vd w'" "lba_inv lba' (lba_psec view route vd w')"
    and m': "lba_map lba' (lba_psec view route vd w') = lba_map (ds_lba ds) (lba_psec view route vd w)"
    and sm: "stored_map (lba_psec view route vd w') = lba_map (ds_lba ds) (lba_psec view route vd w)" by blast
  note step = lba_read_step[OF inv l'(2,1) m' lba_frame.LBA_Flush_frame[OF s]]
  with s st sm lba_frame.LBA_Flush_frame[OF s] show thesis
    by (intro that[of "ds\<lparr>ds_lba := lba'\<rparr>" w']) (simp_all add: ds_Flush_def)
qed

text \<open>The tasks that store template content never change what the storage shows.\<close>

lemma ds_run_task_ok:
  assumes inv: "ds_inv view route troute up H C vd bsize cl tc (ds, w, ts @ t # ts')"
  shows "ds_inv view route troute up H C vd bsize cl tc (ds, ds_run_task ds t w, ts @ ts')"
    and "ds_content view route H C vd (ds, ds_run_task ds t w, ts @ ts') = ds_content view route H C vd (ds, w, ts @ t # ts')"
proof -
  obtain c where c: "c \<in> C" "t = (H c, c)" using inv by (cases t) (auto simp: ds_inv_def)
  have si: "store_inv view route up H C w" "\<forall>r. troute = Some r \<longrightarrow> store_inv view r up H C w"
    and cl: "ds_cluster ds = cl" using inv by (auto simp: ds_inv_def)
  obtain w1 where s: "ds_setContent ds (H c) c w = (None, w1)"
    and sb: "same_but view (string_of_bytes (H c)) w w1" and si1: "store_inv view route up H C w1"
    "\<forall>r. troute = Some r \<longrightarrow> store_inv view r up H C w1"
    and av: "\<forall>d \<in> C. d = c \<or> available view route troute H w d \<longrightarrow> available view route troute H w1 d"
    by (rule setContent_ok[OF c(1) si(1) cl si(2)])
  have k: "lbaStorageKey vd \<noteq> string_of_bytes (H c)" using hash_key[OF c(1)] by simp
  note lb = lba_same_but[of view, OF sb k]
  have w1: "ds_run_task ds t w = w1" by (simp add: ds_run_task_def c(2) s)
  show "ds_inv view route troute up H C vd bsize cl tc (ds, ds_run_task ds t w, ts @ ts')"
    unfolding w1 using inv si1 refs_inv_mono[of view route troute H C bsize _ w w1] av by (auto simp: ds_inv_def lb)
  show "ds_content view route H C vd (ds, ds_run_task ds t w, ts @ ts') = ds_content view route H C vd (ds, w, ts @ t # ts')"
    unfolding w1 by (simp add: ds_content_def lb fun_eq_iff)
qed

text \<open>A storage opened on servers that hold consistent data.\<close>

lemma Deduped_open:
  assumes new: "Deduped H vd bsize limit cl tc = Inr ds" and "lba_ok view route up vd w"
    and "store_inv view route up H C w" and "\<forall>r. troute = Some r \<longrightarrow> store_inv view r up H C w"
    and "refs_inv view route troute H C bsize (stored_map (lba_psec view route vd w)) w"
  shows "ds_inv view route troute up H C vd bsize cl tc (ds, w, [])"
    and "ds_content view route H C vd (ds, w, []) i =
           map_option (inv_into C H) (stored_map (lba_psec view route vd w) i)"
proof -
  obtain lim where nl: "NewLBA lim (Some (newLBASectorStorage vd cl)) = Inr (ds_lba ds)"
    and fs: "ds_cluster ds = cl" "ds_templateCluster ds = tc" "ds_vdiskID ds = vd"
      "ds_zeroContentHash ds = H (replicate (nat bsize) 0)"
    using new by (auto simp: Deduped_def Let_def split: sum.splits if_splits)
  note lba = NewLBA_ok(1,2)[OF nl]
  have m: "lba_map (ds_lba ds) f = stored_map f" for f by (simp add: fun_eq_iff lba_map_def stored_map_def lba(2))
  show "ds_inv view route troute up H C vd bsize cl tc (ds, w, [])" using assms(2-5) fs lba(1) by (simp add: ds_inv_def m)
  show "ds_content view route H C vd (ds, w, []) i =
      map_option (inv_into C H) (stored_map (lba_psec view route vd w) i)" by (simp add: ds_content_def m)
qed

lemma Deduped_reopen:
  assumes inv: "ds_inv view route troute up H C vd bsize cl tc (ds, w, ts)"
    and new: "Deduped H vd bsize limit cl tc = Inr ds2"
  obtains ds1 w1 where "ds_Flush (order (length (buckets (ds_lba ds)))) ds w = (None, ds1, w1)"
    and "ds_inv view route troute up H C vd bsize cl tc (ds2, w1, [])"
    and "ds_content view route H C vd (ds2, w1, []) = ds_content view route H C vd (ds, w, ts)"
proof -
  obtain ds1 w1 where fl: "ds_Flush (order (length (buckets (ds_lba ds)))) ds w = (None, ds1, w1)"
    and inv1: "ds_inv view route troute up H C vd bsize cl tc (ds1, w1, ts)"
    and ct1: "ds_content view route H C vd (ds1, w1, ts) = ds_content view route H C vd (ds, w, ts)"
    and sm: "stored_map (lba_psec view route vd w1) = lba_map (ds_lba ds) (lba_psec view route vd w)"
    by (rule ds_Flush_ok[OF inv])
  have r: "refs_inv view route troute H C bsize (stored_map (lba_psec view route vd w1)) w1"
  proof -
    have "lba_map (ds_lba ds1) (lba_psec view route vd w1) = lba_map (ds_lba ds) (lba_psec view route vd w)"
      using fl inv ct1 lba.LBA_Flush_durable(3)[of vd "order (length (buckets (ds_lba ds)))" "ds_lba ds" w] order
      by (auto simp: ds_Flush_def ds_inv_def ds_storage_def Let_def split: prod.splits)
    with inv1 sm show ?thesis by (simp add: ds_inv_def)
  qed
  have o: "lba_ok view route up vd w1" "store_inv view route up H C w1"
    "\<forall>r. troute = Some r \<longrightarrow> store_inv view r up H C w1" using inv1 by (simp_all add: ds_inv_def)
  note op = Deduped_open[OF new o r]
  have "ds_content view route H C vd (ds2, w1, []) = ds_content view route H C vd (ds, w, ts)"
    by (rule ext) (simp only: op(2) sm, simp add: ds_content_def)
  with fl op(1) that show thesis by blast
qed

end

sublocale dedup \<subseteq> deduped: block_storage "dedupedStorage H order" bsize "\<lambda>c. c \<in> C"
  "ds_inv view route troute up H C vd bsize cl tc" "ds_content view route H C vd"
proof (unfold_locales, goal_cases)
  case (1 s i c)
  obtain ds w ts where s: "s = (ds, w, ts)" by (cases s)
  from ds_SetBlock_ok[OF 1(1)[unfolded s] 1(2,4,3)] show ?case
    by (fastforce simp: dedupedStorage_def s)
next
  case (2 s i)
  obtain ds w ts where s: "s = (ds, w, ts)" by (cases s)
  from ds_GetBlock_ok[OF 2(1)[unfolded s] 2(2)] show ?case by (fastforce simp: dedupedStorage_def s)
next
  case (3 s i)
  obtain ds w ts where s: "s = (ds, w, ts)" by (cases s)
  from ds_DeleteBlock_ok[OF 3(1)[unfolded s] 3(2)] show ?case by (fastforce simp: dedupedStorage_def s)
next
  case (4 s)
  obtain ds w ts where s: "s = (ds, w, ts)" by (cases s)
  from ds_Flush_ok[OF 4[unfolded s]] show ?case by (fastforce simp: dedupedStorage_def s)
next
  case (5 s i c)
  obtain ds w ts where s: "s = (ds, w, ts)" by (cases s)
  from 5 obtain h where "lba_map (ds_lba ds) (lba_psec view route vd w) i = Some h" "c = inv_into C H h"
    by (auto simp: ds_content_def s)
  moreover have "refs_inv view route troute H C bsize (lba_map (ds_lba ds) (lba_psec view route vd w)) w"
    using 5(1) by (simp add: ds_inv_def s)
  ultimately show ?case using 5(2) unfolding refs_inv_def by fastforce
qed

section \<open>An instance\<close>

text \<open>
  A hash function for which the assumptions hold, to evaluate examples with: the content after a byte 1,
  padded to 32 bytes, for blocks of 16 bytes.
\<close>

definition pad_hash :: "bytes \<Rightarrow> bytes" where
  "pad_hash c = take 32 (1 # c @ replicate 31 0)"

lemma pad_hash_facts:
  assumes "length c = 16"
  shows "length (pad_hash c) = 32" and "pad_hash c \<noteq> NilHash" and "string_of_bytes (pad_hash c) \<noteq> lbaStorageKey vd"
proof -
  show "length (pad_hash c) = 32" using assms by (simp add: pad_hash_def)
  have h: "pad_hash c = 1 # take 31 (c @ replicate 31 0)" by (simp add: pad_hash_def)
  show "pad_hash c \<noteq> NilHash" by (simp add: h NilHash_def NewHash_def numeral_eq_Suc)
  show "string_of_bytes (pad_hash c) \<noteq> lbaStorageKey vd"
    by (simp add: h string_of_bytes_def lbaStorageKey_def lbaStorageKeyPrefix_def char_of_def)
qed

lemma pad_hash_inj: "inj_on pad_hash {c. length c = 16}"
proof (rule inj_onI, clarsimp)
  fix c d :: bytes
  assume "length c = 16" "length d = 16" "pad_hash c = pad_hash d"
  then have "take 16 (take 31 (c @ replicate 31 0)) = take 16 (take 31 (d @ replicate 31 0))"
    by (simp add: pad_hash_def)
  with \<open>length c = 16\<close> \<open>length d = 16\<close> show "c = d" by simp
qed

interpretation mem_dedup: dedup "mem_srv failing" mem_view "\<lambda>s. s \<notin> failing"
  "Cluster_cluster (mem_srv failing) sched (Rep_valid_cluster vc)" "Cluster_route (Rep_valid_cluster vc)"
  "Cluster_members (Rep_valid_cluster vc)" pad_hash "{c. length c = 16}" vd 16
  "Some (Cluster_cluster (mem_srv failing) sched (Rep_valid_cluster vt))" "Some (Cluster_route (Rep_valid_cluster vt))"
  "\<lambda>n. [0..<n]"
  by unfold_locales (auto simp: pad_hash_facts pad_hash_inj intro: mem_cluster.ardb_cluster_axioms)

end
