(* ===== verification/Non_Deduped.thy ===== *)
theory Non_Deduped
  imports Ardb_Cluster Block_Storage
begin

text \<open>
  The non-deduped storage (\<open>nbd/ardb/storage/nondeduped.go\<close>): block \<open>i\<close> of a vdisk is field \<open>i\<close> of one
  hash, on the server of object index \<open>i\<close>, with an optional template cluster to read missing blocks from.
\<close>

section \<open>The storage\<close>

definition nonDedupedStorageKeyPrefix :: string where "nonDedupedStorageKeyPrefix = ''nondedup:''"

definition nonDedupedStorageKey :: "string \<Rightarrow> string" where
  "nonDedupedStorageKey vdiskID = nonDedupedStorageKeyPrefix @ vdiskID"

record 'w nonDedupedStorage =
  nd_blockSize :: int
  nd_storageKey :: string
  nd_templateStorageKey :: string
  nd_vdiskID :: string
  nd_templateVdiskID :: string
  nd_cluster :: "'w StorageCluster"
  nd_templateCluster :: "'w StorageCluster option"

definition NonDeduped :: "string \<Rightarrow> string \<Rightarrow> int \<Rightarrow> 'w StorageCluster \<Rightarrow> 'w StorageCluster option \<Rightarrow>
    'w nonDedupedStorage result" where
  "NonDeduped vdiskID templateVdiskID blockSize cluster templateCluster =
     (let nondeduped = \<lparr>nd_blockSize = blockSize, nd_storageKey = nonDedupedStorageKey vdiskID,
            nd_templateStorageKey = '''', nd_vdiskID = vdiskID, nd_templateVdiskID = templateVdiskID,
            nd_cluster = cluster, nd_templateCluster = None\<rparr>
      in case templateCluster of
           None \<Rightarrow> Inr nondeduped
         | Some tc \<Rightarrow>
             let tid = (if templateVdiskID = [] then vdiskID else templateVdiskID)
             in Inr (nondeduped\<lparr>nd_templateVdiskID := tid, nd_templateStorageKey := nonDedupedStorageKey tid,
                                nd_templateCluster := Some tc\<rparr>))"

definition nd_SetBlock :: "'w nonDedupedStorage \<Rightarrow> int \<Rightarrow> bytes \<Rightarrow> 'w \<Rightarrow> error option \<times> 'w" where
  "nd_SetBlock ss blockIndex content w =
     (let cmd = (if all_zero content then Command HashDelete [AStr (nd_storageKey ss), AInt blockIndex]
                 else Command HashSet [AStr (nd_storageKey ss), AInt blockIndex, ABytes content]);
          (res, w') = DoFor (nd_cluster ss) blockIndex cmd w
      in (reply_Error res, w'))"

definition nd_DeleteBlock :: "'w nonDedupedStorage \<Rightarrow> int \<Rightarrow> 'w \<Rightarrow> error option \<times> 'w" where
  "nd_DeleteBlock ss blockIndex w =
     (let (res, w') = DoFor (nd_cluster ss) blockIndex
                        (Command HashDelete [AStr (nd_storageKey ss), AInt blockIndex]) w
      in (reply_Error res, w'))"

definition nd_getPrimaryContent :: "'w nonDedupedStorage \<Rightarrow> int \<Rightarrow> 'w \<Rightarrow> bytes option result \<times> 'w" where
  "nd_getPrimaryContent ss blockIndex w =
     (let (res, w') = DoFor (nd_cluster ss) blockIndex
                        (Command HashGet [AStr (nd_storageKey ss), AInt blockIndex]) w
      in (OptBytes res, w'))"

text \<open>
  With a template cluster a missing block is read from there; the goroutine that stores it in the
  primary cluster is a task, the block index and content it will pass to \<open>SetBlock\<close>, which runs at some
  later point. The slice the task stores is also returned to the caller; the tasks here hold the content as it was returned.
\<close>

type_synonym nd_task = "int \<times> bytes"

definition nd_getPrimaryOrTemplateContent :: "'w nonDedupedStorage \<Rightarrow> 'w StorageCluster \<Rightarrow> int \<Rightarrow> 'w \<Rightarrow>
    bytes option result \<times> nd_task list \<times> 'w" where
  "nd_getPrimaryOrTemplateContent ss tc blockIndex w =
     (case nd_getPrimaryContent ss blockIndex w of
        (Inl err, w1) \<Rightarrow> (Inl err, [], w1)
      | (Inr (Some content), w1) \<Rightarrow> (Inr (Some content), [], w1)
      | (Inr None, w1) \<Rightarrow>
          let (res, w2) = DoFor tc blockIndex (Command HashGet [AStr (nd_storageKey ss), AInt blockIndex]) w1
          in case OptBytes res of
               Inl err \<Rightarrow> if err = ErrClusterNotDefined then (Inr None, [], w2) else (Inl err, [], w2)
             | Inr None \<Rightarrow> (Inr None, [], w2)
             | Inr (Some content) \<Rightarrow> (Inr (Some content), [(blockIndex, content)], w2))"

definition nd_GetBlock :: "'w nonDedupedStorage \<Rightarrow> int \<Rightarrow> 'w \<Rightarrow> bytes option result \<times> nd_task list \<times> 'w" where
  "nd_GetBlock ss blockIndex w =
     (case nd_templateCluster ss of
        None \<Rightarrow> (let (r, w') = nd_getPrimaryContent ss blockIndex w in (r, [], w'))
      | Some tc \<Rightarrow> nd_getPrimaryOrTemplateContent ss tc blockIndex w)"

definition nd_Flush :: "'w nonDedupedStorage \<Rightarrow> 'w \<Rightarrow> error option \<times> 'w" where
  "nd_Flush ss w = (None, w)"

definition nd_Close :: "'w nonDedupedStorage \<Rightarrow> 'w \<Rightarrow> error option \<times> 'w" where
  "nd_Close ss w = (None, w)"

text \<open>Running one task: the error is only logged.\<close>

definition nd_run_task :: "'w nonDedupedStorage \<Rightarrow> nd_task \<Rightarrow> 'w \<Rightarrow> 'w" where
  "nd_run_task ss t w = snd (nd_SetBlock ss (fst t) (snd t) w)"

definition nonDedupedStorage :: "'w nonDedupedStorage \<Rightarrow> ('w \<times> nd_task list) BlockStorage" where
  "nonDedupedStorage ss =
     \<lparr>SetBlock = (\<lambda>i c (w, ts). let (e, w') = nd_SetBlock ss i c w in (e, (w', ts))),
      GetBlock = (\<lambda>i (w, ts). let (r, ts', w') = nd_GetBlock ss i w in (r, (w', ts @ ts'))),
      DeleteBlock = (\<lambda>i (w, ts). let (e, w') = nd_DeleteBlock ss i w in (e, (w', ts))),
      Flush = (\<lambda>(w, ts). let (e, w') = nd_Flush ss w in (e, (w', ts))),
      Close = (\<lambda>(w, ts). let (e, w') = nd_Close ss w in (e, (w', ts)))\<rparr>"

section \<open>Correctness without a template\<close>

definition nd_content :: "('w \<Rightarrow> StorageServerConfig \<Rightarrow> string \<Rightarrow> rvalue option) \<Rightarrow>
    (int \<Rightarrow> StorageServerConfig option) \<Rightarrow> string \<Rightarrow> 'w \<times> nd_task list \<Rightarrow> int \<Rightarrow> bytes option" where
  "nd_content view route key st i = route_hash view route key (fst st) i"

definition nd_inv :: "('w \<Rightarrow> StorageServerConfig \<Rightarrow> string \<Rightarrow> rvalue option) \<Rightarrow>
    (int \<Rightarrow> StorageServerConfig option) \<Rightarrow> (StorageServerConfig \<Rightarrow> bool) \<Rightarrow> string \<Rightarrow> int \<Rightarrow> 'w \<times> nd_task list \<Rightarrow> bool" where
  "nd_inv view route up key blockSize st \<longleftrightarrow>
     snd st = [] \<and> hash_ok view route up key (fst st) \<and>
     (\<forall>i c. 0 \<le> i \<longrightarrow> route_hash view route key (fst st) i = Some c \<longrightarrow> int (length c) = blockSize)"

context ardb_cluster
begin

lemma nd_SetBlock_nil:
  assumes "nd_SetBlock ss i c w = (None, w')" and "nd_cluster ss = cl" and "nd_storageKey ss = k"
  shows "route_hash view route k w' = (route_hash view route k w)(i := stored c)"
    and "hash_ok view route up k w \<Longrightarrow> hash_ok view route up k w'"
    and "k' \<noteq> k \<Longrightarrow> view w' s k' = view w s k'"
  using assms(1) unfolding nd_SetBlock_def assms(2,3)
  by (auto simp: stored_def reply_Error_def Let_def split: prod.splits if_splits
      dest: hset_effect hdel_effect)

lemma nd_SetBlock_ok:
  assumes "hash_ok view route up k w" and "0 \<le> i" and "nd_cluster ss = cl" and "nd_storageKey ss = k"
  shows "\<exists>w'. nd_SetBlock ss i c w = (None, w')"
  using dofor_hset_ok[OF assms(1,2), of c] dofor_hdel_ok[OF assms(1,2)] assms(3,4)
  by (auto simp: nd_SetBlock_def reply_Error_def)

lemma nd_SetBlock_error:
  assumes "nd_SetBlock ss i c w = (Some e, w')" and "nd_cluster ss = cl"
  shows "w' = w"
  using assms(1) unfolding nd_SetBlock_def assms(2)
  by (auto simp: reply_Error_def Let_def split: prod.splits if_splits dest: hset_error hdel_error)

lemma nd_DeleteBlock_Set: "nd_DeleteBlock ss i w = nd_SetBlock ss i [] w"
  by (simp add: nd_DeleteBlock_def nd_SetBlock_def)

lemma nd_getPrimaryContent_ok:
  assumes "hash_ok view route up k w" and "0 \<le> i" and "nd_cluster ss = cl" and "nd_storageKey ss = k"
  shows "\<exists>w'. nd_getPrimaryContent ss i w = (Inr (route_hash view route k w i), w') \<and> view w' = view w"
proof -
  from dofor_hget[OF assms(1,2)] obtain w' where
    "DoFor cl i (Command HashGet [AStr k, AInt i]) w = ((opt_bulk (route_hash view route k w i), None), w')"
    and "view w' = view w" by blast
  with assms(3,4) show ?thesis
    by (auto simp: nd_getPrimaryContent_def OptBytes_def redis_Bytes_def opt_bulk_def split: option.splits)
qed

end

sublocale ardb_cluster \<subseteq> nondeduped: block_storage
  "nonDedupedStorage (ss\<lparr>nd_cluster := cl, nd_templateCluster := None\<rparr>)" bsize "\<lambda>_. True"
  "nd_inv view route up (nd_storageKey ss) bsize" "nd_content view route (nd_storageKey ss)"
  for ss bsize
proof (unfold_locales, goal_cases)
  let ?k = "nd_storageKey ss" and ?ss = "ss\<lparr>nd_cluster := cl, nd_templateCluster := None\<rparr>"
  {
    case (1 s i c)
    obtain w where s: "s = (w, [])" and ok: "hash_ok view route up ?k w"
      using 1(1) by (cases s) (auto simp: nd_inv_def)
    obtain w' where w': "nd_SetBlock ?ss i c w = (None, w')" using nd_SetBlock_ok[OF ok 1(2)] by fastforce
    from nd_SetBlock_nil[OF w', of ?k] 1 ok show ?case
      by (auto simp: nonDedupedStorage_def s w' nd_inv_def nd_content_def fun_eq_iff stored_def)
  next
    case (2 s i)
    obtain w where s: "s = (w, [])" and ok: "hash_ok view route up ?k w"
      using 2(1) by (cases s) (auto simp: nd_inv_def)
    from nd_getPrimaryContent_ok[OF ok 2(2), of ?ss] obtain w' where
      "nd_getPrimaryContent ?ss i w = (Inr (route_hash view route ?k w i), w')" and v: "view w' = view w" by auto
    with 2 show ?case
      by (simp add: nonDedupedStorage_def s nd_GetBlock_def nd_inv_def nd_content_def view_cong[of view, OF v] fun_eq_iff)
  next
    case (3 s i)
    obtain w where s: "s = (w, [])" and ok: "hash_ok view route up ?k w"
      using 3(1) by (cases s) (auto simp: nd_inv_def)
    obtain w' where w': "nd_SetBlock ?ss i [] w = (None, w')" using nd_SetBlock_ok[OF ok 3(2)] by fastforce
    from nd_SetBlock_nil[OF w', of ?k] 3 ok show ?case
      by (auto simp: nonDedupedStorage_def s nd_DeleteBlock_Set w' nd_inv_def nd_content_def fun_eq_iff stored_def)
  next
    case (4 s)
    then show ?case by (auto simp: nonDedupedStorage_def nd_Flush_def nd_inv_def)
  next
    case (5 s i c)
    then show ?case by (auto simp: nd_inv_def nd_content_def)
  }
qed

section \<open>Reading through to a template\<close>

lemma nd_GetBlock_template:
  assumes p: "ardb_cluster srv view up cl route members" and t: "ardb_cluster srv view up tc troute tmembers"
    and ok: "hash_ok view route up (nd_storageKey ss) w" "hash_ok view troute up (nd_storageKey ss) w" and i: "0 \<le> i"
    and ss: "nd_cluster ss = cl" "nd_templateCluster ss = Some tc"
    and c: "c = route_hash view route (nd_storageKey ss) w i" and d: "d = route_hash view troute (nd_storageKey ss) w i"
  shows "\<exists>w'. nd_GetBlock ss i w =
      (Inr (if c = None then d else c), (if c = None then map (Pair i) (case d of None \<Rightarrow> [] | Some x \<Rightarrow> [x]) else []), w') \<and>
      view w' = view w"
proof -
  let ?k = "nd_storageKey ss"
  from ardb_cluster.nd_getPrimaryContent_ok[OF p ok(1) i ss(1) refl] obtain w1 where
    g: "nd_getPrimaryContent ss i w = (Inr c, w1)" and v1: "view w1 = view w" by (auto simp: c)
  have ok1: "hash_ok view troute up ?k w1" using ok(2) by (simp add: view_cong(2)[of view, OF v1])
  from ardb_cluster.dofor_hget[OF t ok1 i] obtain w2 where
    h: "DoFor tc i (Command HashGet [AStr ?k, AInt i]) w1 = ((opt_bulk d, None), w2)" and v2: "view w2 = view w1"
    by (auto simp: d view_cong(1)[of view, OF v1])
  show ?thesis
    using g h v1 v2 ss(2)
    by (auto simp: nd_GetBlock_def nd_getPrimaryOrTemplateContent_def OptBytes_def redis_Bytes_def opt_bulk_def Let_def
        split: option.splits)
qed

text \<open>
  A block of zeroes is stored by deleting its field, so with a template cluster the template's content shows
  again.
\<close>

lemma nd_zero_write_shows_template:
  assumes p: "ardb_cluster srv view up cl route members" and t: "ardb_cluster srv view up tc troute tmembers"
    and ok: "hash_ok view route up (nd_storageKey ss) w" "hash_ok view troute up (nd_storageKey ss) w" and i: "0 \<le> i"
    and ss: "nd_cluster ss = cl" "nd_templateCluster ss = Some tc" and z: "all_zero zeros"
    and sep: "set members \<inter> set tmembers = {}" and d: "route_hash view troute (nd_storageKey ss) w i = Some d"
  shows "\<exists>w1 w2. nd_SetBlock ss i zeros w = (None, w1) \<and> nd_GetBlock ss i w1 = (Inr (Some d), [(i, d)], w2)"
proof -
  let ?k = "nd_storageKey ss"
  from ardb_cluster.nd_SetBlock_ok[OF p ok(1) i ss(1) refl] obtain w1 where s: "nd_SetBlock ss i zeros w = (None, w1)" by blast
  note e = ardb_cluster.nd_SetBlock_nil[OF p s ss(1) refl]
  obtain r where "DoFor cl i (Command HashDelete [AStr ?k, AInt i]) w = ((r, None), w1)"
    using s z by (auto simp: nd_SetBlock_def ss(1) reply_Error_def Let_def split: prod.splits)
  then obtain sv h where sv: "route i = Some sv" and v: "view w1 = key_upd (view w) sv ?k (hash_value (h(itoa i := None)))"
    using ardb_cluster.dofor_hdel[OF p, of i ?k w] by auto
  have same: "view w1 s = view w s" if "s \<noteq> sv" for s using that by (simp add: v)
  have svm: "sv \<in> set members" using ardb_cluster.routed[OF p i] sv by auto
  have tr: "\<exists>s \<in> set tmembers. troute j = Some s" if "0 \<le> j" for j using ardb_cluster.routed[OF t that] .
  have okt: "hash_ok view troute up ?k w1"
    unfolding hash_ok_def
  proof (intro allI impI)
    fix j s assume j: "0 \<le> j" "troute j = Some s"
    then have "s \<noteq> sv" using tr[of j] svm sep by auto
    with ok(2) j show "up s \<and> hash_at (view w1 s ?k) \<noteq> None" by (auto simp: hash_ok_def same)
  qed
  have dt: "route_hash view troute ?k w1 i = Some d"
  proof -
    obtain s where s: "troute i = Some s" "s \<in> set tmembers" using tr[OF i] by auto
    then have "s \<noteq> sv" using svm sep by auto
    with d s show ?thesis by (simp add: route_hash_def same)
  qed
  have c0: "route_hash view route ?k w1 i = None" using z by (simp add: e(1) stored_def)
  from nd_GetBlock_template[OF p t e(2)[OF ok(1)] okt i ss refl refl] c0 dt s show ?thesis by auto
qed

text \<open>
  The task that stores a template's content in the primary cluster writes it without looking: when it runs after
  a write of the same block, the write is lost.
\<close>

lemma nd_template_task_loses_write:
  assumes p: "ardb_cluster srv view up cl route members" and t: "ardb_cluster srv view up tc troute tmembers"
    and ok: "hash_ok view route up (nd_storageKey ss) w" "hash_ok view troute up (nd_storageKey ss) w" and i: "0 \<le> i"
    and ss: "nd_cluster ss = cl" "nd_templateCluster ss = Some tc"
    and c: "route_hash view route (nd_storageKey ss) w i = None"
    and d: "route_hash view troute (nd_storageKey ss) w i = Some d" "\<not> all_zero d"
  shows "\<exists>w1 w2 w3. nd_GetBlock ss i w = (Inr (Some d), [(i, d)], w1) \<and> nd_SetBlock ss i new w1 = (None, w2) \<and>
    nd_GetBlock ss i (nd_run_task ss (i, d) w2) = (Inr (Some d), [], w3)"
proof -
  let ?k = "nd_storageKey ss"
  from nd_GetBlock_template[OF p t ok i ss refl refl] c d obtain w1 where
    g: "nd_GetBlock ss i w = (Inr (Some d), [(i, d)], w1)" and v: "view w1 = view w" by auto
  have ok1: "hash_ok view route up ?k w1" using ok(1) by (simp add: view_cong(2)[of view, OF v])
  from ardb_cluster.nd_SetBlock_ok[OF p ok1 i ss(1) refl] obtain w2 where s: "nd_SetBlock ss i new w1 = (None, w2)" by blast
  have ok2: "hash_ok view route up ?k w2" by (rule ardb_cluster.nd_SetBlock_nil(2)[OF p s ss(1) refl ok1])
  from ardb_cluster.nd_SetBlock_ok[OF p ok2 i ss(1) refl] obtain w3 where s3: "nd_SetBlock ss i d w2 = (None, w3)" by blast
  have ok3: "hash_ok view route up ?k w3" by (rule ardb_cluster.nd_SetBlock_nil(2)[OF p s3 ss(1) refl ok2])
  have "route_hash view route ?k w3 i = Some d"
    using d(2) by (simp add: ardb_cluster.nd_SetBlock_nil(1)[OF p s3 ss(1) refl] stored_def)
  with ardb_cluster.nd_getPrimaryContent_ok[OF p ok3 i ss(1) refl] obtain w4 where
    "nd_getPrimaryContent ss i w3 = (Inr (Some d), w4)" by auto
  then have "nd_GetBlock ss i (nd_run_task ss (i, d) w2) = (Inr (Some d), [], w4)"
    by (simp add: nd_GetBlock_def ss(2) nd_getPrimaryOrTemplateContent_def nd_run_task_def s3)
  with g s show ?thesis by blast
qed

end
