(* ===== verification/Bitmap.thy ===== *)
theory Bitmap
  imports Prelude
begin

text \<open>
  The auto-expanding bitmap of \<open>nbd/ardb/storage/bitmap.go\<close>: a \<open>big.Int\<close>, written as its big-endian bytes and
  compressed. \<open>compress/gzip\<close> and the buffer behind a writer are the fields of a record; what is relied on is a locale.
\<close>

text \<open>\<open>big.Int\<close>: the value is a natural number, its bytes are big-endian without leading zeroes.\<close>

fun le_bytes :: "nat \<Rightarrow> bytes" where
  "le_bytes n = (if n = 0 then [] else word_of_nat (n mod 256) # le_bytes (n div 256))"

declare le_bytes.simps [simp del]

definition big_Bytes :: "nat \<Rightarrow> bytes" where
  "big_Bytes n = rev (le_bytes n)"

definition big_SetBytes :: "bytes \<Rightarrow> nat" where
  "big_SetBytes bs = foldl (\<lambda>a b. a * 256 + unat b) 0 bs"

definition newBitMap :: nat where "newBitMap = 0"

text \<open>\<open>big.Int.SetBit\<close> and \<open>Bit\<close> panic on a negative position.\<close>

definition bitMap_Set :: "int \<Rightarrow> nat \<Rightarrow> nat result" where
  "bitMap_Set pos bm = (if pos < 0 then Inl (Panic ''negative bit index'') else Inr (set_bit (nat pos) bm))"

definition bitMap_Unset :: "int \<Rightarrow> nat \<Rightarrow> nat result" where
  "bitMap_Unset pos bm = (if pos < 0 then Inl (Panic ''negative bit index'') else Inr (unset_bit (nat pos) bm))"

definition bitMap_Test :: "int \<Rightarrow> nat \<Rightarrow> bool result" where
  "bitMap_Test pos bm = (if pos < 0 then Inl (Panic ''negative bit index'') else Inr (bit bm (nat pos)))"

text \<open>
  The calls of \<open>compress/gzip\<close>: a writer over a buffer with its \<open>Write\<close> and \<open>Close\<close>, a reader over bytes, and
  \<open>io.Copy\<close> of a reader into a buffer.
\<close>

record ('z, 'r) gzip =
  gz_NewWriter :: 'z
  gz_Write :: "bytes \<Rightarrow> 'z \<Rightarrow> error option \<times> 'z"
  gz_Close :: "'z \<Rightarrow> error option \<times> 'z"
  gz_buf :: "'z \<Rightarrow> bytes"
  gz_NewReader :: "bytes \<Rightarrow> 'r result"
  gz_Multistream :: "bool \<Rightarrow> 'r \<Rightarrow> 'r"
  gz_Copy :: "'r \<Rightarrow> bytes result"

definition bitMap_Bytes :: "('z, 'r) gzip \<Rightarrow> nat \<Rightarrow> bytes result" where
  "bitMap_Bytes gz bm =
     (case gz_Write gz (big_Bytes bm) (gz_NewWriter gz) of
        (Some err, compr) \<Rightarrow> Inl err
      | (None, compr) \<Rightarrow>
          (case gz_Close gz compr of
             (Some err, compr') \<Rightarrow> Inl err
           | (None, compr') \<Rightarrow> Inr (gz_buf gz compr')))"

definition bitMap_SetBytes :: "('z, 'r) gzip \<Rightarrow> bytes \<Rightarrow> nat result" where
  "bitMap_SetBytes gz b =
     (case gz_NewReader gz b of
        Inl err \<Rightarrow> Inl err
      | Inr decomp \<Rightarrow>
          (case gz_Copy gz (gz_Multistream gz False decomp) of
             Inl err \<Rightarrow> Inl err
           | Inr buf \<Rightarrow> Inr (big_SetBytes buf)))"

text \<open>
  What is relied on: writing to memory and closing succeed, and a stream that was closed
  reads back as what was written to it.
\<close>

locale gzip_library =
  fixes gz :: "('z, 'r) gzip"
  assumes gz_write: "\<exists>z. gz_Write gz x (gz_NewWriter gz) = (None, z)"
    and gz_close: "gz_Write gz x (gz_NewWriter gz) = (None, z) \<Longrightarrow> \<exists>z'. gz_Close gz z = (None, z')"
    and gz_read: "gz_Write gz x (gz_NewWriter gz) = (None, z) \<Longrightarrow> gz_Close gz z = (None, z') \<Longrightarrow>
      \<exists>r. gz_NewReader gz (gz_buf gz z') = Inr r \<and> gz_Copy gz (gz_Multistream gz m r) = Inr x"

section \<open>Facts\<close>

lemma big_SetBytes_snoc: "big_SetBytes (bs @ [b]) = big_SetBytes bs * 256 + unat b"
  by (simp add: big_SetBytes_def)

lemma big_bytes_roundtrip [simp]: "big_SetBytes (big_Bytes n) = n"
proof (induction n rule: le_bytes.induct)
  case (1 n)
  show ?case
  proof (cases "n = 0")
    case True then show ?thesis by (simp add: big_Bytes_def le_bytes.simps big_SetBytes_def)
  next
    case False
    have "big_Bytes n = big_Bytes (n div 256) @ [word_of_nat (n mod 256)]"
      using False by (simp add: big_Bytes_def le_bytes.simps[of n])
    moreover have "unat (word_of_nat (n mod 256) :: byte) = n mod 256"
      by (simp add: unat_of_nat)
    ultimately show ?thesis using 1 False by (simp add: big_SetBytes_snoc)
  qed
qed

context gzip_library
begin

lemma bitMap_bytes_roundtrip: "\<exists>bs. bitMap_Bytes gz bm = Inr bs \<and> bitMap_SetBytes gz bs = Inr bm"
proof -
  obtain z where z: "gz_Write gz (big_Bytes bm) (gz_NewWriter gz) = (None, z)" using gz_write by blast
  obtain z' where z': "gz_Close gz z = (None, z')" using gz_close[OF z] by blast
  obtain r where "gz_NewReader gz (gz_buf gz z') = Inr r" "gz_Copy gz (gz_Multistream gz False r) = Inr (big_Bytes bm)"
    using gz_read[OF z z'] by blast
  with z z' show ?thesis by (simp add: bitMap_Bytes_def bitMap_SetBytes_def)
qed

end

text \<open>An instance: a format without compression, whose end is marked when the writer is closed.\<close>

definition plain_gzip :: "(bytes, bytes) gzip" where
  "plain_gzip = \<lparr>gz_NewWriter = [31], gz_Write = (\<lambda>x z. (None, z @ x)), gz_Close = (\<lambda>z. (None, z @ [139])), gz_buf = id,
     gz_NewReader = (\<lambda>b. if b \<noteq> [] \<and> hd b = 31 then Inr (tl b) else Inl (ErrOther ''gzip: invalid header'')),
     gz_Multistream = (\<lambda>m r. r),
     gz_Copy = (\<lambda>r. if r \<noteq> [] \<and> last r = 139 then Inr (butlast r) else Inl (ErrOther ''unexpected EOF''))\<rparr>"

interpretation plain_gzip: gzip_library plain_gzip
  by unfold_locales (auto simp: plain_gzip_def)

lemma bitMap_Test_Set:
  assumes "bitMap_Set p bm = Inr bm'" and "0 \<le> q"
  shows "bitMap_Test q bm' = Inr (q = p \<or> bit bm (nat q))"
  using assms by (auto simp: bitMap_Set_def bitMap_Test_def bit_set_bit_iff split: if_splits)

lemma bitMap_Test_Unset:
  assumes "bitMap_Unset p bm = Inr bm'" and "0 \<le> q"
  shows "bitMap_Test q bm' = Inr (q \<noteq> p \<and> bit bm (nat q))"
  using assms by (auto simp: bitMap_Unset_def bitMap_Test_def bit_unset_bit_iff split: if_splits)

end
