(* ===== verification/Semi_Deduped.thy ===== *)
theory Semi_Deduped
  imports Deduped Non_Deduped Bitmap
begin

text \<open>
  The semi-deduped storage (\<open>nbd/ardb/storage/semideduped.go\<close>): template blocks in a deduped storage, blocks
  written by the user in a non-deduped one, and a bitmap that records which blocks the user has written.
\<close>

definition semiDedupBitMapKeyPrefix :: string where "semiDedupBitMapKeyPrefix = ''semidedup:bitmap:''"

definition semiDedupBitMapKey :: "string \<Rightarrow> string" where
  "semiDedupBitMapKey vdiskID = semiDedupBitMapKeyPrefix @ vdiskID"

record 'w semiDedupedStorage =
  sd_templateStorage :: "'w dedupedStorage"
  sd_userStorage :: "'w nonDedupedStorage"
  sd_cluster :: "'w StorageCluster"
  sd_bitmap :: nat
  sd_vdiskID :: string
  sd_blockSize :: int

definition readBitMap :: "('z, 'r) gzip \<Rightarrow> 'w semiDedupedStorage \<Rightarrow> 'w \<Rightarrow> nat result \<times> 'w" where
  "readBitMap gz sds w =
     (let (res, w') = Do (sd_cluster sds) (Command Get [AStr (semiDedupBitMapKey (sd_vdiskID sds))]) w
      in case Bytes res of Inl err \<Rightarrow> (Inl err, w') | Inr bs \<Rightarrow> (bitMap_SetBytes gz bs, w'))"

definition writeBitMap :: "('z, 'r) gzip \<Rightarrow> 'w semiDedupedStorage \<Rightarrow> 'w \<Rightarrow> error option \<times> 'w" where
  "writeBitMap gz sds w =
     (case bitMap_Bytes gz (sd_bitmap sds) of
        Inl err \<Rightarrow> (Some err, w)
      | Inr bs \<Rightarrow>
          let (res, w') = Do (sd_cluster sds) (Command Set [AStr (semiDedupBitMapKey (sd_vdiskID sds)), ABytes bs]) w
          in (reply_Error res, w'))"

text \<open>A bitmap that cannot be read is logged and left empty.\<close>

definition SemiDeduped :: "(bytes \<Rightarrow> bytes) \<Rightarrow> ('z, 'r) gzip \<Rightarrow> string \<Rightarrow> int \<Rightarrow> int \<Rightarrow>
    'w StorageCluster \<Rightarrow> 'w StorageCluster option \<Rightarrow> 'w \<Rightarrow> 'w semiDedupedStorage result \<times> 'w" where
  "SemiDeduped HashBytes gz vdiskID blockSize lbaCacheLimit cluster templateCluster w =
     (case Deduped HashBytes vdiskID blockSize lbaCacheLimit cluster templateCluster of
        Inl err \<Rightarrow> (Inl err, w)
      | Inr templateStorage \<Rightarrow>
          (case NonDeduped vdiskID '''' blockSize cluster None of
             Inl err \<Rightarrow> (Inl err, w)
           | Inr userStorage \<Rightarrow>
               let storage = \<lparr>sd_templateStorage = templateStorage, sd_userStorage = userStorage,
                     sd_cluster = cluster, sd_bitmap = newBitMap, sd_vdiskID = vdiskID, sd_blockSize = blockSize\<rparr>
               in case readBitMap gz storage w of
                    (Inl err, w') \<Rightarrow> (Inr storage, w')
                  | (Inr bm, w') \<Rightarrow> (Inr (storage\<lparr>sd_bitmap := bm\<rparr>), w')))"

definition sd_SetBlock :: "int \<Rightarrow> bytes \<Rightarrow> 'w semiDedupedStorage \<Rightarrow> 'w \<Rightarrow>
    error option \<times> 'w semiDedupedStorage \<times> 'w" where
  "sd_SetBlock blockIndex content sds w =
     (case nd_SetBlock (sd_userStorage sds) blockIndex content w of
        (Some err, w1) \<Rightarrow> (Some err, sds, w1)
      | (None, w1) \<Rightarrow>
          (case bitMap_Set blockIndex (sd_bitmap sds) of
             Inl p \<Rightarrow> (Some p, sds, w1)
           | Inr bm \<Rightarrow>
               let (err, ds', w2) = ds_DeleteBlock blockIndex (sd_templateStorage sds) w1
               in (None, sds\<lparr>sd_bitmap := bm, sd_templateStorage := ds'\<rparr>, w2)))"

definition sd_GetBlock :: "int \<Rightarrow> 'w semiDedupedStorage \<Rightarrow> 'w \<Rightarrow>
    bytes option result \<times> ds_task list \<times> 'w semiDedupedStorage \<times> 'w" where
  "sd_GetBlock blockIndex sds w =
     (case bitMap_Test blockIndex (sd_bitmap sds) of
        Inl p \<Rightarrow> (Inl p, [], sds, w)
      | Inr True \<Rightarrow> let (r, ts, w') = nd_GetBlock (sd_userStorage sds) blockIndex w in (r, [], sds, w')
      | Inr False \<Rightarrow>
          let (r, ts, ds', w') = ds_GetBlock blockIndex (sd_templateStorage sds) w
          in (r, ts, sds\<lparr>sd_templateStorage := ds'\<rparr>, w'))"

definition sd_DeleteBlock :: "int \<Rightarrow> 'w semiDedupedStorage \<Rightarrow> 'w \<Rightarrow> error option \<times> 'w semiDedupedStorage \<times> 'w" where
  "sd_DeleteBlock blockIndex sds w =
     (let (e1, ds', w1) = ds_DeleteBlock blockIndex (sd_templateStorage sds) w;
          (e2, w2) = nd_DeleteBlock (sd_userStorage sds) blockIndex w1
      in (ErrorSlice_AsError (ErrorSlice_Add (ErrorSlice_Add [] e1) e2), sds\<lparr>sd_templateStorage := ds'\<rparr>, w2))"

definition sd_Flush :: "('z, 'r) gzip \<Rightarrow> nat list \<Rightarrow> 'w semiDedupedStorage \<Rightarrow> 'w \<Rightarrow>
    error option \<times> 'w semiDedupedStorage \<times> 'w" where
  "sd_Flush gz order sds w =
     (let (e1, ds', w1) = ds_Flush order (sd_templateStorage sds) w;
          (e2, w2) = nd_Flush (sd_userStorage sds) w1;
          sds' = sds\<lparr>sd_templateStorage := ds'\<rparr>;
          (e3, w3) = writeBitMap gz sds' w2
      in (ErrorSlice_AsError (ErrorSlice_Add (ErrorSlice_Add (ErrorSlice_Add [] e1) e2) e3), sds', w3))"

definition sd_Close :: "'w semiDedupedStorage \<Rightarrow> 'w \<Rightarrow> error option \<times> 'w semiDedupedStorage \<times> 'w" where
  "sd_Close sds w =
     (let (e1, ds', w1) = ds_Close (sd_templateStorage sds) w;
          (e2, w2) = nd_Close (sd_userStorage sds) w1
      in (ErrorSlice_AsError (ErrorSlice_Add (ErrorSlice_Add [] e1) e2), sds\<lparr>sd_templateStorage := ds'\<rparr>, w2))"

type_synonym 'w sd_state = "'w semiDedupedStorage \<times> 'w \<times> ds_task list"

definition semiDedupedStorage :: "('z, 'r) gzip \<Rightarrow> (nat \<Rightarrow> nat list) \<Rightarrow> 'w sd_state BlockStorage" where
  "semiDedupedStorage gz order =
     \<lparr>SetBlock = (\<lambda>i c (sds, w, ts). let (e, sds', w') = sd_SetBlock i c sds w in (e, (sds', w', ts))),
      GetBlock = (\<lambda>i (sds, w, ts). let (r, ts', sds', w') = sd_GetBlock i sds w in (r, (sds', w', ts @ ts'))),
      DeleteBlock = (\<lambda>i (sds, w, ts). let (e, sds', w') = sd_DeleteBlock i sds w in (e, (sds', w', ts))),
      Flush = (\<lambda>(sds, w, ts). let (e, sds', w') =
                 sd_Flush gz (order (length (buckets (ds_lba (sd_templateStorage sds))))) sds w in (e, (sds', w', ts))),
      Close = (\<lambda>(sds, w, ts). let (e, sds', w') = sd_Close sds w in (e, (sds', w', ts)))\<rparr>"

section \<open>Correctness\<close>

definition sd_content :: "('w \<Rightarrow> StorageServerConfig \<Rightarrow> string \<Rightarrow> rvalue option) \<Rightarrow>
    (int \<Rightarrow> StorageServerConfig option) \<Rightarrow> (bytes \<Rightarrow> bytes) \<Rightarrow> bytes set \<Rightarrow> string \<Rightarrow> 'w sd_state \<Rightarrow> int \<Rightarrow> bytes option" where
  "sd_content view route H C vd st i =
     (case st of (sds, w, ts) \<Rightarrow>
        if i < 0 then None
        else if bit (sd_bitmap sds) (nat i) then route_hash view route (nonDedupedStorageKey vd) w i
        else ds_content view route H C vd (sd_templateStorage sds, w, ts) i)"

definition sd_inv :: "('w \<Rightarrow> StorageServerConfig \<Rightarrow> string \<Rightarrow> rvalue option) \<Rightarrow>
    (int \<Rightarrow> StorageServerConfig option) \<Rightarrow> (int \<Rightarrow> StorageServerConfig option) option \<Rightarrow> (StorageServerConfig \<Rightarrow> bool) \<Rightarrow>
    (bytes \<Rightarrow> bytes) \<Rightarrow> bytes set \<Rightarrow> string \<Rightarrow> int \<Rightarrow> 'w StorageCluster \<Rightarrow> 'w StorageCluster option \<Rightarrow> 'w sd_state \<Rightarrow> bool" where
  "sd_inv view route troute up H C vd bsize cl tc st \<longleftrightarrow>
     (case st of (sds, w, ts) \<Rightarrow>
        ds_inv view route troute up H C vd bsize cl tc (sd_templateStorage sds, w, ts) \<and>
        nd_cluster (sd_userStorage sds) = cl \<and> nd_templateCluster (sd_userStorage sds) = None \<and>
        nd_storageKey (sd_userStorage sds) = nonDedupedStorageKey vd \<and> sd_cluster sds = cl \<and> sd_vdiskID sds = vd \<and>
        hash_ok view route up (nonDedupedStorageKey vd) w \<and>
        (\<forall>i c. 0 \<le> i \<longrightarrow> route_hash view route (nonDedupedStorageKey vd) w i = Some c \<longrightarrow> int (length c) = bsize))"

lemma route_hash_same_but:
  assumes "same_but view k w w'" and "k' \<noteq> k"
  shows "route_hash view route k' w' = route_hash view route k' w" and "hash_ok view route up k' w' = hash_ok view route up k' w"
  using assms by (auto simp: route_hash_def hash_ok_def same_but_def fun_eq_iff split: option.splits)

lemma storage_keys [simp]:
  "nonDedupedStorageKey a \<noteq> lbaStorageKey b" "lbaStorageKey b \<noteq> nonDedupedStorageKey a"
  "semiDedupBitMapKey a \<noteq> lbaStorageKey b" "lbaStorageKey b \<noteq> semiDedupBitMapKey a"
  "nonDedupedStorageKey a \<noteq> semiDedupBitMapKey b" "semiDedupBitMapKey b \<noteq> nonDedupedStorageKey a"
  by (simp_all add: nonDedupedStorageKey_def nonDedupedStorageKeyPrefix_def lbaStorageKey_def
      lbaStorageKeyPrefix_def semiDedupBitMapKey_def semiDedupBitMapKeyPrefix_def)

context dedup
begin

lemma ds_same_but:
  assumes sb: "same_but view k w w'" and k: "lbaStorageKey vd \<noteq> k" "\<And>c. c \<in> C \<Longrightarrow> string_of_bytes (H c) \<noteq> k"
  shows "ds_inv view route troute up H C vd bsize cl tc (ds, w', ts) = ds_inv view route troute up H C vd bsize cl tc (ds, w, ts)"
    and "ds_content view route H C vd (ds, w', ts) = ds_content view route H C vd (ds, w, ts)"
proof -
  note l = lba_same_but[of view, OF sb k(1)]
  show "ds_inv view route troute up H C vd bsize cl tc (ds, w', ts) = ds_inv view route troute up H C vd bsize cl tc (ds, w, ts)"
    using store_inv_same_but(1)[OF sb k(2)] refs_inv_same_but[OF sb k(2)] by (simp add: ds_inv_def l)
  show "ds_content view route H C vd (ds, w', ts) = ds_content view route H C vd (ds, w, ts)"
    by (rule ext) (simp add: ds_content_def l)
qed

end

locale semidedup = dedup srv view up cl route members H C vd bsize tc troute order + gzip_library gz
  for srv :: "'w servers" and view and up and cl and route and members and H and C and vd and bsize and tc and troute and order
    and gz :: "('z, 'r) gzip" +
  assumes hash_key_nd: "c \<in> C \<Longrightarrow> string_of_bytes (H c) \<noteq> nonDedupedStorageKey vd"
    and hash_key_bm: "c \<in> C \<Longrightarrow> string_of_bytes (H c) \<noteq> semiDedupBitMapKey vd"
    and first_up: "members \<noteq> [] \<and> up (hd members)"
begin

lemma nd_step:
  assumes inv: "sd_inv view route troute up H C vd bsize cl tc (sds, w, ts)" and i: "0 \<le> i"
    and c: "c = [] \<or> int (length c) = bsize"
  obtains w' where "nd_SetBlock (sd_userStorage sds) i c w = (None, w')"
    and "sd_inv view route troute up H C vd bsize cl tc (sds, w', ts)"
    and "route_hash view route (nonDedupedStorageKey vd) w' = (route_hash view route (nonDedupedStorageKey vd) w)(i := stored c)"
    and "ds_content view route H C vd (sd_templateStorage sds, w', ts) = ds_content view route H C vd (sd_templateStorage sds, w, ts)"
proof -
  let ?k = "nonDedupedStorageKey vd"
  have u: "nd_cluster (sd_userStorage sds) = cl" "nd_storageKey (sd_userStorage sds) = ?k"
    and ok: "hash_ok view route up ?k w" using inv by (simp_all add: sd_inv_def)
  obtain w' where s: "nd_SetBlock (sd_userStorage sds) i c w = (None, w')"
    using nd_SetBlock_ok[OF ok i u] by blast
  note e = nd_SetBlock_nil[OF s u]
  have sb: "same_but view ?k w w'" using e(3) by (simp add: same_but_def)
  have "lbaStorageKey vd \<noteq> ?k" by simp
  note d = ds_same_but[OF sb this hash_key_nd]
  have "sd_inv view route troute up H C vd bsize cl tc (sds, w', ts)"
    using inv e(2) c by (auto simp: sd_inv_def d(1) e(1) stored_def)
  with s e(1) d(2) that show thesis by blast
qed

lemma ds_step:
  assumes inv: "sd_inv view route troute up H C vd bsize cl tc (sds, w, ts)"
    and ds: "ds_inv view route troute up H C vd bsize cl tc (ds', w', ts')"
    and sb: "same_but view (lbaStorageKey vd) w w'"
  shows "sd_inv view route troute up H C vd bsize cl tc (sds\<lparr>sd_templateStorage := ds', sd_bitmap := bm\<rparr>, w', ts')"
    and "route_hash view route (nonDedupedStorageKey vd) w' = route_hash view route (nonDedupedStorageKey vd) w"
  using inv ds route_hash_same_but[OF sb, of "nonDedupedStorageKey vd"] by (simp_all add: sd_inv_def)

lemma sd_SetBlock_ok:
  assumes inv: "sd_inv view route troute up H C vd bsize cl tc (sds, w, ts)" and i: "0 \<le> i" and c: "int (length c) = bsize"
  shows "\<exists>sds' w'. sd_SetBlock i c sds w = (None, sds', w') \<and>
      sd_inv view route troute up H C vd bsize cl tc (sds', w', ts) \<and>
      sd_content view route H C vd (sds', w', ts) = (sd_content view route H C vd (sds, w, ts))(i := stored c)"
proof -
  obtain w1 where s: "nd_SetBlock (sd_userStorage sds) i c w = (None, w1)"
    and inv1: "sd_inv view route troute up H C vd bsize cl tc (sds, w1, ts)"
    and rh: "route_hash view route (nonDedupedStorageKey vd) w1 = (route_hash view route (nonDedupedStorageKey vd) w)(i := stored c)"
    and ct: "ds_content view route H C vd (sd_templateStorage sds, w1, ts) = ds_content view route H C vd (sd_templateStorage sds, w, ts)"
    using nd_step[OF inv i] c by blast
  have "ds_inv view route troute up H C vd bsize cl tc (sd_templateStorage sds, w1, ts)" using inv1 by (simp add: sd_inv_def)
  from ds_DeleteBlock_ok[OF this i] obtain ds' w2 where
    d: "ds_DeleteBlock i (sd_templateStorage sds) w1 = (None, ds', w2)"
    "ds_inv view route troute up H C vd bsize cl tc (ds', w2, ts)"
    "ds_content view route H C vd (ds', w2, ts) = (ds_content view route H C vd (sd_templateStorage sds, w1, ts))(i := None)"
    "same_but view (lbaStorageKey vd) w1 w2" by blast
  let ?bm = "set_bit (nat i) (sd_bitmap sds)"
  note step = ds_step(1)[OF inv1 d(2,4), of ?bm] ds_step(2)[OF inv1 d(2,4)]
  have "sd_SetBlock i c sds w = (None, sds\<lparr>sd_templateStorage := ds', sd_bitmap := ?bm\<rparr>, w2)"
    using s d(1) i by (simp add: sd_SetBlock_def bitMap_Set_def)
  moreover have "sd_content view route H C vd (sds\<lparr>sd_templateStorage := ds', sd_bitmap := ?bm\<rparr>, w2, ts) =
      (sd_content view route H C vd (sds, w, ts))(i := stored c)"
    using i by (auto simp: sd_content_def fun_eq_iff step(2) rh d(3) ct bit_set_bit_iff)
  ultimately show ?thesis using step(1) by blast
qed

lemma sd_GetBlock_ok:
  assumes inv: "sd_inv view route troute up H C vd bsize cl tc (sds, w, ts)" and i: "0 \<le> i"
  shows "\<exists>sds' w' ts'. sd_GetBlock i sds w = (Inr (sd_content view route H C vd (sds, w, ts) i), ts', sds', w') \<and>
      sd_inv view route troute up H C vd bsize cl tc (sds', w', ts @ ts') \<and>
      sd_content view route H C vd (sds', w', ts @ ts') = sd_content view route H C vd (sds, w, ts)"
proof (cases "bit (sd_bitmap sds) (nat i)")
  case True
  let ?k = "nonDedupedStorageKey vd"
  have u: "nd_cluster (sd_userStorage sds) = cl" "nd_storageKey (sd_userStorage sds) = ?k"
    and ut: "nd_templateCluster (sd_userStorage sds) = None"
    and ok: "hash_ok view route up ?k w" using inv by (simp_all add: sd_inv_def)
  from nd_getPrimaryContent_ok[OF ok i u] obtain w' where
    g: "nd_getPrimaryContent (sd_userStorage sds) i w = (Inr (route_hash view route ?k w i), w')"
    and v: "view w' = view w" by blast
  have "sd_GetBlock i sds w = (Inr (sd_content view route H C vd (sds, w, ts) i), [], sds, w')"
    using True g i ut by (simp add: sd_GetBlock_def bitMap_Test_def nd_GetBlock_def sd_content_def)
  moreover have "sd_inv view route troute up H C vd bsize cl tc (sds, w', ts)"
    using inv by (simp add: sd_inv_def ds_view_cong(1)[OF v] view_cong[of view, OF v])
  moreover have "sd_content view route H C vd (sds, w', ts) = sd_content view route H C vd (sds, w, ts)"
    by (rule ext) (simp add: sd_content_def ds_view_cong(2)[OF v] view_cong[of view, OF v])
  ultimately show ?thesis by auto
next
  case False
  have "ds_inv view route troute up H C vd bsize cl tc (sd_templateStorage sds, w, ts)" using inv by (simp add: sd_inv_def)
  from ds_GetBlock_ok[OF this i] obtain ds' w' ts' where
    d: "ds_GetBlock i (sd_templateStorage sds) w = (Inr (ds_content view route H C vd (sd_templateStorage sds, w, ts) i), ts', ds', w')"
    "ds_inv view route troute up H C vd bsize cl tc (ds', w', ts @ ts')"
    "ds_content view route H C vd (ds', w', ts @ ts') = ds_content view route H C vd (sd_templateStorage sds, w, ts)"
    "same_but view (lbaStorageKey vd) w w'" by blast
  note step = ds_step(1)[OF inv d(2,4), of "sd_bitmap sds"] ds_step(2)[OF inv d(2,4)]
  have "sd_GetBlock i sds w = (Inr (sd_content view route H C vd (sds, w, ts) i), ts', sds\<lparr>sd_templateStorage := ds'\<rparr>, w')"
    using False d(1) i by (simp add: sd_GetBlock_def bitMap_Test_def sd_content_def)
  moreover have "sd_content view route H C vd (sds\<lparr>sd_templateStorage := ds'\<rparr>, w', ts @ ts') = sd_content view route H C vd (sds, w, ts)"
    by (rule ext) (simp add: sd_content_def d(3) step(2))
  ultimately show ?thesis using step(1) by auto
qed

lemma sd_DeleteBlock_ok:
  assumes inv: "sd_inv view route troute up H C vd bsize cl tc (sds, w, ts)" and i: "0 \<le> i"
  shows "\<exists>sds' w'. sd_DeleteBlock i sds w = (None, sds', w') \<and>
      sd_inv view route troute up H C vd bsize cl tc (sds', w', ts) \<and>
      sd_content view route H C vd (sds', w', ts) = (sd_content view route H C vd (sds, w, ts))(i := None)"
proof -
  have "ds_inv view route troute up H C vd bsize cl tc (sd_templateStorage sds, w, ts)" using inv by (simp add: sd_inv_def)
  from ds_DeleteBlock_ok[OF this i] obtain ds' w1 where
    d: "ds_DeleteBlock i (sd_templateStorage sds) w = (None, ds', w1)"
    "ds_inv view route troute up H C vd bsize cl tc (ds', w1, ts)"
    "ds_content view route H C vd (ds', w1, ts) = (ds_content view route H C vd (sd_templateStorage sds, w, ts))(i := None)"
    "same_but view (lbaStorageKey vd) w w1" by blast
  let ?sds = "sds\<lparr>sd_templateStorage := ds'\<rparr>"
  have inv1: "sd_inv view route troute up H C vd bsize cl tc (?sds, w1, ts)"
    using ds_step(1)[OF inv d(2,4), of "sd_bitmap sds"] by simp
  obtain w2 where s: "nd_SetBlock (sd_userStorage ?sds) i [] w1 = (None, w2)"
    and inv2: "sd_inv view route troute up H C vd bsize cl tc (?sds, w2, ts)"
    and rh: "route_hash view route (nonDedupedStorageKey vd) w2 = (route_hash view route (nonDedupedStorageKey vd) w1)(i := stored [])"
    and ct: "ds_content view route H C vd (sd_templateStorage ?sds, w2, ts) = ds_content view route H C vd (sd_templateStorage ?sds, w1, ts)"
    using nd_step[OF inv1 i] by blast
  have "sd_DeleteBlock i sds w = (None, ?sds, w2)"
    using s d(1) by (simp add: sd_DeleteBlock_def nd_DeleteBlock_Set ErrorSlice_Add_def ErrorSlice_AsError_def)
  moreover have "sd_content view route H C vd (?sds, w2, ts) = (sd_content view route H C vd (sds, w, ts))(i := None)"
    using ds_step(2)[OF inv d(2,4)] ct i
    by (auto simp: sd_content_def fun_eq_iff rh d(3) stored_def)
  ultimately show ?thesis using inv2 by blast
qed

lemma writeBitMap_ok:
  assumes "sd_cluster sds = cl" and "sd_vdiskID sds = vd"
  obtains w' bs where "writeBitMap gz sds w = (None, w')" and "bitMap_SetBytes gz bs = Inr (sd_bitmap sds)"
    and "view w' = key_upd (view w) (hd members) (semiDedupBitMapKey vd) (Some (VString bs))"
proof -
  obtain bs where bs: "bitMap_Bytes gz (sd_bitmap sds) = Inr bs" "bitMap_SetBytes gz bs = Inr (sd_bitmap sds)"
    using bitMap_bytes_roundtrip by blast
  have "State (hd members) = Online" using first_up online by simp
  with set_str[of "hd members" "semiDedupBitMapKey vd" bs w] first_up obtain r w' where
    "server_Do srv (hd members) (Command Set [AStr (semiDedupBitMapKey vd), ABytes bs]) w = ((r, None), w')"
    and v: "view w' = key_upd (view w) (hd members) (semiDedupBitMapKey vd) (Some (VString bs))"
    by (auto simp: server_cmd Set_def)
  then have "writeBitMap gz sds w = (None, w')"
    by (simp add: writeBitMap_def bs(1) assms do_first reply_Error_def)
  with bs(2) v that show thesis by blast
qed

lemma sd_Flush_ok:
  assumes inv: "sd_inv view route troute up H C vd bsize cl tc (sds, w, ts)"
  shows "\<exists>sds' w'. sd_Flush gz (order (length (buckets (ds_lba (sd_templateStorage sds))))) sds w = (None, sds', w') \<and>
      sd_inv view route troute up H C vd bsize cl tc (sds', w', ts) \<and>
      sd_content view route H C vd (sds', w', ts) = sd_content view route H C vd (sds, w, ts)"
proof -
  have "ds_inv view route troute up H C vd bsize cl tc (sd_templateStorage sds, w, ts)" using inv by (simp add: sd_inv_def)
  from ds_Flush_ok[OF this] obtain ds' w1 where
    d: "ds_Flush (order (length (buckets (ds_lba (sd_templateStorage sds))))) (sd_templateStorage sds) w = (None, ds', w1)"
    "ds_inv view route troute up H C vd bsize cl tc (ds', w1, ts)"
    "ds_content view route H C vd (ds', w1, ts) = ds_content view route H C vd (sd_templateStorage sds, w, ts)"
    "same_but view (lbaStorageKey vd) w w1" by blast
  let ?sds = "sds\<lparr>sd_templateStorage := ds'\<rparr>" and ?k = "semiDedupBitMapKey vd"
  have inv1: "sd_inv view route troute up H C vd bsize cl tc (?sds, w1, ts)"
    using ds_step(1)[OF inv d(2,4), of "sd_bitmap sds"] by simp
  have "sd_cluster ?sds = cl" "sd_vdiskID ?sds = vd" using inv1 by (simp_all add: sd_inv_def)
  from writeBitMap_ok[OF this] obtain w2 bs where b: "writeBitMap gz ?sds w1 = (None, w2)"
    "view w2 = key_upd (view w1) (hd members) ?k (Some (VString bs))" by metis
  have sb: "same_but view ?k w1 w2" by (simp add: same_but_def b(2))
  have k: "lbaStorageKey vd \<noteq> ?k" by simp
  note dk = ds_same_but[OF sb k hash_key_bm] and rk = route_hash_same_but[OF sb, of "nonDedupedStorageKey vd"]
  have "sd_Flush gz (order (length (buckets (ds_lba (sd_templateStorage sds))))) sds w = (None, ?sds, w2)"
    using d(1) b(1) by (simp add: sd_Flush_def nd_Flush_def ErrorSlice_Add_def ErrorSlice_AsError_def)
  moreover have "sd_inv view route troute up H C vd bsize cl tc (?sds, w2, ts)"
    using inv1 by (simp add: sd_inv_def dk(1) rk)
  moreover have "sd_content view route H C vd (?sds, w2, ts) = sd_content view route H C vd (sds, w, ts)"
    using ds_step(2)[OF inv d(2,4)] by (auto simp: sd_content_def fun_eq_iff dk(2) rk d(3))
  ultimately show ?thesis by blast
qed

text \<open>After a flush, a storage opened anew on the same servers shows the same blocks.\<close>

lemma readBitMap_ok:
  assumes "sd_cluster sds = cl" and "sd_vdiskID sds = vd"
    and "view w (hd members) (semiDedupBitMapKey vd) = Some (VString bs)" and "bitMap_SetBytes gz bs = Inr bm"
  obtains w' where "readBitMap gz sds w = (Inr bm, w')" and "view w' = view w"
proof -
  have "State (hd members) = Online" using first_up online by simp
  with get_str[of "hd members" w "semiDedupBitMapKey vd" "Some bs"] first_up assms(3) obtain w' where
    "server_Do srv (hd members) (Command Get [AStr (semiDedupBitMapKey vd)]) w = ((RBulk bs, None), w')"
    and v: "view w' = view w" by (auto simp: server_cmd Get_def opt_bulk_def)
  then have "readBitMap gz sds w = (Inr bm, w')"
    by (simp add: readBitMap_def assms do_first Bytes_def redis_Bytes_def)
  with v that show thesis by blast
qed

lemma SemiDeduped_reopen:
  assumes inv: "sd_inv view route troute up H C vd bsize cl tc (sds, w, ts)"
    and new: "Deduped H vd bsize limit cl tc = Inr ds2"
  obtains sds1 w1 sds2 w2 where
    "sd_Flush gz (order (length (buckets (ds_lba (sd_templateStorage sds))))) sds w = (None, sds1, w1)"
    and "SemiDeduped H gz vd bsize limit cl tc w1 = (Inr sds2, w2)"
    and "sd_inv view route troute up H C vd bsize cl tc (sds2, w2, [])"
    and "sd_content view route H C vd (sds2, w2, []) = sd_content view route H C vd (sds, w, ts)"
proof -
  let ?k = "semiDedupBitMapKey vd" and ?n = "nonDedupedStorageKey vd"
  have dinv: "ds_inv view route troute up H C vd bsize cl tc (sd_templateStorage sds, w, ts)" using inv by (simp add: sd_inv_def)
  from Deduped_reopen[OF dinv new] obtain ds1 w0 where
    fl: "ds_Flush (order (length (buckets (ds_lba (sd_templateStorage sds))))) (sd_templateStorage sds) w = (None, ds1, w0)"
    and i2: "ds_inv view route troute up H C vd bsize cl tc (ds2, w0, [])"
    and c2: "ds_content view route H C vd (ds2, w0, []) = ds_content view route H C vd (sd_templateStorage sds, w, ts)" by blast
  obtain ds1' w0' where fl': "ds_Flush (order (length (buckets (ds_lba (sd_templateStorage sds))))) (sd_templateStorage sds) w = (None, ds1', w0')"
    and sb: "same_but view (lbaStorageKey vd) w w0'" by (rule ds_Flush_ok[OF dinv])
  have sb0: "same_but view (lbaStorageKey vd) w w0" using sb fl fl' by simp
  let ?sds = "sds\<lparr>sd_templateStorage := ds1\<rparr>"
  have f: "sd_cluster ?sds = cl" "sd_vdiskID ?sds = vd" using inv by (simp_all add: sd_inv_def)
  from writeBitMap_ok[OF f] obtain w1 bs where b: "writeBitMap gz ?sds w0 = (None, w1)"
    "bitMap_SetBytes gz bs = Inr (sd_bitmap sds)"
    "view w1 = key_upd (view w0) (hd members) ?k (Some (VString bs))" by (metis select_convs(4) surjective update_convs(1))
  have sb1: "same_but view ?k w0 w1" by (simp add: same_but_def b(3))
  have flush: "sd_Flush gz (order (length (buckets (ds_lba (sd_templateStorage sds))))) sds w = (None, ?sds, w1)"
    using fl b(1) by (simp add: sd_Flush_def nd_Flush_def ErrorSlice_Add_def ErrorSlice_AsError_def)
  define st where "st = \<lparr>sd_templateStorage = ds2, sd_userStorage = \<lparr>nd_blockSize = bsize, nd_storageKey = ?n,
            nd_templateStorageKey = [], nd_vdiskID = vd, nd_templateVdiskID = [],
            nd_cluster = cl, nd_templateCluster = None\<rparr>, sd_cluster = cl, sd_bitmap = newBitMap, sd_vdiskID = vd, sd_blockSize = bsize\<rparr>"
  have g: "sd_cluster st = cl" "sd_vdiskID st = vd" by (simp_all add: st_def)
  have "view w1 (hd members) ?k = Some (VString bs)" by (simp add: b(3))
  from readBitMap_ok[OF g this b(2)] obtain w2 where r: "readBitMap gz st w1 = (Inr (sd_bitmap sds), w2)"
    and v2: "view w2 = view w1" by blast
  let ?sds2 = "st\<lparr>sd_bitmap := sd_bitmap sds\<rparr>"
  have op: "SemiDeduped H gz vd bsize limit cl tc w1 = (Inr ?sds2, w2)"
    using r by (simp add: SemiDeduped_def new NonDeduped_def st_def Let_def)
  have k: "lbaStorageKey vd \<noteq> ?k" by simp
  note d1 = ds_same_but[OF sb1 k hash_key_bm] and d2 = ds_view_cong[OF v2]
  have rh: "route_hash view route ?n w2 = route_hash view route ?n w" "hash_ok view route up ?n w2 = hash_ok view route up ?n w"
    using route_hash_same_but[OF sb0, of ?n] route_hash_same_but[OF sb1, of ?n] view_cong[of view, OF v2] by simp_all
  have "sd_inv view route troute up H C vd bsize cl tc (?sds2, w2, [])"
    using inv i2 by (simp add: sd_inv_def st_def d1(1) d2(1) rh)
  moreover have "sd_content view route H C vd (?sds2, w2, []) = sd_content view route H C vd (sds, w, ts)"
    by (rule ext) (simp add: sd_content_def st_def d1(2) d2(2) c2 rh(1))
  ultimately show thesis using that flush op by blast
qed

end

sublocale semidedup \<subseteq> semideduped: block_storage "semiDedupedStorage gz order" bsize "\<lambda>_. True"
  "sd_inv view route troute up H C vd bsize cl tc" "sd_content view route H C vd"
proof (unfold_locales, goal_cases)
  case (1 s i c)
  obtain sds w ts where s: "s = (sds, w, ts)" by (cases s)
  from sd_SetBlock_ok[OF 1(1)[unfolded s] 1(2,3)] show ?case by (fastforce simp: semiDedupedStorage_def s)
next
  case (2 s i)
  obtain sds w ts where s: "s = (sds, w, ts)" by (cases s)
  from sd_GetBlock_ok[OF 2(1)[unfolded s] 2(2)] show ?case by (fastforce simp: semiDedupedStorage_def s)
next
  case (3 s i)
  obtain sds w ts where s: "s = (sds, w, ts)" by (cases s)
  from sd_DeleteBlock_ok[OF 3(1)[unfolded s] 3(2)] show ?case by (fastforce simp: semiDedupedStorage_def s)
next
  case (4 s)
  obtain sds w ts where s: "s = (sds, w, ts)" by (cases s)
  from sd_Flush_ok[OF 4[unfolded s]] show ?case by (fastforce simp: semiDedupedStorage_def s)
next
  case (5 s i c)
  obtain sds w ts where s: "s = (sds, w, ts)" by (cases s)
  have ds: "ds_inv view route troute up H C vd bsize cl tc (sd_templateStorage sds, w, ts)"
    using 5(1) by (simp add: sd_inv_def s)
  show ?case
    using 5 deduped.content_length[OF ds 5(2)] by (auto simp: sd_content_def sd_inv_def s split: if_splits)
qed

interpretation mem_semi: semidedup "mem_srv {}" mem_view "\<lambda>s. s \<notin> {}"
  "Cluster_cluster (mem_srv {}) sched (Rep_valid_cluster vc)" "Cluster_route (Rep_valid_cluster vc)"
  "Cluster_members (Rep_valid_cluster vc)" pad_hash "{c. length c = 16}" vd 16
  "Some (Cluster_cluster (mem_srv {}) sched (Rep_valid_cluster vt))" "Some (Cluster_route (Rep_valid_cluster vt))"
  "\<lambda>n. [0..<n]" plain_gzip
proof (unfold_locales, goal_cases)
  case (3)
  show ?case using Rep_valid_cluster[of vc] by (auto simp: cluster_wf_def Cluster_members_def)
qed (auto simp: pad_hash_def string_of_bytes_def nonDedupedStorageKey_def nonDedupedStorageKeyPrefix_def
      semiDedupBitMapKey_def semiDedupBitMapKeyPrefix_def char_of_def)

end
