(* ===== verification/Vdisk_Data.thy ===== *)
theory Vdisk_Data
  imports Semi_Deduped
begin

text \<open>
  Finding, deleting and listing the data of a vdisk on a cluster: the functions of \<open>nondeduped.go\<close>,
  \<open>deduped.go\<close> and \<open>semideduped.go\<close> and their dispatch in \<open>nbd/ardb/storage/storage.go\<close>.
\<close>

section \<open>Sorted slices\<close>

text \<open>\<open>sort.Sort\<close> and \<open>sort.Strings\<close> of the Go library give the sorted permutation.\<close>

definition sortInt64s :: "int list \<Rightarrow> int list" where
  "sortInt64s s = (if length s < 2 then s else sort s)"

text \<open>
  The loop of \<open>dedupInt64s\<close> and \<open>dedupStrings\<close>, which differ in the element type only: \<open>i\<close> is one more than the
  loop variable, the slice is changed in place.
\<close>

fun dedup_loop :: "'a list \<Rightarrow> nat \<Rightarrow> nat \<Rightarrow> 'a list" where
  "dedup_loop s p 0 = drop p s"
| "dedup_loop s p (Suc i) =
     (if s ! p \<noteq> s ! i then dedup_loop (s[p - 1 := s ! i]) (p - 1) i else dedup_loop s p i)"

definition dedupInt64s :: "int list \<Rightarrow> int list" where
  "dedupInt64s s = (let p = int (length s) - 1 in if p \<le> 0 then s else dedup_loop s (nat p) (nat p))"

definition dedupStrings :: "string list \<Rightarrow> string list" where
  "dedupStrings s = (let p = int (length s) - 1 in if p \<le> 0 then s else dedup_loop s (nat p) (nat p))"

lemma remdups_adj_twice: "remdups_adj (xs @ x # x # ys) = remdups_adj (xs @ x # ys)"
proof (induction xs)
  case (Cons a xs)
  then show ?case by (cases xs) (auto simp: remdups_adj_Cons split: list.splits)
qed simp

lemma remdups_adj_Cons_fixed: "remdups_adj K = K \<Longrightarrow> x \<noteq> hd K \<Longrightarrow> remdups_adj (x # K) = x # K"
  by (cases K) simp_all

lemma dedup_loop_remdups:
  assumes "i \<le> p" and "p < length s" and "remdups_adj (drop p s) = drop p s"
  shows "dedup_loop s p i = remdups_adj (take i s @ drop p s)"
  using assms
proof (induction i arbitrary: s p)
  case 0 then show ?case by simp
next
  case (Suc i)
  let ?K = "drop p s" and ?x = "s ! i"
  have K: "?K = s ! p # drop (Suc p) s" using Suc.prems(2) by (simp add: Cons_nth_drop_Suc)
  have t: "take (Suc i) s = take i s @ [?x]" using Suc.prems by (simp add: take_Suc_conv_app_nth)
  show ?case
  proof (cases "s ! p = ?x")
    case True
    have "remdups_adj (take (Suc i) s @ ?K) = remdups_adj (take i s @ ?K)"
      using remdups_adj_twice[of "take i s" ?x "drop (Suc p) s"] by (simp add: t K True)
    with Suc.IH[of p s] Suc.prems True show ?thesis by simp
  next
    case False
    let ?s = "s[p - 1 := ?x]"
    have d: "drop (p - 1) ?s = ?x # ?K"
    proof -
      have "drop (p - 1) ?s = ?s ! (p - 1) # drop p ?s"
        using Suc.prems Cons_nth_drop_Suc[of "p - 1" ?s] by simp
      with Suc.prems show ?thesis by simp
    qed
    have "remdups_adj (?x # ?K) = ?x # ?K"
      using Suc.prems(3) False K by (intro remdups_adj_Cons_fixed) auto
    with Suc.IH[of "p - 1" ?s] Suc.prems False d show ?thesis by (simp add: t)
  qed
qed

lemma dedup_last: "s \<noteq> [] \<Longrightarrow> dedup_loop s (length s - 1) (length s - 1) = remdups_adj s"
proof -
  assume ne: "s \<noteq> []"
  have "drop (length s - 1) s = [last s]"
    using ne by (metis append_butlast_last_id append_eq_conv_conj length_butlast)
  then show ?thesis
    using ne dedup_loop_remdups[of "length s - 1" "length s - 1" s]
      append_take_drop_id[of "length s - 1" s]
    by simp
qed

lemma dedupInt64s_remdups: "dedupInt64s s = remdups_adj s"
proof (cases "length s < 2")
  case True
  then show ?thesis by (cases s rule: remdups_adj.cases) (auto simp: dedupInt64s_def Let_def)
next
  case False
  then show ?thesis using dedup_last[of s] by (cases "s = []") (auto simp: dedupInt64s_def Let_def nat_diff_distrib)
qed

lemma dedupStrings_remdups: "dedupStrings s = remdups_adj s"
proof (cases "length s < 2")
  case True
  then show ?thesis by (cases s rule: remdups_adj.cases) (auto simp: dedupStrings_def Let_def)
next
  case False
  then show ?thesis using dedup_last[of s] by (cases "s = []") (auto simp: dedupStrings_def Let_def nat_diff_distrib)
qed

lemma sortInt64s_sort: "sortInt64s s = sort s"
proof (cases "length s < 2")
  case True
  then show ?thesis by (cases s rule: remdups_adj.cases) (auto simp: sortInt64s_def)
qed (simp add: sortInt64s_def)

lemma sorted_distinct_remdups_adj: "sorted s \<Longrightarrow> distinct (remdups_adj s)" for s :: "'a :: linorder list"
proof (induction s rule: remdups_adj.induct)
  case (3 x y xs)
  then show ?case by (cases "x = y") auto
qed simp_all

section \<open>Asking every server\<close>

text \<open>\<open>Exists\<close> is asked of one server after the other, until one answers yes or fails.\<close>

fun exists_loop :: "'w StorageServer list \<Rightarrow> StorageAction \<Rightarrow> 'w \<Rightarrow> bool result \<times> 'w" where
  "exists_loop [] act w = (Inr False, w)"
| "exists_loop (server # ss) act w =
     (let (res, w') = Server_Do server act w
      in case reply_Bool res of
           Inl err \<Rightarrow> (Inl err, w')
         | Inr ok \<Rightarrow> if ok then (Inr True, w') else exists_loop ss act w')"

text \<open>
  The other functions start one goroutine per server and collect the results as they arrive. The servers act
  in the order of the list; after an error the results still to come are dropped, the actions are not.
\<close>

fun delete_loop :: "'w StorageServer list \<Rightarrow> StorageAction \<Rightarrow> int result \<Rightarrow> 'w \<Rightarrow> int result \<times> 'w" where
  "delete_loop [] act acc w = (acc, w)"
| "delete_loop (server # ss) act acc w =
     (let (res, w') = Server_Do server act w
      in delete_loop ss act
           (case acc of Inl err \<Rightarrow> Inl err
            | Inr n \<Rightarrow> (case reply_Int res of Inl err \<Rightarrow> Inl err | Inr c \<Rightarrow> Inr (n + c))) w')"

fun list_loop :: "'w StorageServer list \<Rightarrow> StorageAction \<Rightarrow> int list result \<Rightarrow> 'w \<Rightarrow> int list result \<times> 'w" where
  "list_loop [] act acc w = (acc, w)"
| "list_loop (server # ss) act acc w =
     (let (res, w') = Server_Do server act w
      in list_loop ss act
           (case acc of Inl err \<Rightarrow> Inl err
            | Inr is \<Rightarrow> (case Int64s res of
                          Inl err \<Rightarrow> if err = ErrNil then Inr is else Inl err
                        | Inr js \<Rightarrow> Inr (is @ js))) w')"

text \<open>\<open>arrive\<close> is the order in which the servers act and answer.\<close>

definition vdisk_exists :: "string \<Rightarrow> 'w StorageCluster \<Rightarrow> 'w \<Rightarrow> bool result \<times> 'w" where
  "vdisk_exists key cluster w =
     (case ServerIterator cluster of Inl err \<Rightarrow> (Inl err, w)
      | Inr ss \<Rightarrow> exists_loop ss (Command Exists [AStr key]) w)"

definition vdisk_delete :: "('w StorageServer list \<Rightarrow> 'w StorageServer list) \<Rightarrow> string \<Rightarrow> 'w StorageCluster \<Rightarrow> 'w \<Rightarrow>
    bool result \<times> 'w" where
  "vdisk_delete arrive key cluster w =
     (case ServerIterator cluster of Inl err \<Rightarrow> (Inl err, w)
      | Inr ss \<Rightarrow>
          let (res, w') = delete_loop (arrive ss) (Command Delete [AStr key]) (Inr 0) w
          in (map_sum id (\<lambda>deleteCount. deleteCount > 0) res, w'))"

definition vdisk_list :: "('w StorageServer list \<Rightarrow> 'w StorageServer list) \<Rightarrow> StorageAction \<Rightarrow> 'w StorageCluster \<Rightarrow> 'w \<Rightarrow>
    int list result \<times> 'w" where
  "vdisk_list arrive act cluster w =
     (case ServerIterator cluster of Inl err \<Rightarrow> (Inl err, w)
      | Inr ss \<Rightarrow> let (res, w') = list_loop (arrive ss) act (Inr []) w in (map_sum id sortInt64s res, w'))"

section \<open>Per storage type\<close>

definition nonDedupedVdiskExists :: "string \<Rightarrow> 'w StorageCluster \<Rightarrow> 'w \<Rightarrow> bool result \<times> 'w" where
  "nonDedupedVdiskExists vdiskID cluster w = vdisk_exists (nonDedupedStorageKey vdiskID) cluster w"

definition deleteNonDedupedData :: "('w StorageServer list \<Rightarrow> 'w StorageServer list) \<Rightarrow> string \<Rightarrow> 'w StorageCluster \<Rightarrow> 'w \<Rightarrow>
    bool result \<times> 'w" where
  "deleteNonDedupedData arrive vdiskID cluster w = vdisk_delete arrive (nonDedupedStorageKey vdiskID) cluster w"

definition listNonDedupedBlockIndices :: "('w StorageServer list \<Rightarrow> 'w StorageServer list) \<Rightarrow> string \<Rightarrow> 'w StorageCluster \<Rightarrow> 'w \<Rightarrow>
    int list result \<times> 'w" where
  "listNonDedupedBlockIndices arrive vdiskID cluster w =
     vdisk_list arrive (Command HashKeys [AStr (nonDedupedStorageKey vdiskID)]) cluster w"

definition dedupedVdiskExists :: "string \<Rightarrow> 'w StorageCluster \<Rightarrow> 'w \<Rightarrow> bool result \<times> 'w" where
  "dedupedVdiskExists vdiskID cluster w = vdisk_exists (lbaStorageKey vdiskID) cluster w"

definition deleteDedupedData :: "('w StorageServer list \<Rightarrow> 'w StorageServer list) \<Rightarrow> string \<Rightarrow> 'w StorageCluster \<Rightarrow> 'w \<Rightarrow>
    bool result \<times> 'w" where
  "deleteDedupedData arrive vdiskID cluster w = vdisk_delete arrive (lbaStorageKey vdiskID) cluster w"

text \<open>
  The indices of a deduped vdisk are computed by a Lua script on the servers. A script is sent by its
  source; the model names the source. What this one returns for the fields and values of the hash, in the order
  the server has them, is \<open>lua_list_indices\<close>: a byte beyond the end of a value is \<open>nil\<close>, which differs from 0.
\<close>

definition listDedupedBlockIndicesScriptSource :: string where
  "listDedupedBlockIndicesScriptSource = ''listDedupedBlockIndicesScriptSource''"

definition lua_nonzero :: "bytes \<Rightarrow> nat \<Rightarrow> bool" where
  "lua_nonzero s i = (if i < length s then s ! i \<noteq> 0 else True)"

definition lua_sector_indices :: "int \<Rightarrow> bytes \<Rightarrow> int list" where
  "lua_sector_indices si s =
     map (\<lambda>hi. si * NumberOfRecordsPerLBASector + int hi)
       (filter (\<lambda>hi. list_ex (lua_nonzero s) [hi * 32..<hi * 32 + 32]) [0..<128])"

fun lua_list_indices :: "(bytes \<times> bytes) list \<Rightarrow> int list result" where
  "lua_list_indices [] = Inr []"
| "lua_list_indices ((f, s) # rest) =
     (case ParseInt f of
        Inl e \<Rightarrow> Inl (ErrReply ''attempt to perform arithmetic on a string value'')
      | Inr si \<Rightarrow> (case lua_list_indices rest of Inl e \<Rightarrow> Inl e | Inr is \<Rightarrow> Inr (lua_sector_indices si s @ is)))"

definition listDedupedBlockIndices :: "('w StorageServer list \<Rightarrow> 'w StorageServer list) \<Rightarrow> string \<Rightarrow> 'w StorageCluster \<Rightarrow> 'w \<Rightarrow>
    int list result \<times> 'w" where
  "listDedupedBlockIndices arrive vdiskID cluster w =
     vdisk_list arrive (StorageScript listDedupedBlockIndicesScriptSource None [AStr (lbaStorageKey vdiskID)]) cluster w"

definition semiDedupedVdiskExists :: "string \<Rightarrow> 'w StorageCluster \<Rightarrow> 'w \<Rightarrow> bool result \<times> 'w" where
  "semiDedupedVdiskExists vdiskID cluster w =
     (case dedupedVdiskExists vdiskID cluster w of
        (Inl err, w1) \<Rightarrow> (Inl err, w1)
      | (Inr True, w1) \<Rightarrow> (Inr True, w1)
      | (Inr False, w1) \<Rightarrow>
          let (res, w2) = Do cluster (Command Exists [AStr (semiDedupBitMapKey vdiskID)]) w1 in (reply_Bool res, w2))"

definition deleteSemiDedupedData :: "('w StorageServer list \<Rightarrow> 'w StorageServer list) \<Rightarrow> string \<Rightarrow> 'w StorageCluster \<Rightarrow> 'w \<Rightarrow>
    bool result \<times> 'w" where
  "deleteSemiDedupedData arrive vdiskID cluster w =
     (case deleteDedupedData arrive vdiskID cluster w of
        (Inl err, w1) \<Rightarrow> (Inl err, w1)
      | (Inr deletedDeduped, w1) \<Rightarrow>
          let (res, w2) = Do cluster (Command Delete [AStr (semiDedupBitMapKey vdiskID)]) w1
          in case reply_Bool res of
               Inl err \<Rightarrow> (Inl err, w2)
             | Inr deleted \<Rightarrow> if \<not> deleted then (Inr deletedDeduped, w2)
                             else deleteNonDedupedData arrive vdiskID cluster w2)"

definition listSemiDedupedBlockIndices :: "('w StorageServer list \<Rightarrow> 'w StorageServer list) \<Rightarrow> string \<Rightarrow> 'w StorageCluster \<Rightarrow> 'w \<Rightarrow>
    int list result \<times> 'w" where
  "listSemiDedupedBlockIndices arrive vdiskID cluster w =
     (case listDedupedBlockIndices arrive vdiskID cluster w of
        (Inl err, w1) \<Rightarrow> (Inl err, w1)
      | (Inr indices, w1) \<Rightarrow>
          (case listNonDedupedBlockIndices arrive vdiskID cluster w1 of
             (Inl err, w2) \<Rightarrow> if err = ErrNil then (Inr (sortInt64s indices), w2) else (Inl err, w2)
           | (Inr ndIndices, w2) \<Rightarrow> (Inr (dedupInt64s (sortInt64s (indices @ ndIndices))), w2)))"

section \<open>Dispatch on the vdisk type\<close>

definition VdiskExistsInCluster :: "string \<Rightarrow> VdiskType \<Rightarrow> 'w StorageCluster \<Rightarrow> 'w \<Rightarrow> bool result \<times> 'w" where
  "VdiskExistsInCluster vdiskID t cluster w =
     (case VdiskType_StorageType t of
        StorageDeduped \<Rightarrow> dedupedVdiskExists vdiskID cluster w
      | StorageNonDeduped \<Rightarrow> nonDedupedVdiskExists vdiskID cluster w
      | StorageSemiDeduped \<Rightarrow> semiDedupedVdiskExists vdiskID cluster w
      | _ \<Rightarrow> (Inl (ErrOther ''not a supported storage type''), w))"

definition tlogMetadataKey :: "string \<Rightarrow> string" where "tlogMetadataKey vdiskID = ''tlog:'' @ vdiskID"

definition DeleteVdiskInCluster :: "('w StorageServer list \<Rightarrow> 'w StorageServer list) \<Rightarrow> string \<Rightarrow> VdiskType \<Rightarrow>
    'w StorageCluster \<Rightarrow> 'w \<Rightarrow> bool result \<times> 'w" where
  "DeleteVdiskInCluster arrive vdiskID t cluster w =
     (case (if TlogSupport t
            then let (res, w') = Do cluster (Command Delete [AStr (tlogMetadataKey vdiskID)]) w in (reply_Bool res, w')
            else (Inr False, w)) of
        (Inl err, w1) \<Rightarrow> (Inl err, w1)
      | (Inr deletedTlogMetadata, w1) \<Rightarrow>
          let (res, w2) =
            (case VdiskType_StorageType t of
               StorageDeduped \<Rightarrow> deleteDedupedData arrive vdiskID cluster w1
             | StorageNonDeduped \<Rightarrow> deleteNonDedupedData arrive vdiskID cluster w1
             | StorageSemiDeduped \<Rightarrow> deleteSemiDedupedData arrive vdiskID cluster w1
             | _ \<Rightarrow> (Inl (ErrOther ''not a supported storage type''), w1))
          in (map_sum id (\<lambda>deletedStorage. deletedTlogMetadata \<or> deletedStorage) res, w2))"

definition ListBlockIndicesInCluster :: "('w StorageServer list \<Rightarrow> 'w StorageServer list) \<Rightarrow> string \<Rightarrow> VdiskType \<Rightarrow>
    'w StorageCluster \<Rightarrow> 'w \<Rightarrow> int list result \<times> 'w" where
  "ListBlockIndicesInCluster arrive vdiskID t cluster w =
     (case VdiskType_StorageType t of
        StorageDeduped \<Rightarrow> listDedupedBlockIndices arrive vdiskID cluster w
      | StorageNonDeduped \<Rightarrow> listNonDedupedBlockIndices arrive vdiskID cluster w
      | StorageSemiDeduped \<Rightarrow> listSemiDedupedBlockIndices arrive vdiskID cluster w
      | _ \<Rightarrow> (Inl (ErrOther ''not a supported storage type''), w))"

section \<open>Correctness\<close>

text \<open>The blocks a non-deduped vdisk has on a server: fields that are decimal block indices.\<close>

definition index_fields :: "(bytes \<rightharpoonup> bytes) \<Rightarrow> bool" where
  "index_fields h \<longleftrightarrow> finite (dom h) \<and> (\<forall>f \<in> dom h. \<exists>i. f = itoa i \<and> - (2 ^ 63) \<le> i \<and> i < 2 ^ 63)"

context ardb_cluster
begin

lemma member_cmd: "s \<in> set members \<Longrightarrow> Server_Do (storageServer srv s) (Command ct args) w = srv s (cmd_name ct) args w"
  by (simp add: storageServer_def server_cmd online)

lemma exists_loop_ok:
  assumes "set ss \<subseteq> set members" and "\<And>s. s \<in> set members \<Longrightarrow> up s"
  shows "\<exists>w'. exists_loop (map (storageServer srv) ss) (Command Exists [AStr k]) w =
                (Inr (\<exists>s \<in> set ss. view w s k \<noteq> None), w') \<and> view w' = view w"
  using assms(1)
proof (induction ss arbitrary: w)
  case (Cons s ss)
  then have s: "s \<in> set members" "up s" using assms(2) by auto
  from exists[OF s(2)] obtain w1 where
    c: "srv s ''EXISTS'' [AStr k] w = ((RInt (if view w s k = None then 0 else 1), None), w1)" and v: "view w1 = view w" by blast
  show ?case
  proof (cases "view w s k = None")
    case True
    with Cons.IH[of w1] Cons.prems c v show ?thesis
      by (auto simp: member_cmd[OF s(1)] Exists_def reply_Bool_def redis_Bool_def)
  next
    case False
    with c v show ?thesis by (auto simp: member_cmd[OF s(1)] Exists_def reply_Bool_def redis_Bool_def)
  qed
qed simp

lemma vdisk_exists_ok:
  assumes "\<And>s. s \<in> set members \<Longrightarrow> up s"
  shows "\<exists>w'. vdisk_exists k cl w = (Inr (\<exists>s \<in> set members. view w s k \<noteq> None), w') \<and> view w' = view w"
  using exists_loop_ok[OF subset_refl assms] by (simp add: vdisk_exists_def iterator)

lemma delete_loop_ok:
  assumes "set ss \<subseteq> set members" and "\<And>s. s \<in> set members \<Longrightarrow> up s"
  shows "\<exists>m w'. delete_loop (map (storageServer srv) ss) (Command Delete [AStr k]) (Inr n) w = (Inr (n + m), w') \<and>
           0 \<le> m \<and> (0 < m \<longleftrightarrow> (\<exists>s \<in> set ss. view w s k \<noteq> None)) \<and>
           view w' = (\<lambda>s k'. if s \<in> set ss \<and> k' = k then None else view w s k')"
  using assms(1)
proof (induction ss arbitrary: n w)
  case (Cons s ss)
  then have s: "s \<in> set members" "up s" using assms(2) by auto
  let ?c = "if view w s k = None then 0 else 1 :: int"
  from del[OF s(2)] obtain w1 where c: "srv s ''DEL'' [AStr k] w = ((RInt ?c, None), w1)"
    and v: "view w1 = key_upd (view w) s k None" by blast
  have sub: "set ss \<subseteq> set members" using Cons.prems by simp
  from Cons.IH[OF sub, of "n + ?c" w1] obtain m w' where
    d: "delete_loop (map (storageServer srv) ss) (Command Delete [AStr k]) (Inr (n + ?c)) w1 = (Inr (n + ?c + m), w')"
    and m: "0 \<le> m" "0 < m \<longleftrightarrow> (\<exists>s \<in> set ss. view w1 s k \<noteq> None)"
    and v': "view w' = (\<lambda>s k'. if s \<in> set ss \<and> k' = k then None else view w1 s k')" by blast
  have "delete_loop (map (storageServer srv) (s # ss)) (Command Delete [AStr k]) (Inr n) w = (Inr (n + (?c + m)), w')"
    using d by (simp add: member_cmd[OF s(1)] Delete_def c reply_Int_def redis_Int64_def add.assoc)
  moreover have "0 < ?c + m \<longleftrightarrow> (\<exists>t \<in> set (s # ss). view w t k \<noteq> None)"
    using m by (auto simp: v split: if_splits) (metis option.distinct(1))
  moreover have "view w' = (\<lambda>t k'. if t \<in> set (s # ss) \<and> k' = k then None else view w t k')"
    by (auto simp: v' v fun_eq_iff)
  moreover have "0 \<le> ?c + m" using m by simp
  ultimately show ?case by blast
qed (auto simp: fun_eq_iff)

lemma vdisk_delete_ok:
  assumes "\<And>s. s \<in> set members \<Longrightarrow> up s" and "arrive (map (storageServer srv) members) = map (storageServer srv) ss"
    and "set ss = set members"
  shows "\<exists>w'. vdisk_delete arrive k cl w = (Inr (\<exists>s \<in> set members. view w s k \<noteq> None), w') \<and>
           view w' = (\<lambda>s k'. if s \<in> set members \<and> k' = k then None else view w s k')"
proof -
  from delete_loop_ok[of ss k 0 w] assms obtain m w' where
    "delete_loop (map (storageServer srv) ss) (Command Delete [AStr k]) (Inr 0) w = (Inr m, w')"
    and "0 < m \<longleftrightarrow> (\<exists>s \<in> set members. view w s k \<noteq> None)"
    and "view w' = (\<lambda>s k'. if s \<in> set members \<and> k' = k then None else view w s k')" by auto
  then show ?thesis by (simp add: vdisk_delete_def iterator assms(2))
qed

lemma list_loop_ok:
  assumes "set ss \<subseteq> set members" and "\<And>s. s \<in> set members \<Longrightarrow> up s"
    and "\<And>s. s \<in> set members \<Longrightarrow> \<exists>h. hash_at (view w s k) = Some h \<and> index_fields h"
  shows "\<exists>js w'. list_loop (map (storageServer srv) ss) (Command HashKeys [AStr k]) (Inr is) w = (Inr (is @ js), w') \<and>
           view w' = view w \<and> set js = {i. \<exists>s \<in> set ss. \<exists>h. hash_at (view w s k) = Some h \<and> itoa i \<in> dom h}"
  using assms(1,3)
proof (induction ss arbitrary: "is" w)
  case (Cons s ss)
  then have s: "s \<in> set members" "up s" using assms(2) by auto
  from Cons.prems(2)[OF s(1)] obtain h where h: "hash_at (view w s k) = Some h" "index_fields h" by blast
  then have fin: "finite (dom h)" by (simp add: index_fields_def)
  from hkeys[OF s(2) h(1) fin] obtain fs w1 where
    c: "srv s ''HKEYS'' [AStr k] w = ((RArr (map RBulk fs), None), w1)" and fs: "set fs = dom h" and v: "view w1 = view w"
    by blast
  define ns where "ns = map (\<lambda>f. SOME i. f = itoa i \<and> - (2 ^ 63) \<le> i \<and> i < 2 ^ 63) fs"
  have ex: "f \<in> set fs \<Longrightarrow> \<exists>i. f = itoa i \<and> - (2 ^ 63) \<le> i \<and> i < 2 ^ 63" for f
    using h(2) fs by (auto simp: index_fields_def)
  have fsn: "fs = map itoa ns" and rng: "\<forall>i \<in> set ns. - (2 ^ 63) \<le> i \<and> i < 2 ^ 63"
    using someI_ex[OF ex] by (auto simp: ns_def intro!: map_idI[symmetric])
  have sc: "scan_int64s (map RBulk fs) = Inr ns" using scan_int64s_itoa[OF rng] by (simp add: fsn comp_def)
  have step: "(case Int64s (RArr (map RBulk fs), None) of Inl err \<Rightarrow> if err = ErrNil then Inr is else Inl err
      | Inr js \<Rightarrow> Inr (is @ js)) = Inr (is @ ns)"
    by (simp add: Int64s_def redis_Values_def sc)
  have sub: "set ss \<subseteq> set members" using Cons.prems(1) by simp
  from Cons.IH[of w1 "is @ ns", OF sub] Cons.prems(2) obtain js w' where
    l: "list_loop (map (storageServer srv) ss) (Command HashKeys [AStr k]) (Inr (is @ ns)) w1 = (Inr (is @ ns @ js), w')"
    and v': "view w' = view w1"
    and js: "set js = {i. \<exists>s \<in> set ss. \<exists>h. hash_at (view w1 s k) = Some h \<and> itoa i \<in> dom h}" by (auto simp: v)
  have "list_loop (map (storageServer srv) (s # ss)) (Command HashKeys [AStr k]) (Inr is) w = (Inr (is @ ns @ js), w')"
    using l step by (simp add: member_cmd[OF s(1)] HashKeys_def c)
  moreover have "set ns = {i. itoa i \<in> dom h}"
  proof -
    have "i \<in> set ns \<longleftrightarrow> itoa i \<in> itoa ` set ns" for i by (auto simp: itoa_inject)
    moreover have "itoa ` set ns = dom h" using fs unfolding fsn by simp
    ultimately show ?thesis by blast
  qed
  ultimately show ?case
    by (intro exI[of _ "ns @ js"] exI[of _ w']) (auto simp: v' v js h(1))
qed auto

lemma listNonDedupedBlockIndices_ok:
  assumes "\<And>s. s \<in> set members \<Longrightarrow> up s"
    and "\<And>s. s \<in> set members \<Longrightarrow> \<exists>h. hash_at (view w s (nonDedupedStorageKey vd)) = Some h \<and> index_fields h"
    and "arrive (map (storageServer srv) members) = map (storageServer srv) ss" and "set ss = set members"
  shows "\<exists>is w'. listNonDedupedBlockIndices arrive vd cl w = (Inr is, w') \<and> view w' = view w \<and> sorted is \<and>
           set is = {i. \<exists>s \<in> set members. \<exists>h. hash_at (view w s (nonDedupedStorageKey vd)) = Some h \<and> itoa i \<in> dom h}"
proof -
  let ?k = "nonDedupedStorageKey vd"
  from list_loop_ok[of ss w ?k "[]"] assms obtain js w' where
    "list_loop (map (storageServer srv) ss) (Command HashKeys [AStr ?k]) (Inr []) w = (Inr js, w')"
    "view w' = view w" "set js = {i. \<exists>s \<in> set members. \<exists>h. hash_at (view w s ?k) = Some h \<and> itoa i \<in> dom h}"
    by auto
  then show ?thesis
    by (simp add: listNonDedupedBlockIndices_def vdisk_list_def iterator assms(3) sortInt64s_sort)
qed

lemma do_delete:
  assumes "up (hd members)"
  shows "\<exists>w'. Do cl (Command Delete [AStr k]) w = ((RInt (if view w (hd members) k = None then 0 else 1), None), w') \<and>
              view w' = key_upd (view w) (hd members) k None"
proof -
  have "members \<noteq> []" using routed[of 0] by auto
  then have "State (hd members) = Online" by (intro online) simp
  with del[OF assms, of k w] show ?thesis by (auto simp: do_first server_cmd Delete_def)
qed

lemma DeleteVdiskInCluster_ok:
  assumes up: "\<And>s. s \<in> set members \<Longrightarrow> up s" and arr: "arrive (map (storageServer srv) members) = map (storageServer srv) ss"
    and ss: "set ss = set members"
    and key: "key = (if VdiskType_StorageType t = StorageDeduped then lbaStorageKey vd else nonDedupedStorageKey vd)"
  shows "\<exists>w1 w2. DeleteVdiskInCluster arrive vd t cl w =
      (Inr ((TlogSupport t \<and> view w (hd members) (tlogMetadataKey vd) \<noteq> None) \<or> (\<exists>s \<in> set members. view w s key \<noteq> None)), w1) \<and>
    VdiskExistsInCluster vd t cl w1 = (Inr False, w2) \<and>
    (\<forall>s k. k \<noteq> key \<longrightarrow> k \<noteq> tlogMetadataKey vd \<longrightarrow> view w1 s k = view w s k)"
proof -
  let ?b = "TlogSupport t \<and> view w (hd members) (tlogMetadataKey vd) \<noteq> None"
  have "members \<noteq> []" using routed[of 0] by auto
  then have hd: "up (hd members)" by (intro up) simp
  have kt: "key \<noteq> tlogMetadataKey vd"
    by (simp add: key tlogMetadataKey_def lbaStorageKey_def lbaStorageKeyPrefix_def nonDedupedStorageKey_def nonDedupedStorageKeyPrefix_def)
  obtain w0 where w0: "(if TlogSupport t
      then let (res, w') = Do cl (Command Delete [AStr (tlogMetadataKey vd)]) w in (reply_Bool res, w')
      else (Inr False, w)) = (Inr ?b, w0)" and v0: "\<And>s k. k \<noteq> tlogMetadataKey vd \<Longrightarrow> view w0 s k = view w s k"
    using do_delete[OF hd, of "tlogMetadataKey vd" w]
    by (cases "TlogSupport t") (auto simp: reply_Bool_def redis_Bool_def Let_def split: if_splits)
  from vdisk_delete_ok[of arrive ss key w0, OF up arr ss] obtain w1 where
    w1: "vdisk_delete arrive key cl w0 = (Inr (\<exists>s \<in> set members. view w0 s key \<noteq> None), w1)"
    and v1: "view w1 = (\<lambda>s k'. if s \<in> set members \<and> k' = key then None else view w0 s k')" by auto
  from vdisk_exists_ok[of key w1, OF up] v1 obtain w2 where w2: "vdisk_exists key cl w1 = (Inr False, w2)" by auto
  have "VdiskType_StorageType t = StorageDeduped \<or> VdiskType_StorageType t = StorageNonDeduped"
    by (simp add: VdiskType_StorageType_def)
  then have "DeleteVdiskInCluster arrive vd t cl w = (Inr (?b \<or> (\<exists>s \<in> set members. view w0 s key \<noteq> None)), w1)"
    and "VdiskExistsInCluster vd t cl w1 = (Inr False, w2)"
    using w1 w2 by (auto simp: DeleteVdiskInCluster_def w0 deleteDedupedData_def deleteNonDedupedData_def key
        VdiskExistsInCluster_def dedupedVdiskExists_def nonDedupedVdiskExists_def)
  then show ?thesis using v0 v1 kt by auto
qed

end

end
