(* ===== verification/Storage_Factory.thy ===== *)
theory Storage_Factory
  imports Semi_Deduped
begin

text \<open>
  \<open>BlockStorageConfig\<close> and \<open>NewBlockStorage\<close> (\<open>nbd/ardb/storage/storage.go\<close>): which storage a vdisk type gets.
\<close>

record BlockStorageConfig =
  VdiskID :: string
  bc_TemplateVdiskID :: string
  bc_VdiskType :: VdiskType
  bc_BlockSize :: int
  LBACacheLimit :: int

definition BlockStorageConfig_Validate :: "BlockStorageConfig option \<Rightarrow> error option" where
  "BlockStorageConfig_Validate c =
     (case c of None \<Rightarrow> None
      | Some cfg \<Rightarrow>
          (case VdiskType_Validate (bc_VdiskType cfg) of
             Some err \<Rightarrow> Some err
           | None \<Rightarrow> if \<not> ValidateBlockSize (bc_BlockSize cfg) then Some (ErrOther ''invalid block size size'') else None))"

datatype 'w block_storage_object =
    DedupedObject "'w dedupedStorage"
  | NonDedupedObject "'w nonDedupedStorage"
  | SemiDedupedObject "'w semiDedupedStorage"

definition NewBlockStorage :: "(bytes \<Rightarrow> bytes) \<Rightarrow> ('z, 'r) gzip \<Rightarrow> BlockStorageConfig \<Rightarrow>
    'w StorageCluster \<Rightarrow> 'w StorageCluster option \<Rightarrow> 'w \<Rightarrow> 'w block_storage_object result \<times> 'w" where
  "NewBlockStorage HashBytes gz cfg cluster templateCluster w =
     (case BlockStorageConfig_Validate (Some cfg) of
        Some err \<Rightarrow> (Inl err, w)
      | None \<Rightarrow>
          let vdiskType = bc_VdiskType cfg;
              templateCluster = (if \<not> TemplateSupport vdiskType then None else templateCluster)
          in case VdiskType_StorageType vdiskType of
               StorageDeduped \<Rightarrow>
                 (map_sum id DedupedObject
                    (Deduped HashBytes (VdiskID cfg) (bc_BlockSize cfg) (LBACacheLimit cfg) cluster templateCluster), w)
             | StorageNonDeduped \<Rightarrow>
                 (map_sum id NonDedupedObject
                    (NonDeduped (VdiskID cfg) (bc_TemplateVdiskID cfg) (bc_BlockSize cfg) cluster templateCluster), w)
             | StorageSemiDeduped \<Rightarrow>
                 (let (r, w') = SemiDeduped HashBytes gz (VdiskID cfg) (bc_BlockSize cfg) (LBACacheLimit cfg)
                                  cluster templateCluster w
                  in (map_sum id SemiDedupedObject r, w'))
             | _ \<Rightarrow> (Inl (ErrOther ''no block storage available''), w))"

lemma BlockStorageConfig_Validate_ok:
  "BlockStorageConfig_Validate (Some cfg) = None \<longleftrightarrow>
     VdiskType_Validate (bc_VdiskType cfg) = None \<and> ValidateBlockSize (bc_BlockSize cfg)"
  by (auto simp: BlockStorageConfig_Validate_def split: option.splits)

lemma valid_vdisk_types:
  "VdiskType_Validate t = None \<Longrightarrow> t \<in> {VdiskTypeBoot, VdiskTypeDB, VdiskTypeCache, VdiskTypeTmp}"
  by (auto simp: VdiskType_Validate_def split: if_splits)

lemma NewBlockStorage_type:
  assumes "NewBlockStorage HashBytes gz cfg cluster templateCluster w = (Inr obj, w')"
  shows "w' = w" and "ValidateBlockSize (bc_BlockSize cfg)"
    and "bc_VdiskType cfg = VdiskTypeBoot \<Longrightarrow> \<exists>ds. obj = DedupedObject ds \<and> ds_templateCluster ds = templateCluster"
    and "bc_VdiskType cfg = VdiskTypeDB \<Longrightarrow> \<exists>ss. obj = NonDedupedObject ss \<and> nd_templateCluster ss = templateCluster"
    and "bc_VdiskType cfg \<in> {VdiskTypeCache, VdiskTypeTmp} \<Longrightarrow> \<exists>ss. obj = NonDedupedObject ss \<and> nd_templateCluster ss = None"
proof -
  have ok: "BlockStorageConfig_Validate (Some cfg) = None"
    using assms by (auto simp: NewBlockStorage_def split: option.splits)
  then have v: "VdiskType_Validate (bc_VdiskType cfg) = None" and bs: "ValidateBlockSize (bc_BlockSize cfg)"
    by (simp_all add: BlockStorageConfig_Validate_ok)
  note types = valid_vdisk_types[OF v]
  show "ValidateBlockSize (bc_BlockSize cfg)" by (rule bs)
  note [simp] = VdiskType_StorageType_def TemplateSupport_def prop_defs vdisk_types
  show "w' = w"
    using assms types ok by (auto simp: NewBlockStorage_def Let_def)
  show "\<exists>ds. obj = DedupedObject ds \<and> ds_templateCluster ds = templateCluster" if "bc_VdiskType cfg = VdiskTypeBoot"
    using assms that ok by (auto simp: NewBlockStorage_def Let_def Deduped_def split: sum.splits if_splits)
  show "\<exists>ss. obj = NonDedupedObject ss \<and> nd_templateCluster ss = templateCluster" if "bc_VdiskType cfg = VdiskTypeDB"
    using assms that ok by (auto simp: NewBlockStorage_def Let_def NonDeduped_def split: option.splits)
  show "\<exists>ss. obj = NonDedupedObject ss \<and> nd_templateCluster ss = None" if "bc_VdiskType cfg \<in> {VdiskTypeCache, VdiskTypeTmp}"
    using assms that ok by (auto simp: NewBlockStorage_def Let_def NonDeduped_def split: option.splits)
qed

end
