(* ===== verification/Backend.thy ===== *)
theory Backend
  imports Block_Storage
begin

text \<open>
  The NBD backend of a vdisk (\<open>nbd/nbdserver/backend.go\<close>): reads and writes of byte ranges inside one block,
  on top of a block storage. The statistics logger, the closer and the SIGTERM thread are not part of the model.
\<close>

section \<open>The backend\<close>

record backend =
  be_vdiskID :: string
  be_blockSize :: int
  be_size :: uint64

text \<open>\<open>copy(dst[off:], src)\<close>; a slice expression beyond the end panics.\<close>

definition copy_at :: "bytes \<Rightarrow> int \<Rightarrow> bytes \<Rightarrow> bytes result" where
  "copy_at dst off src =
     (if off < 0 \<or> int (length dst) < off then Inl (Panic ''slice bounds out of range'')
      else Inr (take (nat off) dst @ go_copy (drop (nat off) dst) src))"

text \<open>\<open>mergedContent, _ := ab.storage.GetBlock(blockIndex)\<close>: an error counts as no content.\<close>

definition backend_merge :: "'s BlockStorage \<Rightarrow> backend \<Rightarrow> int \<Rightarrow> int \<Rightarrow> bytes \<Rightarrow> 's \<Rightarrow> error option \<times> 's" where
  "backend_merge bs ab blockIndex offset content s =
     (let (res, s1) = GetBlock bs blockIndex s;
          mergedContent = (case res of Inr (Some c) \<Rightarrow> c | _ \<Rightarrow> []);
          ocl = int (length mergedContent);
          mergedContent = (if ocl = 0 then replicate (nat (be_blockSize ab)) 0
                           else if ocl < be_blockSize ab then go_copy (replicate (nat (be_blockSize ab)) 0) mergedContent
                           else mergedContent)
      in case copy_at mergedContent offset content of
           Inl p \<Rightarrow> (Some p, s1)
         | Inr c \<Rightarrow> SetBlock bs blockIndex c s1)"

fun zero_range :: "bytes \<Rightarrow> int \<Rightarrow> nat \<Rightarrow> bytes result" where
  "zero_range c i 0 = Inr c"
| "zero_range c i (Suc n) =
     (if i < 0 \<or> int (length c) \<le> i then Inl (Panic ''index out of range'')
      else zero_range (c[nat i := 0]) (i + 1) n)"

definition backend_mergeZeroes :: "'s BlockStorage \<Rightarrow> backend \<Rightarrow> int \<Rightarrow> int \<Rightarrow> int \<Rightarrow> 's \<Rightarrow> error option \<times> 's" where
  "backend_mergeZeroes bs ab blockIndex offset len s =
     (case GetBlock bs blockIndex s of
        (Inl err, s1) \<Rightarrow> (Some err, s1)
      | (Inr None, s1) \<Rightarrow> (None, s1)
      | (Inr (Some mergedContent), s1) \<Rightarrow>
          (case zero_range mergedContent offset (nat len) of
             Inl p \<Rightarrow> (Some p, s1)
           | Inr c \<Rightarrow> SetBlock bs blockIndex c s1))"

definition WriteAt :: "'s BlockStorage \<Rightarrow> backend \<Rightarrow> bytes \<Rightarrow> int \<Rightarrow> 's \<Rightarrow> int result \<times> 's" where
  "WriteAt bs ab b offset s =
     (if be_blockSize ab = 0 then (Inl (Panic ''integer divide by zero''), s)
      else let blockIndex = offset sdiv be_blockSize ab;
               offsetInsideBlock = offset smod be_blockSize ab;
               len = int (length b);
               (err, s') = (if offsetInsideBlock = 0 \<and> len = be_blockSize ab then SetBlock bs blockIndex b s
                            else backend_merge bs ab blockIndex offsetInsideBlock b s)
           in case err of Some e \<Rightarrow> (Inl e, s') | None \<Rightarrow> (Inr len, s'))"

definition WriteZeroesAt :: "'s BlockStorage \<Rightarrow> backend \<Rightarrow> int \<Rightarrow> int \<Rightarrow> 's \<Rightarrow> int result \<times> 's" where
  "WriteZeroesAt bs ab offset len s =
     (if be_blockSize ab = 0 then (Inl (Panic ''integer divide by zero''), s)
      else let blockIndex = offset sdiv be_blockSize ab;
               offsetInsideBlock = offset smod be_blockSize ab;
               (err, s') = (if offsetInsideBlock = 0 \<and> len = be_blockSize ab then DeleteBlock bs blockIndex s
                            else backend_mergeZeroes bs ab blockIndex offsetInsideBlock len s)
           in case err of Some e \<Rightarrow> (Inl e, s') | None \<Rightarrow> (Inr len, s'))"

definition ReadAt :: "'s BlockStorage \<Rightarrow> backend \<Rightarrow> int \<Rightarrow> int \<Rightarrow> 's \<Rightarrow> bytes result \<times> 's" where
  "ReadAt bs ab offset len s =
     (if be_blockSize ab = 0 then (Inl (Panic ''integer divide by zero''), s)
      else case GetBlock bs (offset sdiv be_blockSize ab) s of
        (Inl err, s') \<Rightarrow> (Inl err, s')
      | (Inr content, s') \<Rightarrow>
          let payload = (case content of None \<Rightarrow> [] | Some c \<Rightarrow> c);
              offsetInsideBlock = offset smod be_blockSize ab;
              contentLength = int (length payload);
              totalLength = offsetInsideBlock + len
          in if totalLength \<le> contentLength then
               (if offsetInsideBlock < 0 \<or> totalLength < offsetInsideBlock then (Inl (Panic ''slice bounds out of range''), s')
                else (Inr (take (nat len) (drop (nat offsetInsideBlock) payload)), s'))
             else if len < 0 then (Inl (Panic ''makeslice: len out of range''), s')
             else if offsetInsideBlock \<le> contentLength then
               (if offsetInsideBlock < 0 then (Inl (Panic ''slice bounds out of range''), s')
                else (Inr (go_copy (replicate (nat len) 0) (drop (nat offsetInsideBlock) payload)), s'))
             else (Inr (replicate (nat len) 0), s'))"

definition TrimAt :: "'s BlockStorage \<Rightarrow> backend \<Rightarrow> int \<Rightarrow> int \<Rightarrow> 's \<Rightarrow> int result \<times> 's" where
  "TrimAt bs ab offset len s = (Inr 0, s)"

definition backend_Flush :: "'s BlockStorage \<Rightarrow> backend \<Rightarrow> 's \<Rightarrow> error option \<times> 's" where
  "backend_Flush bs ab s = Flush bs s"

record Geometry =
  geo_Size :: uint64
  MinimumBlockSize :: uint64
  PreferredBlockSize :: uint64
  MaximumBlockSize :: uint64

definition backend_Geometry :: "backend \<Rightarrow> Geometry" where
  "backend_Geometry ab =
     \<lparr>geo_Size = be_size ab, MinimumBlockSize = 1, PreferredBlockSize = word_of_int (be_blockSize ab),
      MaximumBlockSize = 32 * 1024 * 1024\<rparr>"

section \<open>The specification: an array of bytes\<close>

definition disk :: "int \<Rightarrow> (int \<Rightarrow> bytes option) \<Rightarrow> int \<Rightarrow> byte" where
  "disk bsize content a =
     (case content (a div bsize) of None \<Rightarrow> 0 | Some c \<Rightarrow> c ! nat (a mod bsize))"

definition patch :: "(int \<Rightarrow> byte) \<Rightarrow> int \<Rightarrow> bytes \<Rightarrow> int \<Rightarrow> byte" where
  "patch d off b a = (if off \<le> a \<and> a < off + int (length b) then b ! nat (a - off) else d a)"

definition block_of :: "int \<Rightarrow> (int \<Rightarrow> byte) \<Rightarrow> int \<Rightarrow> bytes" where
  "block_of bsize d i = map (\<lambda>k. d (i * bsize + int k)) [0..<nat bsize]"

lemma block_addr:
  assumes "0 < (bsize::int)" and "0 \<le> k" and "k < bsize"
  shows "(i * bsize + k) div bsize = i" and "(i * bsize + k) mod bsize = k"
  using assms by simp_all

lemma disk_stored:
  assumes "0 < bsize" and "d' = patch (disk bsize content) off b" and "0 \<le> off mod bsize"
    and "off mod bsize + int (length b) \<le> bsize" and "c = block_of bsize d' (off div bsize)"
  shows "disk bsize (content(off div bsize := stored c)) = d'"
proof
  fix a :: int
  let ?i = "off div bsize"
  have m: "0 \<le> a mod bsize" "a mod bsize < bsize" using assms(1) by simp_all
  show "disk bsize (content(?i := stored c)) a = d' a"
  proof (cases "a div bsize = ?i")
    case True
    have "a = ?i * bsize + a mod bsize" using True by (metis div_mult_mod_eq)
    then have "c ! nat (a mod bsize) = d' a" using m by (simp add: assms(5) block_of_def nat_less_iff)
    moreover have "c ! nat (a mod bsize) = 0" if "all_zero c"
    proof -
      have "length c = nat bsize" by (simp add: assms(5) block_of_def)
      then have "c = replicate (nat bsize) 0" using that all_zero_iff[of c] by simp
      then show ?thesis using m by (simp add: nat_less_iff)
    qed
    ultimately show ?thesis using True by (auto simp: disk_def stored_def)
  next
    case False
    have "\<not> (off \<le> a \<and> a < off + int (length b))"
    proof
      assume r: "off \<le> a \<and> a < off + int (length b)"
      have "off = ?i * bsize + off mod bsize" by (simp add: div_mult_mod_eq)
      then have "?i * bsize \<le> a" "a < ?i * bsize + bsize" using r assms(3,4) by linarith+
      then have "a div bsize = ?i"
        using assms(1) block_addr(1)[of bsize "a - ?i * bsize" ?i] by simp
      with False show False by simp
    qed
    with False show ?thesis by (auto simp: assms(2) patch_def disk_def)
  qed
qed

lemma block_of_disk:
  assumes "0 < bsize" and "\<And>c. content i = Some c \<Longrightarrow> int (length c) = bsize"
  shows "block_of bsize (disk bsize content) i = (case content i of None \<Rightarrow> replicate (nat bsize) 0 | Some c \<Rightarrow> c)"
  using assms by (auto simp: block_of_def disk_def intro!: nth_equalityI split: option.splits)

lemma copy_at_block:
  assumes "0 < bsize" and "0 \<le> off" and "off + int (length b) \<le> bsize"
  shows "copy_at (block_of bsize d i) off b = Inr (block_of bsize (patch d (i * bsize + off) b) i)"
proof -
  let ?c = "block_of bsize d i"
  have len: "length ?c = nat bsize" by (simp add: block_of_def)
  have "take (nat off) ?c @ go_copy (drop (nat off) ?c) b = block_of bsize (patch d (i * bsize + off) b) i"
  proof (rule nth_equalityI)
    show "length (take (nat off) ?c @ go_copy (drop (nat off) ?c) b) = length (block_of bsize (patch d (i * bsize + off) b) i)"
      using assms by (simp add: block_of_def go_copy_def min_def; linarith)
    fix k assume k: "k < length (take (nat off) ?c @ go_copy (drop (nat off) ?c) b)"
    then have "k < nat bsize" using assms by (simp add: len go_copy_def)
    then show "(take (nat off) ?c @ go_copy (drop (nat off) ?c) b) ! k = block_of bsize (patch d (i * bsize + off) b) i ! k"
      using assms
      by (auto simp: nth_append go_copy_def block_of_def patch_def min_def nat_less_iff nat_diff_distrib' nat_le_iff)
  qed
  with assms show ?thesis by (simp add: copy_at_def len)
qed

lemma zero_range_spec:
  assumes "0 \<le> i" and "i + int n \<le> int (length c)"
  shows "zero_range c i n = Inr (take (nat i) c @ replicate n 0 @ drop (nat i + n) c)"
  using assms
proof (induction n arbitrary: c i)
  case (Suc n)
  have "nat (i + 1) = Suc (nat i)" using Suc.prems by simp
  then show ?case
    using Suc by (auto simp: take_Suc_conv_app_nth take_update_swap drop_update_swap replicate_app_Cons_same
        upd_conv_take_nth_drop add.commute)
qed simp

lemma zero_range_block:
  assumes "0 < bsize" and "0 \<le> off" and "0 \<le> len" and "off + len \<le> bsize"
  shows "zero_range (block_of bsize d i) off (nat len) =
           Inr (block_of bsize (patch d (i * bsize + off) (replicate (nat len) 0)) i)"
proof -
  let ?c = "block_of bsize d i"
  have l: "length ?c = nat bsize" by (simp add: block_of_def)
  have "copy_at ?c off (replicate (nat len) 0) = Inr (take (nat off) ?c @ replicate (nat len) 0 @ drop (nat off + nat len) ?c)"
    using assms by (simp add: copy_at_def l go_copy_def min_def nat_diff_distrib' add.commute; linarith)
  moreover have "zero_range ?c off (nat len) = Inr (take (nat off) ?c @ replicate (nat len) 0 @ drop (nat off + nat len) ?c)"
    using assms by (intro zero_range_spec) (simp_all add: l)
  ultimately show ?thesis using copy_at_block[of bsize off "replicate (nat len) 0" d i] assms by simp
qed

section \<open>Correctness over a block storage\<close>

context block_storage
begin

lemma block_of_content:
  assumes "inv s" and "0 < blockSize" and "0 \<le> i"
  shows "block_of blockSize (disk blockSize (content s)) i =
           (case content s i of None \<Rightarrow> replicate (nat blockSize) 0 | Some c \<Rightarrow> c)"
  using assms content_length by (intro block_of_disk) blast+

theorem ReadAt_ok:
  assumes inv: "inv s" and ab: "be_blockSize ab = blockSize" "0 < blockSize" and off: "0 \<le> offset" "0 \<le> len"
    and fit: "offset mod blockSize + len \<le> blockSize"
  shows "\<exists>s'. ReadAt bs ab offset len s = (Inr (map (\<lambda>k. disk blockSize (content s) (offset + int k)) [0..<nat len]), s') \<and>
              inv s' \<and> content s' = content s"
proof -
  let ?i = "offset div blockSize" and ?o = "offset mod blockSize"
  have i: "0 \<le> ?i" "0 \<le> ?o" "?o < blockSize" using ab off by (simp_all add: pos_imp_zdiv_nonneg_iff)
  have eq: "offset = ?i * blockSize + ?o" by (simp add: div_mult_mod_eq)
  from get_block[OF inv i(1)] obtain s' where g: "GetBlock bs ?i s = (Inr (content s ?i), s')"
    and s': "inv s'" "content s' = content s" by blast
  have rd: "map (\<lambda>k. disk blockSize (content s) (offset + int k)) [0..<nat len] =
      take (nat len) (drop (nat ?o) (block_of blockSize (disk blockSize (content s)) ?i))"
    using fit off i by (intro nth_equalityI)
      (auto simp: block_of_def nat_less_iff algebra_simps intro!: arg_cong[of _ _ "disk blockSize (content s)"] eq)
  show ?thesis
  proof (cases "content s ?i")
    case None
    then have "map (\<lambda>k. disk blockSize (content s) (offset + int k)) [0..<nat len] = replicate (nat len) 0"
      unfolding rd using fit off i by (simp add: block_of_content[OF inv ab(2) i(1)])
    with None g s' off ab i show ?thesis by (auto simp: ReadAt_def go_copy_def Let_def)
  next
    case (Some c)
    then have "int (length c) = blockSize" using content_length[OF inv i(1)] by blast
    moreover have "map (\<lambda>k. disk blockSize (content s) (offset + int k)) [0..<nat len] = take (nat len) (drop (nat ?o) c)"
      unfolding rd by (simp add: block_of_content[OF inv ab(2) i(1)] Some)
    ultimately show ?thesis using Some g s' off ab i fit by (simp add: ReadAt_def)
  qed
qed

theorem WriteAt_ok:
  assumes inv: "inv s" and ab: "be_blockSize ab = blockSize" "0 < blockSize" and off: "0 \<le> offset"
    and fit: "offset mod blockSize + int (length b) \<le> blockSize"
    and d': "d' = patch (disk blockSize (content s)) offset b" and v: "valid (block_of blockSize d' (offset div blockSize))"
  shows "\<exists>s'. WriteAt bs ab b offset s = (Inr (int (length b)), s') \<and> inv s' \<and> disk blockSize (content s') = d'"
proof -
  let ?i = "offset div blockSize" and ?o = "offset mod blockSize" and ?c = "block_of blockSize d' (offset div blockSize)"
  have i: "0 \<le> ?i" "0 \<le> ?o" "?o < blockSize" using ab off by (simp_all add: pos_imp_zdiv_nonneg_iff)
  have eq: "?i * blockSize + ?o = offset" by (simp add: div_mult_mod_eq)
  have cl: "int (length ?c) = blockSize" using ab by (simp add: block_of_def)
  have fin: "\<exists>s'. SetBlock bs ?i ?c s1 = (None, s') \<and> inv s' \<and> disk blockSize (content s') = d'"
    if "inv s1" "content s1 = content s" for s1
    using set_block[OF that(1) i(1) cl v] disk_stored[OF ab(2) d' i(2) fit refl] that(2) by auto
  have cp: "copy_at (block_of blockSize (disk blockSize (content s)) ?i) ?o b = Inr ?c"
    using copy_at_block[OF ab(2) i(2) fit, of "disk blockSize (content s)" ?i] by (simp add: d' eq)
  show ?thesis
  proof (cases "?o = 0 \<and> int (length b) = blockSize")
    case True
    have "?c = b" using True cp ab by (auto simp: copy_at_def go_copy_def block_of_def)
    with fin[OF inv refl] True ab off show ?thesis by (auto simp: WriteAt_def Let_def)
  next
    case False
    from get_block[OF inv i(1)] obtain s1 where g: "GetBlock bs ?i s = (Inr (content s ?i), s1)"
      and s1: "inv s1" "content s1 = content s" by blast
    have "backend_merge bs ab ?i ?o b s = SetBlock bs ?i ?c s1"
    proof (cases "content s ?i")
      case None
      then show ?thesis using cp g ab by (simp add: backend_merge_def block_of_content[OF inv ab(2) i(1)])
    next
      case (Some c)
      then have "int (length c) = blockSize" using content_length[OF inv i(1)] by blast
      with Some cp g ab show ?thesis by (auto simp: backend_merge_def block_of_content[OF inv ab(2) i(1)])
    qed
    with fin[OF s1] False ab off show ?thesis by (auto simp: WriteAt_def Let_def)
  qed
qed

theorem WriteZeroesAt_ok:
  assumes inv: "inv s" and ab: "be_blockSize ab = blockSize" "0 < blockSize" and off: "0 \<le> offset" "0 \<le> len"
    and fit: "offset mod blockSize + len \<le> blockSize"
    and d': "d' = patch (disk blockSize (content s)) offset (replicate (nat len) 0)"
    and v: "valid (block_of blockSize d' (offset div blockSize))"
  shows "\<exists>s'. WriteZeroesAt bs ab offset len s = (Inr len, s') \<and> inv s' \<and> disk blockSize (content s') = d'"
proof -
  let ?i = "offset div blockSize" and ?o = "offset mod blockSize" and ?c = "block_of blockSize d' (offset div blockSize)"
  have i: "0 \<le> ?i" "0 \<le> ?o" "?o < blockSize" using ab off by (simp_all add: pos_imp_zdiv_nonneg_iff)
  have eq: "?i * blockSize + ?o = offset" by (simp add: div_mult_mod_eq)
  have cl: "int (length ?c) = blockSize" using ab by (simp add: block_of_def)
  have fit': "?o + int (length (replicate (nat len) (0::byte))) \<le> blockSize" using fit off by simp
  note ds = disk_stored[OF ab(2) d' i(2) fit' refl]
  have zr: "zero_range (block_of blockSize (disk blockSize (content s)) ?i) ?o (nat len) = Inr ?c"
    using zero_range_block[OF ab(2) i(2) off(2) fit, of "disk blockSize (content s)" ?i] by (simp add: d' eq)
  show ?thesis
  proof (cases "?o = 0 \<and> len = blockSize")
    case True
    have "?c = replicate (nat blockSize) 0"
      using True zr ab zero_range_spec[of 0 "nat len" "block_of blockSize (disk blockSize (content s)) ?i"]
      by (simp add: block_of_def)
    then have "stored ?c = None" by (simp add: stored_def all_zero_iff)
    with delete_block[OF inv i(1)] ds True ab off show ?thesis by (auto simp: WriteZeroesAt_def Let_def)
  next
    case False
    from get_block[OF inv i(1)] obtain s1 where g: "GetBlock bs ?i s = (Inr (content s ?i), s1)"
      and s1: "inv s1" "content s1 = content s" by blast
    show ?thesis
    proof (cases "content s ?i")
      case None
      have "?c = replicate (nat blockSize) 0"
        using zr None zero_range_spec[of ?o "nat len" "replicate (nat blockSize) 0"] fit off i ab
        by (simp add: block_of_content[OF inv ab(2) i(1)] replicate_add[symmetric])
      then have "stored ?c = None" by (simp add: stored_def all_zero_iff)
      with ds None have "disk blockSize (content s) = d'" by (simp add: fun_upd_idem)
      with None g s1 False ab off show ?thesis by (auto simp: WriteZeroesAt_def backend_mergeZeroes_def Let_def)
    next
      case (Some c)
      with set_block[OF s1(1) i(1) cl v] obtain s' where "SetBlock bs ?i ?c s1 = (None, s')" "inv s'"
        "content s' = (content s)(?i := stored ?c)" by (auto simp: s1(2))
      with Some g False ab off zr ds show ?thesis
        by (auto simp: WriteZeroesAt_def backend_mergeZeroes_def Let_def block_of_content[OF inv ab(2) i(1)])
    qed
  qed
qed

end

end
