(* ===== verification/Histories.thy ===== *)
theory Histories
  imports Semi_Deduped
begin

text \<open>
  Sequences of operations on a block storage, as the NBD backend of a vdisk issues them, and what
  they return: the replies of a map from block indices to contents. For the deduped storage the
  goroutines that copy template content to the primary cluster run at arbitrary points of the sequence.
\<close>

section \<open>Client operations\<close>

datatype block_op = SetOp int bytes | GetOp int | DeleteOp int | FlushOp

datatype block_reply = Status "error option" | Content "bytes option result"

fun block_step :: "'s BlockStorage \<Rightarrow> block_op \<Rightarrow> 's \<Rightarrow> block_reply \<times> 's" where
  "block_step bs (SetOp i c) s = map_prod Status id (SetBlock bs i c s)"
| "block_step bs (GetOp i) s = map_prod Content id (GetBlock bs i s)"
| "block_step bs (DeleteOp i) s = map_prod Status id (DeleteBlock bs i s)"
| "block_step bs FlushOp s = map_prod Status id (Flush bs s)"

fun run_ops :: "'s BlockStorage \<Rightarrow> block_op list \<Rightarrow> 's \<Rightarrow> block_reply list \<times> 's" where
  "run_ops bs [] s = ([], s)"
| "run_ops bs (op # ops) s =
     (let (r, s1) = block_step bs op s; (rs, s2) = run_ops bs ops s1 in (r # rs, s2))"

text \<open>The specification: a map, in which a block of zeroes is no block.\<close>

fun spec_step :: "block_op \<Rightarrow> (int \<Rightarrow> bytes option) \<Rightarrow> block_reply \<times> (int \<Rightarrow> bytes option)" where
  "spec_step (SetOp i c) m = (Status None, m(i := stored c))"
| "spec_step (GetOp i) m = (Content (Inr (m i)), m)"
| "spec_step (DeleteOp i) m = (Status None, m(i := None))"
| "spec_step FlushOp m = (Status None, m)"

fun spec_ops :: "block_op list \<Rightarrow> (int \<Rightarrow> bytes option) \<Rightarrow> block_reply list \<times> (int \<Rightarrow> bytes option)" where
  "spec_ops [] m = ([], m)"
| "spec_ops (op # ops) m =
     (let (r, m1) = spec_step op m; (rs, m2) = spec_ops ops m1 in (r # rs, m2))"

fun op_ok :: "int \<Rightarrow> (bytes \<Rightarrow> bool) \<Rightarrow> block_op \<Rightarrow> bool" where
  "op_ok blockSize valid (SetOp i c) \<longleftrightarrow> 0 \<le> i \<and> int (length c) = blockSize \<and> valid c"
| "op_ok blockSize valid (GetOp i) \<longleftrightarrow> 0 \<le> i"
| "op_ok blockSize valid (DeleteOp i) \<longleftrightarrow> 0 \<le> i"
| "op_ok blockSize valid FlushOp \<longleftrightarrow> True"

context block_storage
begin

lemma block_step_ok:
  assumes "inv s" and "op_ok blockSize valid op"
  obtains s' where "block_step bs op s = (fst (spec_step op (content s)), s')" and "inv s'"
    and "content s' = snd (spec_step op (content s))"
proof (cases op)
  case (SetOp i c)
  with assms set_block[of s i c] that show ?thesis by auto
next
  case (GetOp i)
  with assms get_block[of s i] that show ?thesis by auto
next
  case (DeleteOp i)
  with assms delete_block[of s i] that show ?thesis by auto
next
  case FlushOp
  with assms flush[of s] that show ?thesis by auto
qed

theorem run_ops_ok:
  assumes "inv s" and "list_all (op_ok blockSize valid) ops"
  shows "\<exists>s'. run_ops bs ops s = (fst (spec_ops ops (content s)), s') \<and> inv s' \<and>
              content s' = snd (spec_ops ops (content s))"
  using assms
proof (induction ops arbitrary: s)
  case (Cons op ops)
  from Cons.prems block_step_ok[of s op] obtain s1 where s1: "block_step bs op s = (fst (spec_step op (content s)), s1)"
    "inv s1" "content s1 = snd (spec_step op (content s))" by auto
  with Cons.IH[of s1] Cons.prems(2) show ?case by (auto simp: case_prod_unfold Let_def)
qed simp

end

section \<open>Background tasks\<close>

text \<open>
  The goroutines that store template content run at arbitrary points of the sequence. \<open>Background n\<close>:
  the \<open>n\<close>-th of those still to run runs now, if there is one. A goroutine stores the slice that
  \<open>GetBlock\<close> also returned to its caller; \<open>Overwrite n c\<close>: the caller changes the bytes of the slice it shares with
  the \<open>n\<close>-th pending goroutine to \<open>c\<close>. A slice whose goroutine has run is the caller's alone.
\<close>

datatype storage_event = Client block_op | Background nat | Overwrite nat bytes

type_synonym ('o, 'w) task_state = "'o \<times> 'w \<times> ds_task list"

fun background :: "('o \<Rightarrow> ds_task \<Rightarrow> 'w \<Rightarrow> 'w) \<Rightarrow> nat \<Rightarrow> ('o, 'w) task_state \<Rightarrow> ('o, 'w) task_state" where
  "background run n (ob, w, ts) =
     (if n < length ts then (ob, run ob (ts ! n) w, take n ts @ drop (Suc n) ts) else (ob, w, ts))"

fun overwrite :: "nat \<Rightarrow> bytes \<Rightarrow> ('o, 'w) task_state \<Rightarrow> ('o, 'w) task_state" where
  "overwrite n c (ob, w, ts) = (ob, w, if n < length ts then ts[n := (fst (ts ! n), c)] else ts)"

fun run_events :: "('o, 'w) task_state BlockStorage \<Rightarrow> ('o \<Rightarrow> ds_task \<Rightarrow> 'w \<Rightarrow> 'w) \<Rightarrow> storage_event list \<Rightarrow>
    ('o, 'w) task_state \<Rightarrow> block_reply list \<times> ('o, 'w) task_state" where
  "run_events bs run [] st = ([], st)"
| "run_events bs run (Client op # es) st =
     (let (r, st1) = block_step bs op st; (rs, st2) = run_events bs run es st1 in (r # rs, st2))"
| "run_events bs run (Background n # es) st = run_events bs run es (background run n st)"
| "run_events bs run (Overwrite n c # es) st = run_events bs run es (overwrite n c st)"

fun client_ops :: "storage_event list \<Rightarrow> block_op list" where
  "client_ops [] = []"
| "client_ops (Client op # es) = op # client_ops es"
| "client_ops (Background n # es) = client_ops es"
| "client_ops (Overwrite n c # es) = client_ops es"

fun is_Overwrite :: "storage_event \<Rightarrow> bool" where
  "is_Overwrite (Overwrite n c) = True"
| "is_Overwrite _ = False"

text \<open>The goroutines of the two storages that start them. A storage without a template starts none.\<close>

definition sd_run_task :: "'w semiDedupedStorage \<Rightarrow> ds_task \<Rightarrow> 'w \<Rightarrow> 'w" where
  "sd_run_task sds = ds_run_task (sd_templateStorage sds)"

definition ds_no_template :: "'w dedupedStorage \<Rightarrow> bool" where
  "ds_no_template ds \<longleftrightarrow> ds_templateCluster ds = None"

definition sd_no_template :: "'w semiDedupedStorage \<Rightarrow> bool" where
  "sd_no_template sds \<longleftrightarrow> ds_no_template (sd_templateStorage sds)"

text \<open>No slice is changed while a goroutine still has to store it: there are no goroutines, or the callers do not write.\<close>

definition calm :: "('o \<Rightarrow> bool) \<Rightarrow> ('o, 'w) task_state \<Rightarrow> storage_event list \<Rightarrow> bool" where
  "calm quiet st es \<longleftrightarrow> quiet (fst st) \<and> snd (snd st) = [] \<or> \<not> list_ex is_Overwrite es"

locale task_storage = block_storage bs blockSize valid inv content
  for bs :: "('o, 'w) task_state BlockStorage" and blockSize and valid and inv and content +
  fixes run :: "'o \<Rightarrow> ds_task \<Rightarrow> 'w \<Rightarrow> 'w" and quiet :: "'o \<Rightarrow> bool"
  assumes run_task: "inv (ob, w, ts @ t # ts') \<Longrightarrow>
      inv (ob, run ob t w, ts @ ts') \<and> content (ob, run ob t w, ts @ ts') = content (ob, w, ts @ t # ts')"
    and quiet_step: "quiet ob \<Longrightarrow> \<exists>ob' w'. snd (block_step bs op (ob, w, [])) = (ob', w', []) \<and> quiet ob'"
begin

lemma background_ok:
  assumes "inv st"
  shows "inv (background run n st)" and "content (background run n st) = content st"
proof -
  obtain ob w ts where st: "st = (ob, w, ts)" by (cases st)
  have "inv (background run n st) \<and> content (background run n st) = content st"
  proof (cases "n < length ts")
    case True
    then have "ts = take n ts @ ts ! n # drop (Suc n) ts" by (simp add: id_take_nth_drop)
    with assms run_task[of ob w "take n ts" "ts ! n" "drop (Suc n) ts"] True show ?thesis by (simp add: st)
  qed (use assms in \<open>simp add: st\<close>)
  then show "inv (background run n st)" and "content (background run n st) = content st" by blast+
qed

lemma calm_Client: "calm quiet st (Client op # es) \<Longrightarrow> calm quiet (snd (block_step bs op st)) es"
  using quiet_step[of "fst st" op "fst (snd st)"] by (cases st) (auto simp: calm_def)

lemma calm_Background: "calm quiet st (Background n # es) \<Longrightarrow> calm quiet (background run n st) es"
  by (cases st) (auto simp: calm_def)

lemma calm_Overwrite: "calm quiet st (Overwrite n c # es) \<Longrightarrow> overwrite n c st = st \<and> calm quiet st es"
  by (cases st) (auto simp: calm_def)

theorem run_events_ok:
  assumes "inv st" and "list_all (op_ok blockSize valid) (client_ops es)" and "calm quiet st es"
  shows "\<exists>st'. run_events bs run es st = (fst (spec_ops (client_ops es) (content st)), st') \<and> inv st' \<and>
           content st' = snd (spec_ops (client_ops es) (content st))"
  using assms
proof (induction es arbitrary: st rule: client_ops.induct)
  case (2 op es)
  have op: "op_ok blockSize valid op" using 2(3) by simp
  obtain st1 where st1: "block_step bs op st = (fst (spec_step op (content st)), st1)" "inv st1"
    "content st1 = snd (spec_step op (content st))" by (rule block_step_ok[OF 2(2) op])
  have "calm quiet st1 es" using calm_Client[OF 2(4)] st1(1) by simp
  with 2(1)[OF st1(2)] 2(3) st1 show ?case by (auto simp: case_prod_unfold Let_def)
next
  case (3 n es)
  from 3(1)[OF background_ok(1)[OF 3(2)] _ calm_Background[OF 3(4)]] 3(3) background_ok(2)[OF 3(2)] show ?case by simp
next
  case (4 n c es)
  with calm_Overwrite[OF 4(4)] show ?case by simp
qed simp

end

lemma ds_quiet_step:
  assumes "ds_no_template ds"
  shows "\<exists>ds' w'. snd (block_step (dedupedStorage H order) op (ds, w, [])) = (ds', w', []) \<and> ds_no_template ds'"
  using assms
  by (cases op) (auto simp: dedupedStorage_def ds_no_template_def ds_SetBlock_def ds_GetBlock_def ds_DeleteBlock_def
      ds_Flush_def ds_getContent_def Let_def split: prod.splits option.splits sum.splits)

lemma ds_DeleteBlock_template: "ds_DeleteBlock i ds w = (e, ds', w') \<Longrightarrow> ds_no_template ds' = ds_no_template ds"
  and ds_Flush_template: "ds_Flush ord ds w = (e, ds', w') \<Longrightarrow> ds_no_template ds' = ds_no_template ds"
  and ds_GetBlock_template: "ds_GetBlock i ds w = (r, ts, ds', w') \<Longrightarrow> ds_no_template ds \<Longrightarrow> ts = [] \<and> ds_no_template ds'"
  by (auto simp: ds_no_template_def ds_GetBlock_def ds_DeleteBlock_def ds_Flush_def ds_getContent_def Let_def
      split: prod.splits option.splits sum.splits if_splits)

lemma sd_quiet_step:
  assumes "sd_no_template sds"
  shows "\<exists>sds' w'. snd (block_step (semiDedupedStorage gz order) op (sds, w, [])) = (sds', w', []) \<and> sd_no_template sds'"
  using assms
  by (cases op) (auto simp: semiDedupedStorage_def sd_no_template_def sd_SetBlock_def sd_GetBlock_def sd_DeleteBlock_def
      sd_Flush_def Let_def split: prod.splits option.splits sum.splits bool.splits
      dest: ds_DeleteBlock_template ds_Flush_template ds_GetBlock_template)

context semidedup
begin

lemma sd_run_task_ok:
  assumes inv: "sd_inv view route troute up H C vd bsize cl tc (sds, w, ts @ t # ts')"
  shows "sd_inv view route troute up H C vd bsize cl tc (sds, sd_run_task sds t w, ts @ ts') \<and>
    sd_content view route H C vd (sds, sd_run_task sds t w, ts @ ts') = sd_content view route H C vd (sds, w, ts @ t # ts')"
proof -
  let ?ds = "sd_templateStorage sds" and ?k = "nonDedupedStorageKey vd"
  have ds: "ds_inv view route troute up H C vd bsize cl tc (?ds, w, ts @ t # ts')" using inv by (simp add: sd_inv_def)
  then obtain c where c: "c \<in> C" "t = (H c, c)" by (cases t) (auto simp: ds_inv_def)
  have si: "store_inv view route up H C w" "ds_cluster ?ds = cl" "\<forall>r. troute = Some r \<longrightarrow> store_inv view r up H C w"
    using ds by (simp_all add: ds_inv_def)
  obtain w1 where "ds_setContent ?ds (H c) c w = (None, w1)" and sb: "same_but view (string_of_bytes (H c)) w w1"
    by (rule setContent_ok[OF c(1) si])
  then have w1: "ds_run_task ?ds t w = w1" by (simp add: ds_run_task_def c(2))
  have "?k \<noteq> string_of_bytes (H c)" using hash_key_nd[OF c(1)] by simp
  note rh = route_hash_same_but[OF sb this]
  from ds_run_task_ok[OF ds] inv rh show ?thesis
    by (auto simp: sd_inv_def sd_run_task_def w1 sd_content_def fun_eq_iff)
qed

end

sublocale dedup \<subseteq> deduped_tasks: task_storage "dedupedStorage H order" bsize "\<lambda>c. c \<in> C"
  "ds_inv view route troute up H C vd bsize cl tc" "ds_content view route H C vd" ds_run_task ds_no_template
  by unfold_locales (use ds_run_task_ok ds_quiet_step in \<open>simp_all\<close>)

sublocale semidedup \<subseteq> semideduped_tasks: task_storage "semiDedupedStorage gz order" bsize "\<lambda>_. True"
  "sd_inv view route troute up H C vd bsize cl tc" "sd_content view route H C vd" sd_run_task sd_no_template
  by unfold_locales (use sd_run_task_ok sd_quiet_step in \<open>simp_all\<close>)

context dedup
begin

lemmas deduped_run_events = deduped_tasks.run_events_ok

end

context semidedup
begin

lemmas semideduped_run_events = semideduped_tasks.run_events_ok

end

section \<open>A slice changed under a goroutine\<close>

text \<open>
  What \<open>Overwrite\<close> does to a storage with a template: the goroutine stores the changed bytes under the
  hash of the template's content, and a block with that hash reads them.
\<close>

context dedup
begin

lemma ds_GetBlock_task:
  assumes inv: "ds_inv view route troute up H C vd bsize cl tc (ds, w, ts)" and i: "0 \<le> i"
    and c: "ds_content view route H C vd (ds, w, ts) i = Some c" "str_val view route w (H c) = None"
  shows "fst (snd (ds_GetBlock i ds w)) = [(H c, c)]"
proof -
  let ?m = "lba_map (ds_lba ds) (lba_psec view route vd w)"
  obtain lba w1 where g: "LBA_Get (ds_storage ds) (ds_lba ds) i w = (Inr (?m i), lba, w1)"
    and inv1: "ds_inv view route troute up H C vd bsize cl tc (ds\<lparr>ds_lba := lba\<rparr>, w1, ts)"
    and m1: "lba_map lba (lba_psec view route vd w1) = ?m" and sb: "same_but view (lbaStorageKey vd) w w1"
    by (rule lba_get_step[OF inv i])
  from c(1) obtain h where h: "?m i = Some h" "c = inv_into C H h" by (auto simp: ds_content_def)
  have "refs_inv view route troute H C bsize ?m w1" using inv1 by (simp add: ds_inv_def m1)
  with h(1) i obtain d where d: "d \<in> C" "h = H d" "available view route troute H w1 d" unfolding refs_inv_def by blast
  have dc: "d = c" using h(2) d by simp
  have "str_val view route w1 (H c) = None" using c(2) d(1) dc str_val_same_but(1)[OF sb hash_key] by simp
  with getContent_ok[OF inv1 d(1,3)] obtain w2 where
    "ds_getContent (ds\<lparr>ds_lba := lba\<rparr>) (H c) w1 = (Inr (Some c), [(H c, c)], w2)" unfolding dc by metis
  with g h(1) d(2) dc hash_not_nil[OF d(1)] show ?thesis by (simp add: ds_GetBlock_def Hash_Equals_def)
qed

lemma ds_GetBlock_stored:
  assumes lba: "lba_inv (ds_lba ds) (lba_psec view route vd w)" "lba_ok view route up vd w"
    and fs: "ds_cluster ds = cl" "ds_vdiskID ds = vd" and j: "0 \<le> j" and c: "c \<in> C"
    and m: "lba_map (ds_lba ds) (lba_psec view route vd w) j = Some (H c)"
    and v: "str_ok view route up w (H c)" "str_val view route w (H c) = Some d"
  shows "fst (ds_GetBlock j ds w) = Inr (Some d) \<and> fst (snd (ds_GetBlock j ds w)) = []"
proof -
  have st: "ds_storage ds = newLBASectorStorage vd cl" by (simp add: ds_storage_def fs)
  from lba.LBA_Get_ok[OF lba j] m obtain lba' w1 where
    s: "LBA_Get (newLBASectorStorage vd cl) (ds_lba ds) j w = (Inr (Some (H c)), lba', w1)" by metis
  note sb = str_val_same_but[OF lba_frame.LBA_Get_frame[OF s] hash_key[OF c]]
  from dofor_get[of w1 "H c"] v obtain w2 where
    "DoFor cl (hash_slot (H c)) (Command Get [ABytes (H c)]) w1 = ((RBulk d, None), w2)" by (auto simp: sb opt_bulk_def)
  then have "ds_getPrimaryContent (ds\<lparr>ds_lba := lba'\<rparr>) (H c) w1 = (Inr (Some d), w2)"
    using c by (simp add: ds_getPrimaryContent_def hash_index_slot fs OptBytes_def redis_Bytes_def)
  then show ?thesis using s st hash_not_nil[OF c]
    by (auto simp: ds_GetBlock_def Hash_Equals_def ds_getContent_def ds_getPrimaryOrTemplateContent_def split: option.splits)
qed

lemma merge_corrupts:
  assumes inv: "ds_inv view route troute up H C vd bsize cl tc (ds, w, [])" and ij: "0 \<le> i" "0 \<le> j" "i \<noteq> j"
    and c: "ds_content view route H C vd (ds, w, []) i = Some c" "ds_content view route H C vd (ds, w, []) j = Some c"
    and np: "str_val view route w (H c) = None" and d: "d \<in> C" "int (length d) = bsize"
  shows "fst (run_events (dedupedStorage H order) ds_run_task
      [Client (GetOp i), Overwrite 0 d, Client (SetOp i d), Background 0, Client (GetOp j)] (ds, w, [])) =
    [Content (Inr (Some c)), Status None, Content (Inr (Some d))]"
proof -
  obtain ds1 w1 ts1 where g: "ds_GetBlock i ds w = (Inr (Some c), ts1, ds1, w1)"
    and inv1: "ds_inv view route troute up H C vd bsize cl tc (ds1, w1, [] @ ts1)"
    and ct1: "ds_content view route H C vd (ds1, w1, [] @ ts1) = ds_content view route H C vd (ds, w, [])"
    using c(1) by (metis ds_GetBlock_ok[OF inv ij(1)])
  have ts1: "ts1 = [(H c, c)]" using ds_GetBlock_task[OF inv ij(1) c(1) np] by (simp add: g)
  have cC: "c \<in> C" using inv1 by (simp add: ds_inv_def ts1)
  obtain ds2 w2 where s: "ds_SetBlock H i d ds1 w1 = (None, ds2, w2)"
    and inv2: "ds_inv view route troute up H C vd bsize cl tc (ds2, w2, [] @ ts1)"
    and ct2: "ds_content view route H C vd (ds2, w2, [] @ ts1) = (ds_content view route H C vd (ds1, w1, [] @ ts1))(i := stored d)"
    by (rule ds_SetBlock_ok[OF inv1 ij(1) d])
  let ?m = "lba_map (ds_lba ds2) (lba_psec view route vd w2)"
  have "ds_content view route H C vd (ds2, w2, [] @ ts1) j = Some c" using ct2 ct1 c(2) ij(3) by simp
  then obtain h where h: "?m j = Some h" "c = inv_into C H h" by (auto simp: ds_content_def)
  moreover have "refs_inv view route troute H C bsize ?m w2" using inv2 by (simp add: ds_inv_def)
  ultimately have m: "?m j = Some (H c)" using ij(2) unfolding refs_inv_def by fastforce
  have fs: "ds_cluster ds2 = cl" "ds_vdiskID ds2 = vd" and ok: "str_ok view route up w2 (H c)"
    and lba: "lba_inv (ds_lba ds2) (lba_psec view route vd w2)" "lba_ok view route up vd w2"
    using inv2 cC by (auto simp: ds_inv_def store_inv_def)
  from dofor_set[OF ok, of d] obtain r w3 srv where
    t: "DoFor cl (hash_slot (H c)) (Command Set [ABytes (H c), ABytes d]) w2 = ((r, None), w3)"
    "route (hash_slot (H c)) = Some srv" "view w3 = key_upd (view w2) srv (string_of_bytes (H c)) (Some (VString d))" by blast
  have bg: "ds_run_task ds2 (H c, d) w2 = w3"
    using t(1) cC by (simp add: ds_run_task_def ds_setContent_def hash_index_slot fs)
  have sb: "same_but view (string_of_bytes (H c)) w2 w3" by (simp add: same_but_def t(3))
  have "lbaStorageKey vd \<noteq> string_of_bytes (H c)" using hash_key[OF cC] by simp
  note lb = lba_same_but[of view, OF sb this]
  have "str_ok view route up w3 (H c)" "str_val view route w3 (H c) = Some d"
    using str_val_upd[of view, OF t(3)] ok t(2) by auto
  from ds_GetBlock_stored[of ds2 w3, OF _ _ fs ij(2) cC _ this] lba m
  have "fst (ds_GetBlock j ds2 w3) = Inr (Some d)" by (simp add: lb)
  then show ?thesis
    by (auto simp: dedupedStorage_def g s ts1 bg case_prod_unfold Let_def)
qed

end

section \<open>Histories of the non-deduped storage\<close>

context ardb_cluster
begin

lemmas nondeduped_run_ops = nondeduped.run_ops_ok

end

end
