(* ===== verification/Cluster_State.thy ===== *)
theory Cluster_State
  imports Ardb_Cluster
begin

text \<open>
  Storage clusters with a state controller (\<open>nbd/ardb/storage/cluster.go\<close>), the clusters of the NBD server: the
  controller keeps the configuration of each server, marks servers as offline when an action fails, and follows
  configuration updates. Operations take and return the controller beside the state of the servers; each runs
  under the lock of the controller. Logging and broadcasts are left out.
\<close>

section \<open>The controller\<close>

record ServerState =
  ss_Index :: int
  ss_Config :: StorageServerConfig

record singleClusterStateController =
  ctrl_clusterID :: string
  ctrl_optional :: bool
  ctrl_servers :: "StorageServerConfig list"
  ctrl_serverCount :: int

abbreviation (input) "controller_at ctrl i \<equiv> ctrl_servers ctrl ! nat i"

definition in_servers :: "singleClusterStateController \<Rightarrow> int \<Rightarrow> bool" where
  "in_servers ctrl index \<longleftrightarrow> 0 \<le> index \<and> index < int (length (ctrl_servers ctrl))"

definition ctrl_serverOperational :: "singleClusterStateController \<Rightarrow> ServerIndexPredicate" where
  "ctrl_serverOperational ctrl index =
     (if \<not> in_servers ctrl index then Inl (Panic ''index out of range'')
      else case State (controller_at ctrl index) of
             Online \<Rightarrow> Inr True
           | RIP \<Rightarrow> Inr False
           | _ \<Rightarrow> Inl ErrServerUnavailable)"

definition snapshot :: "singleClusterStateController \<Rightarrow> int \<Rightarrow> ServerState result" where
  "snapshot ctrl index =
     (if \<not> in_servers ctrl index then Inl (Panic ''index out of range'')
      else Inr \<lparr>ss_Index = index, ss_Config = controller_at ctrl index\<rparr>)"

definition ctrl_ServerState :: "singleClusterStateController \<Rightarrow> ServerState result option" where
  "ctrl_ServerState ctrl =
     (if ctrl_serverCount ctrl = 0 then Some (Inl ErrClusterNotDefined)
      else map_option (\<lambda>r. case r of Inl err \<Rightarrow> Inl err | Inr index \<Rightarrow> snapshot ctrl index)
             (FindFirstServerIndex (ctrl_serverCount ctrl) (ctrl_serverOperational ctrl)))"

definition ctrl_ServerStateFor :: "int \<Rightarrow> singleClusterStateController \<Rightarrow> ServerState result option" where
  "ctrl_ServerStateFor objectIndex ctrl =
     (if ctrl_serverCount ctrl = 0 then Some (Inl ErrClusterNotDefined)
      else map_option (\<lambda>r. case r of Inl err \<Rightarrow> Inl err | Inr index \<Rightarrow> snapshot ctrl index)
             (ComputeServerIndex (ctrl_serverCount ctrl) objectIndex (ctrl_serverOperational ctrl)))"

definition ErrServerIndexOOB :: error where "ErrServerIndexOOB = ErrOther ''server index out of bounds''"

definition ctrl_ServerStateAt :: "int \<Rightarrow> singleClusterStateController \<Rightarrow> ServerState result option" where
  "ctrl_ServerStateAt serverIndex ctrl =
     Some (if ctrl_serverCount ctrl = 0 then Inl ErrClusterNotDefined
           else if serverIndex < 0 \<or> serverIndex \<ge> ctrl_serverCount ctrl then Inl ErrServerIndexOOB
           else snapshot ctrl serverIndex)"

definition storageServersEqual :: "StorageServerConfig \<Rightarrow> StorageServerConfig \<Rightarrow> bool" where
  "storageServersEqual a b \<longleftrightarrow> Database a = Database b \<and> Address a = Address b"

definition update_at :: "int \<Rightarrow> (StorageServerConfig \<Rightarrow> StorageServerConfig) \<Rightarrow> singleClusterStateController \<Rightarrow>
    singleClusterStateController result" where
  "update_at index f ctrl =
     (if \<not> in_servers ctrl index then Inl (Panic ''index out of range'')
      else Inr (ctrl\<lparr>ctrl_servers := (ctrl_servers ctrl)[nat index := f (controller_at ctrl index)]\<rparr>))"

text \<open>The state a server gets: a dead server stays dead, states other than online, offline and dead are unknown.\<close>

definition next_state :: "StorageServerState \<Rightarrow> StorageServerState \<Rightarrow> StorageServerState" where
  "next_state old new =
     (let st = (if old = RIP \<and> new \<noteq> RIP then RIP else new)
      in case st of Online \<Rightarrow> Online | Offline \<Rightarrow> Offline | RIP \<Rightarrow> RIP | _ \<Rightarrow> Unknown)"

definition setServerState :: "int \<Rightarrow> StorageServerState \<Rightarrow> singleClusterStateController \<Rightarrow>
    (bool \<times> singleClusterStateController) result" where
  "setServerState index st ctrl =
     (if \<not> in_servers ctrl index then Inl (Panic ''index out of range'')
      else if State (controller_at ctrl index) = st then Inr (False, ctrl)
      else map_sum id (Pair True) (update_at index (\<lambda>old. old\<lparr>State := next_state (State old) st\<rparr>) ctrl))"

definition UpdateServerState :: "ServerState \<Rightarrow> singleClusterStateController \<Rightarrow> (bool \<times> singleClusterStateController) result" where
  "UpdateServerState state ctrl =
     (if ss_Index state \<ge> ctrl_serverCount ctrl then Inr (False, ctrl)
      else if \<not> in_servers ctrl (ss_Index state) then Inl (Panic ''index out of range'')
      else if \<not> storageServersEqual (controller_at ctrl (ss_Index state)) (ss_Config state) then Inr (False, ctrl)
      else setServerState (ss_Index state) (State (ss_Config state)) ctrl)"

subsection \<open>Configuration updates\<close>

fun mark_unknown :: "int list \<Rightarrow> singleClusterStateController \<Rightarrow> singleClusterStateController result" where
  "mark_unknown [] ctrl = Inr ctrl"
| "mark_unknown (index # is) ctrl =
     (case update_at index (\<lambda>s. s\<lparr>State := Unknown\<rparr>) ctrl of Inl e \<Rightarrow> Inl e | Inr ctrl' \<Rightarrow> mark_unknown is ctrl')"

fun update_servers :: "int \<Rightarrow> StorageServerConfig list \<Rightarrow> singleClusterStateController \<Rightarrow> singleClusterStateController result" where
  "update_servers index [] ctrl = Inr ctrl"
| "update_servers index (server # ss) ctrl =
     (if \<not> in_servers ctrl index then Inl (Panic ''index out of range'')
      else
        let dialed = (if storageServersEqual server (controller_at ctrl index) then Inr ctrl
                      else update_at index (\<lambda>s. s\<lparr>Address := Address server, Database := Database server\<rparr>) ctrl)
        in case dialed of
             Inl e \<Rightarrow> Inl e
           | Inr ctrl1 \<Rightarrow>
               (case setServerState index (State server) ctrl1 of
                  Inl e \<Rightarrow> Inl e
                | Inr (_, ctrl2) \<Rightarrow> update_servers (index + 1) ss ctrl2))"

definition setServers :: "StorageServerConfig list \<Rightarrow> singleClusterStateController \<Rightarrow> singleClusterStateController result" where
  "setServers ss ctrl =
     (let serverCount = int (length ss)
      in if serverCount < ctrl_serverCount ctrl
         then (case mark_unknown [serverCount..ctrl_serverCount ctrl - 1] ctrl of
                 Inl e \<Rightarrow> Inl e
               | Inr ctrl1 \<Rightarrow> update_servers 0 ss ctrl1)
         else if serverCount > ctrl_serverCount ctrl
         then (if ctrl_serverCount ctrl = 0
               then Inr (ctrl\<lparr>ctrl_servers := ss, ctrl_serverCount := serverCount\<rparr>)
               else update_servers 0 (take (nat (ctrl_serverCount ctrl)) ss) ctrl)
         else update_servers 0 ss ctrl)"

section \<open>Applying actions\<close>

text \<open>The second component is \<open>None\<close> for \<open>errActionNotApplied\<close>.\<close>

definition applyAction :: "'w servers \<Rightarrow> ServerState \<Rightarrow> StorageAction \<Rightarrow> 'w \<times> singleClusterStateController \<Rightarrow>
    do_result option \<times> 'w \<times> singleClusterStateController" where
  "applyAction srv state act st =
     (let (w, ctrl) = st
      in if State (ss_Config state) \<noteq> Online then (Some (RNil, Some ErrServerUnavailable), w, ctrl)
         else
           let (res, w') = server_Do srv (ss_Config state) act w
           in if snd res = None \<or> snd res = Some ErrNil then (Some res, w', ctrl)
              else case UpdateServerState (state\<lparr>ss_Config := (ss_Config state)\<lparr>State := Offline\<rparr>\<rparr>) ctrl of
                     Inl panic \<Rightarrow> (Some (RNil, Some panic), w', ctrl)
                   | Inr (_, ctrl') \<Rightarrow> (None, w', ctrl'))"

text \<open>
  One round of the loop, the lookup and the action, is one step. The source releases the lock of the controller between them, so that
  its state may change in between; what other goroutines do to the state is in \<open>controller_step\<close>.
\<close>

partial_function (option) apply_loop :: "(singleClusterStateController \<Rightarrow> ServerState result option) \<Rightarrow> 'w servers \<Rightarrow>
    StorageAction \<Rightarrow> 'w \<times> singleClusterStateController \<Rightarrow> (do_result \<times> 'w \<times> singleClusterStateController) option" where
  "apply_loop lookup srv act st =
     Option.bind (lookup (snd st))
       (\<lambda>r. case r of
              Inl err \<Rightarrow> Some ((RNil, Some err), st)
            | Inr state \<Rightarrow>
                (case applyAction srv state act st of
                   (Some res, st') \<Rightarrow> Some (res, st')
                 | (None, st') \<Rightarrow> apply_loop lookup srv act st'))"

declare apply_loop.simps [code]

definition storage_Do :: "'w servers \<Rightarrow> StorageAction \<Rightarrow> 'w \<times> singleClusterStateController \<Rightarrow>
    (do_result \<times> 'w \<times> singleClusterStateController) option" where
  "storage_Do srv act = apply_loop ctrl_ServerState srv act"

definition storage_DoFor :: "'w servers \<Rightarrow> int \<Rightarrow> StorageAction \<Rightarrow> 'w \<times> singleClusterStateController \<Rightarrow>
    (do_result \<times> 'w \<times> singleClusterStateController) option" where
  "storage_DoFor srv objectIndex act = apply_loop (ctrl_ServerStateFor objectIndex) srv act"

definition smartServer_Do :: "'w servers \<Rightarrow> int \<Rightarrow> StorageAction \<Rightarrow> 'w \<times> singleClusterStateController \<Rightarrow>
    (do_result \<times> 'w \<times> singleClusterStateController) option" where
  "smartServer_Do srv index act = apply_loop (ctrl_ServerStateAt index) srv act"

definition smartServer_Config :: "int \<Rightarrow> singleClusterStateController \<Rightarrow> StorageServerConfig" where
  "smartServer_Config index ctrl =
     (case ctrl_ServerStateAt index ctrl of
        Some (Inr state) \<Rightarrow> ss_Config state
      | _ \<Rightarrow> \<lparr>Address = '''', Database = 0, State = RIP\<rparr>)"

text \<open>The indices of the servers of the iterator; the server of an index is a \<open>smartServer\<close>.\<close>

definition storage_ServerIterator :: "singleClusterStateController \<Rightarrow> int list" where
  "storage_ServerIterator ctrl = [0..ctrl_serverCount ctrl - 1]"

section \<open>Following the configuration\<close>

definition getPrimaryClusterID :: "VdiskNBDConfig \<Rightarrow> string" where "getPrimaryClusterID cfg = StorageClusterID cfg"
definition getSlaveClusterID :: "VdiskNBDConfig \<Rightarrow> string" where "getSlaveClusterID cfg = SlaveStorageClusterID cfg"
definition getTemplateClusterID :: "VdiskNBDConfig \<Rightarrow> string" where "getTemplateClusterID cfg = TemplateStorageClusterID cfg"

text \<open>
  A channel is named by the cluster it delivers configurations of; \<open>ccw_cancel\<close> says whether there is a cancel
  function. \<open>watch\<close> stands for \<open>WatchStorageClusterConfig\<close> on the configuration source: an error, or the first configuration
  the channel delivers.
\<close>

record ClusterConfigWatcher =
  ccw_clusterID :: string
  ccw_channel :: "string option"
  ccw_cancel :: bool

definition SetClusterID :: "(string \<Rightarrow> StorageClusterConfig result) \<Rightarrow> string \<Rightarrow> ClusterConfigWatcher \<Rightarrow>
    (bool \<times> error option) \<times> ClusterConfigWatcher" where
  "SetClusterID watch clusterID ccw =
     (if ccw_clusterID ccw = clusterID then ((ccw_clusterID ccw \<noteq> '''', None), ccw)
      else if clusterID = '''' then
        (if ccw_cancel ccw then ((False, None), ccw\<lparr>ccw_cancel := False, ccw_clusterID := ''''\<rparr>)
         else ((False, Some (Panic ''nil cancel function'')), ccw))
      else case watch clusterID of
             Inl err \<Rightarrow> ((False, Some err), ccw)
           | Inr _ \<Rightarrow> ((True, None), \<lparr>ccw_clusterID = clusterID, ccw_channel = Some clusterID, ccw_cancel = True\<rparr>))"

definition ccw_Defined :: "ClusterConfigWatcher \<Rightarrow> bool" where
  "ccw_Defined ccw \<longleftrightarrow> ccw_clusterID ccw \<noteq> ''''"

definition new_watcher :: ClusterConfigWatcher where
  "new_watcher = \<lparr>ccw_clusterID = '''', ccw_channel = None, ccw_cancel = False\<rparr>"

text \<open>The first part of \<open>spawnConfigReloader\<close>, up to the goroutine.\<close>

definition spawnConfigReloader :: "(VdiskNBDConfig \<Rightarrow> string) \<Rightarrow> (string \<Rightarrow> StorageClusterConfig result) \<Rightarrow> VdiskNBDConfig result \<Rightarrow> bool \<Rightarrow>
    (singleClusterStateController \<times> ClusterConfigWatcher) result" where
  "spawnConfigReloader getClusterID watch nbd isOptional =
     (case nbd of
        Inl err \<Rightarrow> Inl err
      | Inr vdiskNBDConfig \<Rightarrow>
          let clusterID = getClusterID vdiskNBDConfig;
              ctrl = \<lparr>ctrl_clusterID = clusterID, ctrl_optional = isOptional, ctrl_servers = [], ctrl_serverCount = 0\<rparr>
          in case SetClusterID watch clusterID new_watcher of
               ((_, Some err), _) \<Rightarrow> Inl err
             | ((clusterExists, None), ccw) \<Rightarrow>
                 if clusterExists
                 then (case watch clusterID of
                         Inl err \<Rightarrow> Inl err
                       | Inr clusterCfg \<Rightarrow>
                           Inr (ctrl\<lparr>ctrl_servers := Servers clusterCfg, ctrl_serverCount := int (length (Servers clusterCfg))\<rparr>, ccw))
                 else if \<not> isOptional then Inl ErrClusterNotDefined
                 else Inr (ctrl, ccw))"

text \<open>The two cases of the goroutine: a new reference to a cluster, and a configuration from the channel.\<close>

definition handle_reference :: "(VdiskNBDConfig \<Rightarrow> string) \<Rightarrow> (string \<Rightarrow> StorageClusterConfig result) \<Rightarrow> VdiskNBDConfig \<Rightarrow>
    singleClusterStateController \<times> ClusterConfigWatcher \<Rightarrow> (singleClusterStateController \<times> ClusterConfigWatcher) result" where
  "handle_reference getClusterID watch cfg st =
     (let (ctrl, ccw) = st;
          ctrl1 = ctrl\<lparr>ctrl_clusterID := getClusterID cfg\<rparr>
      in case SetClusterID watch (ctrl_clusterID ctrl1) ccw of
           ((_, Some err), ccw1) \<Rightarrow> Inr (ctrl1, ccw1)
         | ((clusterExists, None), ccw1) \<Rightarrow>
             if clusterExists then Inr (ctrl1, ccw1)
             else map_sum id (\<lambda>ctrl2. (ctrl2, ccw1)) (setServers [] ctrl1))"

definition handle_cluster_config :: "StorageServerConfig list \<Rightarrow> singleClusterStateController \<times> ClusterConfigWatcher \<Rightarrow>
    (singleClusterStateController \<times> ClusterConfigWatcher) result" where
  "handle_cluster_config ss st = (let (ctrl, ccw) = st in map_sum id (\<lambda>ctrl1. (ctrl1, ccw)) (setServers ss ctrl))"

text \<open>
  What happens to a controller: references and configurations arrive, and actions that failed report the state of
  the server they had looked up, at any time later.
\<close>

inductive controller_step :: "(VdiskNBDConfig \<Rightarrow> string) \<Rightarrow> singleClusterStateController \<times> ClusterConfigWatcher \<Rightarrow>
    singleClusterStateController \<times> ClusterConfigWatcher \<Rightarrow> bool" for getID where
  reference: "handle_reference getID watch cfg st = Inr st' \<Longrightarrow> controller_step getID st st'"
| cluster_config: "handle_cluster_config ss st = Inr st' \<Longrightarrow> ccw_channel (snd st) \<noteq> None \<Longrightarrow> controller_step getID st st'"
| report: "UpdateServerState state ctrl = Inr (b, ctrl') \<Longrightarrow> controller_step getID (ctrl, ccw) (ctrl', ccw)"

inductive_cases controller_stepE: "controller_step getID st st'"

section \<open>The servers after an update\<close>

definition ctrl_ok :: "singleClusterStateController \<Rightarrow> bool" where
  "ctrl_ok ctrl \<longleftrightarrow> ctrl_serverCount ctrl = int (length (ctrl_servers ctrl))"

definition merged :: "StorageServerConfig \<Rightarrow> StorageServerConfig \<Rightarrow> StorageServerConfig" where
  "merged old new = new\<lparr>State := if State old = State new then State new else next_state (State old) (State new)\<rparr>"

lemma update_servers_step:
  assumes "in_servers ctrl index"
  shows "update_servers index (server # ss) ctrl =
    update_servers (index + 1) ss (ctrl\<lparr>ctrl_servers := (ctrl_servers ctrl)[nat index := merged (ctrl_servers ctrl ! nat index) server]\<rparr>)"
proof -
  obtain a d t where old: "ctrl_servers ctrl ! nat index = \<lparr>Address = a, Database = d, State = t\<rparr>" by (cases "ctrl_servers ctrl ! nat index")
  have same: "ctrl\<lparr>ctrl_servers := (ctrl_servers ctrl)[nat index := \<lparr>Address = a, Database = d, State = t\<rparr>]\<rparr> = ctrl"
    using old list_update_id[of "ctrl_servers ctrl" "nat index"] by simp
  show ?thesis
    using assms by (cases server)
      (auto simp: Let_def setServerState_def update_at_def in_servers_def merged_def storageServersEqual_def old same)
qed

lemma update_servers_ok:
  assumes "0 \<le> index" and "nat index + length ss \<le> length (ctrl_servers ctrl)"
  shows "\<exists>ss'. update_servers index ss ctrl = Inr (ctrl\<lparr>ctrl_servers := ss'\<rparr>) \<and> length ss' = length (ctrl_servers ctrl) \<and>
    (\<forall>j < length ss'. ss' ! j = (if nat index \<le> j \<and> j < nat index + length ss
       then merged (ctrl_servers ctrl ! j) (ss ! (j - nat index)) else ctrl_servers ctrl ! j))"
  using assms
proof (induction ss arbitrary: index ctrl)
  case Nil
  then show ?case by (intro exI[of _ "ctrl_servers ctrl"]) auto
next
  case (Cons server ss)
  let ?l = "(ctrl_servers ctrl)[nat index := merged (ctrl_servers ctrl ! nat index) server]"
  have "in_servers ctrl index" using Cons.prems by (simp add: in_servers_def)
  note step = update_servers_step[OF this, of server ss]
  have n: "nat (index + 1) = Suc (nat index)" using Cons.prems by simp
  from Cons.IH[of "index + 1" "ctrl\<lparr>ctrl_servers := ?l\<rparr>"] Cons.prems obtain ss' where
    ih: "update_servers (index + 1) ss (ctrl\<lparr>ctrl_servers := ?l\<rparr>) = Inr (ctrl\<lparr>ctrl_servers := ss'\<rparr>)" "length ss' = length (ctrl_servers ctrl)"
    "\<forall>j < length ss'. ss' ! j = (if nat (index + 1) \<le> j \<and> j < nat (index + 1) + length ss then merged (?l ! j) (ss ! (j - nat (index + 1))) else ?l ! j)"
    by (auto simp: n)
  have "ss' ! j = (if nat index \<le> j \<and> j < nat index + length (server # ss)
       then merged (ctrl_servers ctrl ! j) ((server # ss) ! (j - nat index)) else ctrl_servers ctrl ! j)" if "j < length ss'" for j
    using that ih(2,3) by (cases "j = nat index") (auto simp: n nth_list_update nth_Cons')
  note nth = this
  show ?case
    by (rule exI[of _ ss'], intro conjI allI impI) (use step ih(1,2) nth in \<open>simp_all only:\<close>)
qed

lemma mark_unknown_ok:
  assumes "0 \<le> n" and "m \<le> int (length (ctrl_servers ctrl))"
  shows "mark_unknown [n..m - 1] ctrl = Inr (ctrl\<lparr>ctrl_servers :=
    map (\<lambda>j. if n \<le> int j \<and> int j < m then (ctrl_servers ctrl ! j)\<lparr>State := Unknown\<rparr> else ctrl_servers ctrl ! j) [0..<length (ctrl_servers ctrl)]\<rparr>)"
  using assms
proof (induction "nat (m - n)" arbitrary: n ctrl)
  case 0
  then have "(\<lambda>j. if n \<le> int j \<and> int j < m then (ctrl_servers ctrl ! j)\<lparr>State := Unknown\<rparr> else ctrl_servers ctrl ! j) = (!) (ctrl_servers ctrl)"
    by (intro ext) auto
  with 0 show ?case by (simp add: map_nth)
next
  case (Suc k)
  then have lt: "n < m" and u: "[n..m - 1] = n # [n + 1..m - 1]" by (simp_all add: upto_rec1)
  let ?l = "(ctrl_servers ctrl)[nat n := (ctrl_servers ctrl ! nat n)\<lparr>State := Unknown\<rparr>]"
  have "update_at n (\<lambda>s. s\<lparr>State := Unknown\<rparr>) ctrl = Inr (ctrl\<lparr>ctrl_servers := ?l\<rparr>)"
    using Suc.prems lt by (simp add: update_at_def in_servers_def)
  moreover have "mark_unknown [n + 1..m - 1] (ctrl\<lparr>ctrl_servers := ?l\<rparr>) = Inr (ctrl\<lparr>ctrl_servers :=
    map (\<lambda>j. if n + 1 \<le> int j \<and> int j < m then (?l ! j)\<lparr>State := Unknown\<rparr> else ?l ! j) [0..<length (ctrl_servers ctrl)]\<rparr>)"
    using Suc.hyps(1)[of "n + 1" "ctrl\<lparr>ctrl_servers := ?l\<rparr>"] Suc.hyps(2) Suc.prems by simp
  moreover have "map (\<lambda>j. if n + 1 \<le> int j \<and> int j < m then (?l ! j)\<lparr>State := Unknown\<rparr> else ?l ! j) [0..<length (ctrl_servers ctrl)] =
    map (\<lambda>j. if n \<le> int j \<and> int j < m then (ctrl_servers ctrl ! j)\<lparr>State := Unknown\<rparr> else ctrl_servers ctrl ! j) [0..<length (ctrl_servers ctrl)]"
    using lt Suc.prems by (auto simp: nth_list_update)
  ultimately show ?case by (simp add: u)
qed

text \<open>What an update does to each server of a defined cluster.\<close>

definition reloaded :: "StorageServerConfig list \<Rightarrow> StorageServerConfig list \<Rightarrow> StorageServerConfig list" where
  "reloaded old new =
     map (\<lambda>j. if j < length new then merged (old ! j) (new ! j) else (old ! j)\<lparr>State := Unknown\<rparr>) [0..<length old]"

theorem setServers_ok:
  assumes "ctrl_ok ctrl"
  shows "setServers ss ctrl = Inr (if ctrl_serverCount ctrl = 0 then ctrl\<lparr>ctrl_servers := ss, ctrl_serverCount := int (length ss)\<rparr>
           else ctrl\<lparr>ctrl_servers := reloaded (ctrl_servers ctrl) ss\<rparr>)"
proof -
  have n: "ctrl_serverCount ctrl = int (length (ctrl_servers ctrl))" using assms by (simp add: ctrl_ok_def)
  consider (less) "length ss < length (ctrl_servers ctrl)" | (grow) "length ss > length (ctrl_servers ctrl)" | (eq) "length ss = length (ctrl_servers ctrl)"
    by linarith
  then show ?thesis
  proof cases
    case less
    let ?l = "map (\<lambda>j. if int (length ss) \<le> int j \<and> int j < ctrl_serverCount ctrl then (ctrl_servers ctrl ! j)\<lparr>State := Unknown\<rparr> else ctrl_servers ctrl ! j) [0..<length (ctrl_servers ctrl)]"
    from update_servers_ok[of 0 ss "ctrl\<lparr>ctrl_servers := ?l\<rparr>"] less obtain ss' where
      u: "update_servers 0 ss (ctrl\<lparr>ctrl_servers := ?l\<rparr>) = Inr (ctrl\<lparr>ctrl_servers := ss'\<rparr>)" "length ss' = length (ctrl_servers ctrl)"
      "\<forall>j < length ss'. ss' ! j = (if j < length ss then merged (?l ! j) (ss ! j) else ?l ! j)" by auto
    have "ss' = reloaded (ctrl_servers ctrl) ss"
      using u(2,3) less n by (intro nth_equalityI) (auto simp: reloaded_def)
    moreover have "ctrl_servers ctrl \<noteq> []" using less by auto
    ultimately show ?thesis using u(1) less mark_unknown_ok[of "int (length ss)" "ctrl_serverCount ctrl" ctrl] by (simp add: setServers_def n)
  next
    case grow
    from update_servers_ok[of 0 "take (length (ctrl_servers ctrl)) ss" ctrl] grow obtain ss' where
      u: "update_servers 0 (take (length (ctrl_servers ctrl)) ss) ctrl = Inr (ctrl\<lparr>ctrl_servers := ss'\<rparr>)" "length ss' = length (ctrl_servers ctrl)"
      "\<forall>j < length ss'. ss' ! j = merged (ctrl_servers ctrl ! j) (ss ! j)" by auto
    have "ss' = reloaded (ctrl_servers ctrl) ss" using u(2,3) grow by (intro nth_equalityI) (auto simp: reloaded_def)
    with u(1) grow show ?thesis by (simp add: setServers_def n)
  next
    case eq
    from update_servers_ok[of 0 ss ctrl] eq obtain ss' where
      u: "update_servers 0 ss ctrl = Inr (ctrl\<lparr>ctrl_servers := ss'\<rparr>)" "length ss' = length (ctrl_servers ctrl)"
      "\<forall>j < length ss'. ss' ! j = merged (ctrl_servers ctrl ! j) (ss ! j)" by auto
    have "ss' = reloaded (ctrl_servers ctrl) ss" using u(2,3) eq by (intro nth_equalityI) (auto simp: reloaded_def)
    moreover have "ctrl\<lparr>ctrl_servers := [], ctrl_serverCount := 0\<rparr> = ctrl" if "ctrl_servers ctrl = []" using that n by simp
    ultimately show ?thesis using u(1) eq by (auto simp: setServers_def n reloaded_def)
  qed
qed

section \<open>What every step keeps\<close>

lemma setServers_keeps:
  assumes "ctrl_ok ctrl" and "setServers ss ctrl = Inr ctrl'"
  shows "ctrl_ok ctrl'" and "ctrl_serverCount ctrl \<noteq> 0 \<Longrightarrow> ctrl_serverCount ctrl' = ctrl_serverCount ctrl"
  using assms(2) unfolding setServers_ok[OF assms(1)] by (auto simp: ctrl_ok_def reloaded_def assms(1)[unfolded ctrl_ok_def])

lemma UpdateServerState_keeps:
  assumes "ctrl_ok ctrl" and "UpdateServerState state ctrl = Inr (b, ctrl')"
  shows "ctrl_ok ctrl'" and "ctrl_serverCount ctrl' = ctrl_serverCount ctrl"
  using assms by (auto simp: UpdateServerState_def setServerState_def update_at_def ctrl_ok_def split: if_splits)

lemma controller_step_keeps:
  assumes "controller_step getID st st'" and "ctrl_ok (fst st)"
  shows "ctrl_ok (fst st') \<and> (ctrl_serverCount (fst st) \<noteq> 0 \<longrightarrow> ctrl_serverCount (fst st') = ctrl_serverCount (fst st))"
  using assms
proof cases
  case (reference watch cfg)
  obtain ctrl ccw where st: "st = (ctrl, ccw)" by fastforce
  obtain b e ccw1 where c: "SetClusterID watch (getID cfg) ccw = ((b, e), ccw1)" by (metis prod.exhaust)
  have ok: "ctrl_ok (ctrl\<lparr>ctrl_clusterID := getID cfg\<rparr>)" using assms(2) by (simp add: st ctrl_ok_def)
  show ?thesis
  proof (cases "e \<noteq> None \<or> b")
    case True
    then have "st' = (ctrl\<lparr>ctrl_clusterID := getID cfg\<rparr>, ccw1)" using reference c by (auto simp: handle_reference_def st Let_def split: option.splits)
    then show ?thesis using ok by (simp add: st)
  next
    case False
    then obtain ctrl2 where "setServers [] (ctrl\<lparr>ctrl_clusterID := getID cfg\<rparr>) = Inr ctrl2" "st' = (ctrl2, ccw1)"
      using reference c by (cases "setServers [] (ctrl\<lparr>ctrl_clusterID := getID cfg\<rparr>)") (auto simp: handle_reference_def st)
    then show ?thesis using setServers_keeps[OF ok] by (auto simp: st)
  qed
next
  case (cluster_config ss)
  then obtain ctrl' where "setServers ss (fst st) = Inr ctrl'" "st' = (ctrl', snd st)"
    by (cases "setServers ss (fst st)") (auto simp: handle_cluster_config_def split: prod.splits)
  then show ?thesis using setServers_keeps[OF assms(2)] by auto
next
  case (report state ctrl b ctrl' ccw)
  then show ?thesis using UpdateServerState_keeps[of ctrl state b ctrl'] assms(2) by simp
qed

lemma controller_reach_keeps:
  assumes "(controller_step getID)\<^sup>*\<^sup>* st st'" and "ctrl_ok (fst st)"
  shows "ctrl_ok (fst st') \<and> (ctrl_serverCount (fst st) \<noteq> 0 \<longrightarrow> ctrl_serverCount (fst st') = ctrl_serverCount (fst st))"
  using assms(1)
proof (induction rule: rtranclp_induct)
  case base then show ?case using assms(2) by simp
next
  case (step y z) then show ?case using controller_step_keeps[of getID y z] by auto
qed

text \<open>The events are handled without a panic in every state that keeps the count of the servers.\<close>

lemma handled_without_panic:
  assumes "ctrl_ok ctrl"
  shows "\<exists>st'. handle_cluster_config ss (ctrl, ccw) = Inr st'" and "\<exists>st'. handle_reference getID watch cfg (ctrl, ccw) = Inr st'"
    and "0 \<le> ss_Index state \<Longrightarrow> \<exists>b ctrl'. UpdateServerState state ctrl = Inr (b, ctrl')"
proof -
  show "\<exists>st'. handle_cluster_config ss (ctrl, ccw) = Inr st'" by (simp add: handle_cluster_config_def setServers_ok[OF assms])
  have "ctrl_ok (ctrl\<lparr>ctrl_clusterID := getID cfg\<rparr>)" using assms by (simp add: ctrl_ok_def)
  from setServers_ok[OF this] show "\<exists>st'. handle_reference getID watch cfg (ctrl, ccw) = Inr st'"
    by (cases "SetClusterID watch (getID cfg) ccw") (auto simp: handle_reference_def Let_def split: option.splits)
  show "\<exists>b ctrl'. UpdateServerState state ctrl = Inr (b, ctrl')" if "0 \<le> ss_Index state"
    using that assms by (auto simp: UpdateServerState_def setServerState_def update_at_def in_servers_def ctrl_ok_def)
qed

lemma spawned_ok:
  assumes "spawnConfigReloader getID watch nbd isOptional = Inr (ctrl, ccw)"
  shows "ctrl_ok ctrl" and "\<not> isOptional \<Longrightarrow> ccw_clusterID ccw \<noteq> []"
  using assms by (auto simp: spawnConfigReloader_def SetClusterID_def new_watcher_def ctrl_ok_def Let_def split: sum.splits if_splits option.splits)

section \<open>Where objects are kept\<close>

lemma dead_iff:
  assumes "ctrl_ok ctrl" and "0 \<le> k" and "k < ctrl_serverCount ctrl"
  shows "ctrl_serverOperational ctrl k = (case State (ctrl_servers ctrl ! nat k) of Online \<Rightarrow> Inr True | RIP \<Rightarrow> Inr False | _ \<Rightarrow> Inl ErrServerUnavailable)"
    and "ctrl_serverOperational ctrl k \<noteq> Inr False \<longleftrightarrow> State (ctrl_servers ctrl ! nat k) \<noteq> RIP"
  using assms by (auto simp: ctrl_serverOperational_def in_servers_def ctrl_ok_def split: StorageServerState.splits)

lemma ServerStateFor_search:
  assumes ok: "ctrl_ok ctrl" and i: "0 \<le> i" and n: "ctrl_serverCount ctrl \<le> 2 ^ 15"
    and s: "0 \<le> s" "s < ctrl_serverCount ctrl" "State (ctrl_servers ctrl ! nat s) \<noteq> RIP"
  shows "\<exists>t. 0 \<le> t \<and> t < ctrl_serverCount ctrl \<and> State (ctrl_servers ctrl ! nat t) \<noteq> RIP \<and>
    (\<forall>ctrl'. ctrl_ok ctrl' \<longrightarrow> ctrl_serverCount ctrl' = ctrl_serverCount ctrl \<longrightarrow>
       (\<forall>k < length (ctrl_servers ctrl). State (ctrl_servers ctrl' ! k) = RIP \<longleftrightarrow> State (ctrl_servers ctrl ! k) = RIP) \<longrightarrow>
       ctrl_ServerStateFor i ctrl' =
         Some (if State (ctrl_servers ctrl' ! nat t) = Online then Inr \<lparr>ss_Index = t, ss_Config = ctrl_servers ctrl' ! nat t\<rparr>
               else Inl ErrServerUnavailable))"
proof -
  let ?n = "ctrl_serverCount ctrl" and ?S = "\<lambda>k. State (ctrl_servers ctrl ! nat k) \<noteq> RIP"
  from ComputeServerIndex_search[OF i n s(1,2), of ?S] s(3) obtain t where
    t: "0 \<le> t" "t < ?n" "?S t" and
    c: "\<And>p. (\<forall>k. 0 \<le> k \<longrightarrow> k < ?n \<longrightarrow> (p k \<noteq> Inr False \<longleftrightarrow> ?S k)) \<Longrightarrow> ComputeServerIndex ?n i p = Some (map_sum id (\<lambda>_. t) (p t))" by auto
  have "ctrl_ServerStateFor i ctrl' =
         Some (if State (ctrl_servers ctrl' ! nat t) = Online then Inr \<lparr>ss_Index = t, ss_Config = ctrl_servers ctrl' ! nat t\<rparr>
               else Inl ErrServerUnavailable)"
    if ok': "ctrl_ok ctrl'" and n': "ctrl_serverCount ctrl' = ?n"
      and rip: "\<forall>k < length (ctrl_servers ctrl). State (ctrl_servers ctrl' ! k) = RIP \<longleftrightarrow> State (ctrl_servers ctrl ! k) = RIP" for ctrl'
  proof -
    have r: "State (ctrl_servers ctrl' ! nat k) = RIP \<longleftrightarrow> State (ctrl_servers ctrl ! nat k) = RIP" if "0 \<le> k" "k < ?n" for k
      using rip that ok by (simp add: ctrl_ok_def)
    then have "\<forall>k. 0 \<le> k \<longrightarrow> k < ?n \<longrightarrow> (ctrl_serverOperational ctrl' k \<noteq> Inr False \<longleftrightarrow> ?S k)"
      using dead_iff(2)[OF ok'] n' by auto
    note c = c[OF this]
    have "in_servers ctrl' t" using t ok' n' by (simp add: in_servers_def ctrl_ok_def)
    then show ?thesis using t r[OF t(1,2)] dead_iff(1)[OF ok' t(1)] n' c
      by (cases "State (ctrl_servers ctrl' ! nat t)") (auto simp: ctrl_ServerStateFor_def snapshot_def)
  qed
  with t show ?thesis by blast
qed

section \<open>Applying an action\<close>

text \<open>An action on a server: its result, or the server marked as offline.\<close>

definition done_ok :: "do_result \<Rightarrow> bool" where
  "done_ok res \<longleftrightarrow> snd res = None \<or> snd res = Some ErrNil"

definition offline_at :: "int \<Rightarrow> singleClusterStateController \<Rightarrow> singleClusterStateController" where
  "offline_at t ctrl = ctrl\<lparr>ctrl_servers := (ctrl_servers ctrl)[nat t := (ctrl_servers ctrl ! nat t)\<lparr>State := Offline\<rparr>]\<rparr>"

lemma offline_at_ok: "ctrl_ok ctrl \<Longrightarrow> ctrl_ok (offline_at t ctrl)" "ctrl_serverCount (offline_at t ctrl) = ctrl_serverCount ctrl"
  by (simp_all add: ctrl_ok_def offline_at_def)

lemma applyAction_online:
  assumes "ctrl_ok ctrl" and "0 \<le> t" and "t < ctrl_serverCount ctrl" and "State (ctrl_servers ctrl ! nat t) = Online"
    and "server_Do srv (ctrl_servers ctrl ! nat t) act w = (res, w')"
  shows "applyAction srv \<lparr>ss_Index = t, ss_Config = ctrl_servers ctrl ! nat t\<rparr> act (w, ctrl) =
    (if done_ok res then (Some res, w', ctrl) else (None, w', offline_at t ctrl))"
  using assms by (simp add: applyAction_def done_ok_def UpdateServerState_def setServerState_def update_at_def in_servers_def ctrl_ok_def
      storageServersEqual_def next_state_def offline_at_def)

text \<open>
  The loop for a lookup that finds the server at a position, and fails once that server is offline, ends after at most
  two rounds.
\<close>

lemma apply_loop_once:
  assumes "ctrl_ok ctrl" and "0 \<le> t" and "t < ctrl_serverCount ctrl" and "State (ctrl_servers ctrl ! nat t) = Online"
    and "lookup ctrl = Some (Inr \<lparr>ss_Index = t, ss_Config = ctrl_servers ctrl ! nat t\<rparr>)"
    and "lookup (offline_at t ctrl) = Some (Inl e)" and "server_Do srv (ctrl_servers ctrl ! nat t) act w = (res, w')"
  shows "apply_loop lookup srv act (w, ctrl) =
    Some (if done_ok res then (res, w', ctrl) else ((RNil, Some e), w', offline_at t ctrl))"
  using assms(5,6) applyAction_online[OF assms(1-4,7)]
  by (auto simp: apply_loop.simps[of lookup srv act "(w, ctrl)"] apply_loop.simps[of lookup srv act "(w', offline_at t ctrl)"])

definition searchable :: "singleClusterStateController \<Rightarrow> bool" where
  "searchable ctrl \<longleftrightarrow> ctrl_ok ctrl \<and> ctrl_serverCount ctrl \<le> 2 ^ 15 \<and> (\<exists>s \<in> set (ctrl_servers ctrl). State s \<noteq> RIP)"

lemma searchable_found:
  assumes "searchable ctrl" and "0 \<le> i"
  obtains t where "0 \<le> t" and "t < ctrl_serverCount ctrl" and "State (ctrl_servers ctrl ! nat t) \<noteq> RIP"
    and "ctrl_ServerStateFor i ctrl = Some (if State (ctrl_servers ctrl ! nat t) = Online
      then Inr \<lparr>ss_Index = t, ss_Config = ctrl_servers ctrl ! nat t\<rparr> else Inl ErrServerUnavailable)"
    and "State (ctrl_servers ctrl ! nat t) = Online \<longrightarrow> ctrl_ServerStateFor i (offline_at t ctrl) = Some (Inl ErrServerUnavailable)"
proof -
  have ok: "ctrl_ok ctrl" and n: "ctrl_serverCount ctrl \<le> 2 ^ 15" using assms(1) by (simp_all add: searchable_def)
  from assms(1) obtain k where k: "k < length (ctrl_servers ctrl)" "State (ctrl_servers ctrl ! k) \<noteq> RIP"
    by (auto simp: searchable_def in_set_conv_nth)
  from ServerStateFor_search[OF ok assms(2) n, of "int k"] k ok obtain t where
    t: "0 \<le> t" "t < ctrl_serverCount ctrl" "State (ctrl_servers ctrl ! nat t) \<noteq> RIP" and
    l: "\<And>ctrl'. ctrl_ok ctrl' \<Longrightarrow> ctrl_serverCount ctrl' = ctrl_serverCount ctrl \<Longrightarrow>
       (\<forall>k < length (ctrl_servers ctrl). State (ctrl_servers ctrl' ! k) = RIP \<longleftrightarrow> State (ctrl_servers ctrl ! k) = RIP) \<Longrightarrow>
       ctrl_ServerStateFor i ctrl' =
         Some (if State (ctrl_servers ctrl' ! nat t) = Online then Inr \<lparr>ss_Index = t, ss_Config = ctrl_servers ctrl' ! nat t\<rparr>
               else Inl ErrServerUnavailable)" by (auto simp: ctrl_ok_def)
  have tl: "nat t < length (ctrl_servers ctrl)" using t ok by (simp add: ctrl_ok_def)
  have "ctrl_ServerStateFor i (offline_at t ctrl) = Some (Inl ErrServerUnavailable)"
    if "State (ctrl_servers ctrl ! nat t) = Online"
    using l[OF offline_at_ok(1)[OF ok] offline_at_ok(2)] tl that t(3) by (auto simp: offline_at_def nth_list_update)
  with that t l[OF ok refl] show ?thesis by blast
qed

theorem storage_DoFor_outcome:
  assumes "searchable ctrl" and "0 \<le> i"
  shows "\<exists>t. 0 \<le> t \<and> t < ctrl_serverCount ctrl \<and> State (ctrl_servers ctrl ! nat t) \<noteq> RIP \<and>
    (\<forall>act w. storage_DoFor srv i act (w, ctrl) =
       (if State (ctrl_servers ctrl ! nat t) \<noteq> Online then Some ((RNil, Some ErrServerUnavailable), w, ctrl)
        else let (res, w') = server_Do srv (ctrl_servers ctrl ! nat t) act w
             in Some (if done_ok res then (res, w', ctrl)
                      else ((RNil, Some ErrServerUnavailable), w', offline_at t ctrl)))) \<and>
    (\<forall>act w. State (ctrl_servers ctrl ! nat t) = Online \<longrightarrow>
       storage_DoFor srv i act (w, offline_at t ctrl) = Some ((RNil, Some ErrServerUnavailable), w, offline_at t ctrl))"
proof -
  have ok: "ctrl_ok ctrl" using assms(1) by (simp add: searchable_def)
  obtain t where t: "0 \<le> t" "t < ctrl_serverCount ctrl" "State (ctrl_servers ctrl ! nat t) \<noteq> RIP"
    and l: "ctrl_ServerStateFor i ctrl = Some (if State (ctrl_servers ctrl ! nat t) = Online
      then Inr \<lparr>ss_Index = t, ss_Config = ctrl_servers ctrl ! nat t\<rparr> else Inl ErrServerUnavailable)"
    and off: "State (ctrl_servers ctrl ! nat t) = Online \<longrightarrow> ctrl_ServerStateFor i (offline_at t ctrl) = Some (Inl ErrServerUnavailable)"
    by (rule searchable_found[OF assms])
  have "storage_DoFor srv i act (w, ctrl) =
       (if State (ctrl_servers ctrl ! nat t) \<noteq> Online then Some ((RNil, Some ErrServerUnavailable), w, ctrl)
        else let (res, w') = server_Do srv (ctrl_servers ctrl ! nat t) act w
             in Some (if done_ok res then (res, w', ctrl)
                      else ((RNil, Some ErrServerUnavailable), w', offline_at t ctrl)))" for act w
  proof (cases "State (ctrl_servers ctrl ! nat t) = Online")
    case True
    obtain res w' where r: "server_Do srv (ctrl_servers ctrl ! nat t) act w = (res, w')" by fastforce
    from apply_loop_once[where lookup = "ctrl_ServerStateFor i", OF ok t(1,2) True _ off[rule_format, OF True] r] l True show ?thesis
      by (simp add: storage_DoFor_def r)
  next
    case False
    with l show ?thesis by (simp add: storage_DoFor_def apply_loop.simps[of _ srv act "(w, ctrl)"])
  qed
  moreover have "storage_DoFor srv i act (w, offline_at t ctrl) = Some ((RNil, Some ErrServerUnavailable), w, offline_at t ctrl)"
    if "State (ctrl_servers ctrl ! nat t) = Online" for act w
    using off that by (simp add: storage_DoFor_def apply_loop.simps[of _ srv act "(w, offline_at t ctrl)"])
  ultimately show ?thesis using t by blast
qed

text \<open>When all servers are dead, looking for the server of an object does not return.\<close>

lemma storage_DoFor_dead:
  assumes "ctrl_ok ctrl" and "ctrl_servers ctrl \<noteq> []" and "\<forall>s \<in> set (ctrl_servers ctrl). State s = RIP" and "0 \<le> i"
    and "ctrl_serverCount ctrl \<le> 2 ^ 15"
  shows "storage_DoFor srv i act (w, ctrl) = None"
proof -
  have "ComputeServerIndex (ctrl_serverCount ctrl) i (ctrl_serverOperational ctrl) = None"
    using assms by (intro ComputeServerIndex_dead) (auto simp: ctrl_serverOperational_def in_servers_def ctrl_ok_def)
  then show ?thesis using assms(1,2)
    by (simp add: storage_DoFor_def apply_loop.simps[of _ srv act "(w, ctrl)"] ctrl_ServerStateFor_def ctrl_ok_def)
qed

section \<open>Agreement with clusters without a controller\<close>

lemma operational_agrees:
  assumes "cluster_wf cl" and "ctrl_servers ctrl = servers cl"
  shows "ctrl_serverOperational ctrl = serverOperational cl"
proof
  fix k
  have "State (servers cl ! nat k) = Online \<or> State (servers cl ! nat k) = RIP" if "0 \<le> k" "k < int (length (servers cl))"
    using assms(1) that by (simp add: cluster_wf_def nth_mem)
  then show "ctrl_serverOperational ctrl k = serverOperational cl k"
    using assms(2) by (fastforce simp: ctrl_serverOperational_def serverOperational_def in_servers_def split: StorageServerState.splits)
qed

lemma apply_loop_done:
  assumes "lookup ctrl = Some (Inr state)" and "State (ss_Config state) = Online"
    and "server_Do srv (ss_Config state) act w = (res, w')" and "done_ok res"
  shows "apply_loop lookup srv act (w, ctrl) = Some (res, w', ctrl)"
  using assms by (simp add: apply_loop.simps[of lookup srv act "(w, ctrl)"] applyAction_def done_ok_def)

theorem storage_DoFor_agrees:
  assumes wf: "cluster_wf cl" and n: "serverCount cl \<le> 2 ^ 15" and c: "ctrl_servers ctrl = servers cl" and ok: "ctrl_ok ctrl" and i: "0 \<le> i"
    and r: "Cluster_DoFor srv cl i act w = (res, w')" "done_ok res"
  shows "storage_DoFor srv i act (w, ctrl) = Some (res, w', ctrl)"
proof -
  obtain t where t: "ComputeServerIndex (serverCount cl) i (serverOperational cl) = Some (Inr t)"
    "0 \<le> t" "t < serverCount cl" "State (servers cl ! nat t) = Online" by (rule ComputeServerIndex_cluster[OF wf n i])
  have s: "serverCount cl = ctrl_serverCount ctrl" using wf ok c by (simp add: cluster_wf_def ctrl_ok_def)
  have d: "server_Do srv (servers cl ! nat t) act w = (res, w')"
    using r(1) t wf by (auto simp: Cluster_DoFor_def returned_def doAt_def cluster_wf_def split: if_splits)
  have "ctrl_ServerStateFor i ctrl = Some (Inr \<lparr>ss_Index = t, ss_Config = servers cl ! nat t\<rparr>)"
    using t wf s ok c by (auto simp: ctrl_ServerStateFor_def snapshot_def in_servers_def ctrl_ok_def operational_agrees[OF wf c])
  from apply_loop_done[where lookup = "ctrl_ServerStateFor i", OF this] t(4) d r(2) show ?thesis by (simp add: storage_DoFor_def)
qed

section \<open>Dead servers\<close>

text \<open>A dead server stays dead under configurations that do not drop it.\<close>

lemma reloaded_dead:
  assumes "j < length old" and "j < length new" and "State (old ! j) = RIP"
  shows "State (reloaded old new ! j) = RIP"
  using assms by (simp add: reloaded_def merged_def next_state_def)

text \<open>A configuration without the server and one with it bring a dead server back.\<close>

lemma dead_server_revived:
  assumes ok: "ctrl_ok ctrl" and j: "j < length (ctrl_servers ctrl)" and new: "length new = length (ctrl_servers ctrl)" "State (new ! j) = Online"
  shows "\<exists>ctrl1 ctrl2. setServers (take j new) ctrl = Inr ctrl1 \<and> setServers new ctrl1 = Inr ctrl2 \<and> State (ctrl_servers ctrl2 ! j) = Online"
proof -
  have n: "ctrl_serverCount ctrl \<noteq> 0" using ok j by (auto simp: ctrl_ok_def)
  let ?c1 = "ctrl\<lparr>ctrl_servers := reloaded (ctrl_servers ctrl) (take j new)\<rparr>"
  have ok1: "ctrl_ok ?c1" using ok by (simp add: ctrl_ok_def reloaded_def)
  have u: "State (reloaded (ctrl_servers ctrl) (take j new) ! j) = Unknown" using j new by (simp add: reloaded_def)
  have "State (reloaded (reloaded (ctrl_servers ctrl) (take j new)) new ! j) = Online"
    unfolding reloaded_def[of _ new] using u j new by (simp add: merged_def next_state_def reloaded_def)
  then show ?thesis using setServers_ok[OF ok, of "take j new"] setServers_ok[OF ok1, of new] n by simp
qed

text \<open>An iterator hands out dead servers too, on which every action fails.\<close>

lemma smartServer_dead:
  assumes "ctrl_ok ctrl" and "0 \<le> index" and "index < ctrl_serverCount ctrl" and "State (ctrl_servers ctrl ! nat index) = RIP"
  shows "index \<in> set (storage_ServerIterator ctrl)"
    and "smartServer_Do srv index act (w, ctrl) = Some ((RNil, Some ErrServerUnavailable), w, ctrl)"
  using assms by (auto simp: storage_ServerIterator_def smartServer_Do_def apply_loop.simps[of _ srv act "(w, ctrl)"]
      ctrl_ServerStateAt_def snapshot_def in_servers_def ctrl_ok_def applyAction_def)

text \<open>
  Once a cluster is no longer referenced its watcher is cancelled, which closes the channel, but the watcher still
  hands out that channel.
\<close>

lemma stale_channel:
  assumes "ccw_clusterID ccw \<noteq> []" and "ccw_cancel ccw"
  shows "SetClusterID watch [] ccw = ((False, None), ccw\<lparr>ccw_cancel := False, ccw_clusterID := []\<rparr>)"
  using assms by (simp add: SetClusterID_def)


section \<open>Every operation returns\<close>

text \<open>
  What the loops of \<open>Do\<close>, \<open>DoFor\<close> and \<open>smartServer.Do\<close> rely on of a lookup in the controller: it returns; a server
  it finds is the one at its index; and once that server is offline the lookup fails or finds it offline.
\<close>

locale controller_lookup =
  fixes lookup :: "singleClusterStateController \<Rightarrow> ServerState result option" and usable :: "singleClusterStateController \<Rightarrow> bool"
  assumes returns: "usable ctrl \<Longrightarrow> lookup ctrl \<noteq> None"
    and found: "usable ctrl \<Longrightarrow> lookup ctrl = Some (Inr state) \<Longrightarrow>
      0 \<le> ss_Index state \<and> ss_Index state < ctrl_serverCount ctrl \<and> ss_Config state = ctrl_servers ctrl ! nat (ss_Index state)"
    and well_formed: "usable ctrl \<Longrightarrow> ctrl_ok ctrl"
    and offline: "usable ctrl \<Longrightarrow> lookup ctrl = Some (Inr state) \<Longrightarrow> State (ss_Config state) = Online \<Longrightarrow>
      \<exists>r. lookup (offline_at (ss_Index state) ctrl) = Some r \<and> (\<forall>state'. r = Inr state' \<longrightarrow> State (ss_Config state') \<noteq> Online)"
begin

lemma apply_loop_idle:
  assumes "lookup ctrl = Some r" and "\<forall>state. r = Inr state \<longrightarrow> State (ss_Config state) \<noteq> Online"
  shows "\<exists>e. apply_loop lookup srv act (w, ctrl) = Some ((RNil, Some e), w, ctrl)"
  using assms by (cases r) (simp_all add: apply_loop.simps[of lookup srv act "(w, ctrl)"] applyAction_def)

theorem apply_loop_returns:
  assumes "usable ctrl"
  shows "\<exists>res w' ctrl'. apply_loop lookup srv act (w, ctrl) = Some (res, w', ctrl') \<and>
    (ctrl' = ctrl \<or> (\<exists>t. 0 \<le> t \<and> t < ctrl_serverCount ctrl \<and> ctrl' = offline_at t ctrl \<and> snd res \<noteq> None))"
proof -
  from returns[OF assms] obtain r where r: "lookup ctrl = Some r" by blast
  show ?thesis
  proof (cases "\<forall>state. r = Inr state \<longrightarrow> State (ss_Config state) \<noteq> Online")
    case True
    from apply_loop_idle[OF r True, of srv act w] show ?thesis by (elim exE) (intro exI conjI disjI1, assumption, rule refl)
  next
    case False
    then obtain state where s: "r = Inr state" "State (ss_Config state) = Online" by blast
    obtain t where t: "state = \<lparr>ss_Index = t, ss_Config = ctrl_servers ctrl ! nat t\<rparr>" "0 \<le> t" "t < ctrl_serverCount ctrl"
      using found[OF assms, of state] r s(1) by (cases state) simp
    obtain res w' where d: "server_Do srv (ctrl_servers ctrl ! nat t) act w = (res, w')" by fastforce
    have a: "applyAction srv state act (w, ctrl) = (if done_ok res then (Some res, w', ctrl) else (None, w', offline_at t ctrl))"
      unfolding t(1) using s(2) t by (intro applyAction_online[OF well_formed[OF assms] _ _ _ d]) simp_all
    show ?thesis
    proof (cases "done_ok res")
      case True
      then have "apply_loop lookup srv act (w, ctrl) = Some (res, w', ctrl)" using a r s(1) by (subst apply_loop.simps) simp
      then show ?thesis by blast
    next
      case False
      from offline[OF assms, of state] r s t(1) obtain r' where "lookup (offline_at t ctrl) = Some r'"
        "\<forall>state'. r' = Inr state' \<longrightarrow> State (ss_Config state') \<noteq> Online" by force
      from apply_loop_idle[OF this, of srv act w'] obtain e where
        "apply_loop lookup srv act (w', offline_at t ctrl) = Some ((RNil, Some e), w', offline_at t ctrl)" by blast
      then have "apply_loop lookup srv act (w, ctrl) = Some ((RNil, Some e), w', offline_at t ctrl)"
        using a r s(1) False by (subst apply_loop.simps) simp
      with t(2,3) show ?thesis by (metis snd_conv option.distinct(1))
    qed
  qed
qed

end

interpretation lookup_at: controller_lookup "ctrl_ServerStateAt index" ctrl_ok
  by unfold_locales
    (auto simp: ctrl_ServerStateAt_def snapshot_def in_servers_def ctrl_ok_def offline_at_def split: if_splits)

lemma ServerState_search:
  assumes "ctrl_ok ctrl" and "\<And>e. ctrl_ServerState ctrl \<noteq> Some (Inl e)"
  obtains t where "0 \<le> t" and "t < ctrl_serverCount ctrl" and "State (ctrl_servers ctrl ! nat t) = Online"
    and "ctrl_ServerState ctrl = Some (Inr \<lparr>ss_Index = t, ss_Config = ctrl_servers ctrl ! nat t\<rparr>)"
    and "ctrl_ServerState (offline_at t ctrl) = Some (Inl ErrServerUnavailable)"
proof -
  let ?n = "ctrl_serverCount ctrl" and ?p = "ctrl_serverOperational ctrl"
  have n: "?n \<noteq> 0" using assms(2)[of ErrClusterNotDefined] by (auto simp: ctrl_ServerState_def)
  from FindFirst_loop_returns[of ?n ?p 0] assms(2)[of ErrNoServersAvailable] n obtain t where
    t: "0 \<le> t" "t < ?n" "?p t \<noteq> Inr False" "\<forall>k. 0 \<le> k \<longrightarrow> k < t \<longrightarrow> ?p k = Inr False"
      "FindFirst_loop ?n ?p 0 = Some (map_sum id (\<lambda>_. t) (?p t))"
    by (auto simp: ctrl_ServerState_def FindFirstServerIndex_def)
  have on: "State (ctrl_servers ctrl ! nat t) = Online"
    using t n assms(2) dead_iff(1)[OF assms(1) t(1,2)]
    by (cases "State (ctrl_servers ctrl ! nat t)") (auto simp: ctrl_ServerState_def FindFirstServerIndex_def)
  have tl: "in_servers ctrl t" "nat t < length (ctrl_servers ctrl)" using t assms(1) by (auto simp: in_servers_def ctrl_ok_def)
  have st: "ctrl_ServerState ctrl = Some (Inr \<lparr>ss_Index = t, ss_Config = ctrl_servers ctrl ! nat t\<rparr>)"
    using t(5) n on tl dead_iff(1)[OF assms(1) t(1,2)] by (simp add: ctrl_ServerState_def FindFirstServerIndex_def snapshot_def)
  have off: "ctrl_serverOperational (offline_at t ctrl) k = (if k = t then Inl ErrServerUnavailable else ?p k)" if "0 \<le> k" for k
    using tl that t(1) by (auto simp: ctrl_serverOperational_def in_servers_def offline_at_def nth_list_update)
  have "FindFirst_loop ?n (ctrl_serverOperational (offline_at t ctrl)) 0 = Some (Inl ErrServerUnavailable)"
    using FindFirst_loop_stop[of 0 t ?n "ctrl_serverOperational (offline_at t ctrl)"] t(1,2,4) off by simp
  then have "ctrl_ServerState (offline_at t ctrl) = Some (Inl ErrServerUnavailable)"
    using n by (simp add: ctrl_ServerState_def FindFirstServerIndex_def offline_at_ok(2))
  with that t on st show ?thesis by blast
qed

interpretation lookup_first: controller_lookup ctrl_ServerState ctrl_ok
proof (unfold_locales, goal_cases)
  case (1 ctrl)
  then show ?case using FindFirst_loop_returns[of "ctrl_serverCount ctrl" "ctrl_serverOperational ctrl" 0]
    by (auto simp: ctrl_ServerState_def FindFirstServerIndex_def)
next
  case (2 ctrl state) then show ?case by (auto elim!: ServerState_search[of ctrl])
next
  case (3 ctrl) then show ?case .
next
  case (4 ctrl state) then show ?case by (auto elim!: ServerState_search[of ctrl])
qed

interpretation lookup_for: controller_lookup "ctrl_ServerStateFor i" "\<lambda>ctrl. searchable ctrl \<and> 0 \<le> i"
proof (unfold_locales, goal_cases)
  case (1 ctrl) then show ?case by (auto elim!: searchable_found[of ctrl i])
next
  case (2 ctrl state) then show ?case by (auto elim!: searchable_found[of ctrl i] split: if_splits)
next
  case (3 ctrl) then show ?case by (simp add: searchable_def)
next
  case (4 ctrl state) then show ?case by (auto elim!: searchable_found[of ctrl i] split: if_splits)
qed

end
