(* ===== verification/Examples.thy ===== *)
theory Examples
  imports Vdisk_Data Storage_Factory Backend Histories Cluster_State
begin

text \<open>
  Concrete clusters and storages over the in-memory server: two online servers and a dead one as the
  primary cluster, one server as the template cluster, nothing stored. The properties are
  applied to them.
\<close>

definition ex_server :: "string \<Rightarrow> StorageServerConfig" where
  "ex_server a = \<lparr>Address = a, Database = 0, State = Online\<rparr>"

definition ex_dead :: StorageServerConfig where
  "ex_dead = \<lparr>Address = ''dead:6379'', Database = 0, State = RIP\<rparr>"

definition ex_config :: StorageClusterConfig where
  "ex_config = \<lparr>Servers = [ex_server ''a:6379'', ex_dead, ex_server ''b:6379'']\<rparr>"

definition ex_cluster :: Cluster where
  "ex_cluster = \<lparr>servers = Servers ex_config, serverCount = 3, availableServerCount = 2\<rparr>"

definition ex_tcluster :: Cluster where
  "ex_tcluster = \<lparr>servers = [ex_server ''t:6379''], serverCount = 1, availableServerCount = 1\<rparr>"

definition ex_world :: mem where "ex_world = (\<lambda>s k. None)"

definition ex_cl :: "mem StorageCluster" where "ex_cl = Cluster_cluster (mem_srv {}) id ex_cluster"

definition ex_tc :: "mem StorageCluster" where "ex_tc = Cluster_cluster (mem_srv {}) id ex_tcluster"

definition ex_up :: "StorageServerConfig \<Rightarrow> bool" where "ex_up s = (s \<notin> {})"

definition ex_lba :: LBA where
  "ex_lba = \<lparr>buckets = replicate 2 (newSectorBucket 32768), bucketCount = 2\<rparr>"

definition ex_ds :: "mem dedupedStorage" where
  "ex_ds = \<lparr>ds_blockSize = 16, ds_vdiskID = ''v'', ds_zeroContentHash = pad_hash (replicate 16 0),
            ds_cluster = ex_cl, ds_templateCluster = Some ex_tc, ds_lba = ex_lba\<rparr>"

definition ex_nd :: "mem nonDedupedStorage" where
  "ex_nd = \<lparr>nd_blockSize = 16, nd_storageKey = ''nondedup:v'', nd_templateStorageKey = [], nd_vdiskID = ''v'',
            nd_templateVdiskID = [], nd_cluster = ex_cl, nd_templateCluster = None\<rparr>"

definition ex_sds :: "mem semiDedupedStorage" where
  "ex_sds = \<lparr>sd_templateStorage = ex_ds, sd_userStorage = ex_nd, sd_cluster = ex_cl, sd_bitmap = 0,
             sd_vdiskID = ''v'', sd_blockSize = 16\<rparr>"

lemmas ex_cluster_defs = ex_cluster_def ex_tcluster_def ex_config_def ex_server_def ex_dead_def

lemma ex_cluster_wf: "cluster_wf ex_cluster" "serverCount ex_cluster \<le> 2 ^ 15"
  by (simp_all add: cluster_wf_def ex_cluster_defs)

lemma ex_tcluster_wf: "cluster_wf ex_tcluster" "serverCount ex_tcluster \<le> 2 ^ 15"
  by (simp_all add: cluster_wf_def ex_cluster_defs)

lemma ex_ardb: "ardb (mem_srv {}) mem_view ex_up"
  using mem.ardb_axioms[of "{}"] by (simp add: ex_up_def[abs_def])

lemma ex_up_True [simp]: "ex_up s" by (simp add: ex_up_def)

lemma ex_ardb_cluster: "ardb_cluster (mem_srv {}) mem_view ex_up ex_cl (Cluster_route ex_cluster) (Cluster_members ex_cluster)"
  unfolding ex_cl_def by (rule Cluster_ardb_cluster[OF ex_ardb ex_cluster_wf])

lemma ex_ardb_tcluster: "ardb_cluster (mem_srv {}) mem_view ex_up ex_tc (Cluster_route ex_tcluster) (Cluster_members ex_tcluster)"
  unfolding ex_tc_def by (rule Cluster_ardb_cluster[OF ex_ardb ex_tcluster_wf])

lemma ex_dedup: "dedup (mem_srv {}) mem_view ex_up ex_cl (Cluster_route ex_cluster) (Cluster_members ex_cluster)
    pad_hash {c. length c = 16} ''v'' 16 (Some ex_tc) (Some (Cluster_route ex_tcluster)) (\<lambda>n. [0..<n])"
  using ex_ardb_tcluster
  by (intro dedup.intro[OF ex_ardb_cluster] dedup_axioms.intro) (auto simp: pad_hash_facts pad_hash_inj)

lemma ex_semidedup: "semidedup (mem_srv {}) mem_view ex_up ex_cl (Cluster_route ex_cluster) (Cluster_members ex_cluster)
    pad_hash {c. length c = 16} ''v'' 16 (Some ex_tc) (Some (Cluster_route ex_tcluster)) (\<lambda>n. [0..<n]) plain_gzip"
  by (intro semidedup.intro[OF ex_dedup plain_gzip.gzip_library_axioms] semidedup_axioms.intro)
    (auto simp: pad_hash_def string_of_bytes_def nonDedupedStorageKey_def nonDedupedStorageKeyPrefix_def
      semiDedupBitMapKey_def semiDedupBitMapKeyPrefix_def char_of_def Cluster_members_def ex_cluster_defs)

text \<open>The empty servers.\<close>

lemma ex_view [simp]: "mem_view ex_world s k = None" by (simp add: mem_view_def ex_world_def)

lemma ex_route_hash [simp]: "route_hash mem_view route k ex_world i = None" "hash_ok mem_view route ex_up k ex_world"
  by (simp_all add: route_hash_def hash_ok_def split: option.splits)

lemma ex_str [simp]: "str_val mem_view route ex_world h = None" "str_ok mem_view route ex_up ex_world h"
  by (simp_all add: str_val_def str_ok_def string_at_def split: option.splits)

lemma ex_psec: "lba_psec mem_view route vd ex_world i = replicate 4096 0" by (simp add: lba_psec_def)

lemma ex_stored_map: "stored_map (lba_psec mem_view route vd ex_world) i = None"
proof -
  have "slot_index (i mod 128)" by simp
  then show ?thesis by (simp add: stored_map_def ex_psec opt_hash_def)
qed

lemma ex_new: "Deduped pad_hash ''v'' 16 65536 ex_cl (Some ex_tc) = Inr ex_ds"
  by (simp add: Deduped_def sector_consts NewLBA_def MinimumBucketSizeLimit_def maxNumberOfSectorBuckets_def
      Let_def ex_ds_def ex_lba_def)

lemma ex_ds_inv: "ds_inv mem_view (Cluster_route ex_cluster) (Some (Cluster_route ex_tcluster)) ex_up pad_hash {c. length c = 16}
    ''v'' 16 ex_cl (Some ex_tc) (ex_ds, ex_world, [])"
  by (rule dedup.Deduped_open(1)[OF ex_dedup ex_new]) (simp_all add: lba_ok_def store_inv_def refs_inv_def ex_stored_map)

lemma ex_sd_inv: "sd_inv mem_view (Cluster_route ex_cluster) (Some (Cluster_route ex_tcluster)) ex_up pad_hash {c. length c = 16}
    ''v'' 16 ex_cl (Some ex_tc) (ex_sds, ex_world, [])"
  using ex_ds_inv by (simp add: sd_inv_def ex_sds_def ex_nd_def nonDedupedStorageKey_def nonDedupedStorageKeyPrefix_def)

lemma ex_new_cluster: "NewCluster (\<lambda>_. None) (\<lambda>_. True) ex_config = Inr ex_cluster"
  by (simp add: NewCluster_def StorageClusterConfig_Validate_def StorageServerConfig_Validate_def ex_cluster_defs Let_def)

lemma ex_nd_new: "NonDeduped ''v'' [] 16 ex_cl None = Inr ex_nd"
  by (simp add: NonDeduped_def ex_nd_def nonDedupedStorageKey_def nonDedupedStorageKeyPrefix_def)

lemma ex_nd_inv: "nd_inv mem_view (Cluster_route ex_cluster) ex_up k 16 (ex_world, [])"
  by (simp add: nd_inv_def)

text \<open>A template cluster that holds block 3 of the vdisk.\<close>

definition ex_tworld :: mem where
  "ex_tworld s k = (if Address s = ''t:6379'' \<and> k = ''nondedup:v'' then Some (MHash [(itoa 3, replicate 16 7)]) else None)"

definition ex_ndt :: "mem nonDedupedStorage" where "ex_ndt = ex_nd\<lparr>nd_templateCluster := Some ex_tc\<rparr>"

lemma ex_route:
  assumes "0 \<le> i"
  shows "\<exists>s. Cluster_route ex_cluster i = Some s \<and> Address s \<noteq> ''t:6379''"
    and "Cluster_route ex_tcluster i = Some (ex_server ''t:6379'')"
  using ardb_cluster.routed[OF ex_ardb_cluster assms] ardb_cluster.routed[OF ex_ardb_tcluster assms]
  by (auto simp: Cluster_members_def ex_cluster_defs)

lemma ex_members:
  "set (Cluster_members ex_cluster) \<inter> set (Cluster_members ex_tcluster) = {}"
  by (simp add: Cluster_members_def ex_cluster_defs)

lemma ex_tview: "mem_view ex_tworld s k =
    (if Address s = ''t:6379'' \<and> k = ''nondedup:v'' then Some (VHash [itoa 3 \<mapsto> replicate 16 7]) else None)"
  by (simp add: mem_view_def ex_tworld_def)

lemma ex_thash:
  "hash_ok mem_view route ex_up ''nondedup:v'' ex_tworld"
  "route_hash mem_view (Cluster_route ex_cluster) ''nondedup:v'' ex_tworld 3 = None"
  "route_hash mem_view (Cluster_route ex_tcluster) ''nondedup:v'' ex_tworld 3 = Some (replicate 16 7)"
  using ex_route[of 3] by (auto simp: hash_ok_def route_hash_def ex_tview ex_server_def split: option.splits)

text \<open>A template cluster that holds a content by its hash, and a vdisk with two blocks of that content.\<close>

definition ex_hworld :: mem where
  "ex_hworld s k = (if Address s = ''t:6379'' \<and> k = string_of_bytes (pad_hash (replicate 16 7))
     then Some (MString (replicate 16 7)) else None)"

lemma ex_hview: "mem_view ex_hworld s k =
    (if Address s = ''t:6379'' \<and> k = string_of_bytes (pad_hash (replicate 16 7)) then Some (VString (replicate 16 7)) else None)"
  by (simp add: mem_view_def ex_hworld_def)

lemma ex_hstr:
  "c \<in> {c. length c = 16} \<Longrightarrow> str_ok mem_view route ex_up ex_hworld (pad_hash c)"
  "c \<in> {c. length c = 16} \<Longrightarrow> str_val mem_view (Cluster_route ex_cluster) ex_hworld (pad_hash c) = None"
  "c \<in> {c. length c = 16} \<Longrightarrow> str_val mem_view (Cluster_route ex_tcluster) ex_hworld (pad_hash c) =
     (if c = replicate 16 7 then Some c else None)"
  using ex_route(1)[OF hash_slot_ge, of "pad_hash c"] ex_route(2)[OF hash_slot_ge, of "pad_hash c"]
    inj_on_eq_iff[OF pad_hash_inj, of c "replicate 16 7"]
  by (auto simp: str_ok_def str_val_def ex_hview ex_server_def string_at_def split: option.splits)

lemma ex_hlba:
  "lba_psec mem_view (Cluster_route ex_cluster) ''v'' ex_hworld = lba_psec mem_view (Cluster_route ex_cluster) ''v'' ex_world"
  "lba_ok mem_view (Cluster_route ex_cluster) ex_up ''v'' ex_hworld"
proof -
  have "string_of_bytes (pad_hash (replicate 16 7)) \<noteq> lbaStorageKey ''v''" by (simp add: pad_hash_facts)
  then have "same_but mem_view (string_of_bytes (pad_hash (replicate 16 7))) ex_world ex_hworld"
    and ne: "lbaStorageKey ''v'' \<noteq> string_of_bytes (pad_hash (replicate 16 7))"
    by (auto simp: same_but_def ex_hview)
  from lba_same_but[OF this] show
    "lba_psec mem_view (Cluster_route ex_cluster) ''v'' ex_hworld = lba_psec mem_view (Cluster_route ex_cluster) ''v'' ex_world"
    "lba_ok mem_view (Cluster_route ex_cluster) ex_up ''v'' ex_hworld" by (simp_all add: lba_ok_def)
qed

lemma ex_hinv: "ds_inv mem_view (Cluster_route ex_cluster) (Some (Cluster_route ex_tcluster)) ex_up pad_hash {c. length c = 16}
    ''v'' 16 ex_cl (Some ex_tc) (ex_ds, ex_hworld, [])"
proof (rule dedup.Deduped_open(1)[OF ex_dedup ex_new])
  show "store_inv mem_view (Cluster_route ex_cluster) ex_up pad_hash {c. length c = 16} ex_hworld"
    unfolding store_inv_def using ex_hstr by blast
  show "\<forall>r. Some (Cluster_route ex_tcluster) = Some r \<longrightarrow> store_inv mem_view r ex_up pad_hash {c. length c = 16} ex_hworld"
    unfolding store_inv_def using ex_hstr by simp
qed (simp_all add: ex_hlba refs_inv_def ex_stored_map)

lemma ex_shared:
  "\<exists>ds w. ds_inv mem_view (Cluster_route ex_cluster) (Some (Cluster_route ex_tcluster)) ex_up pad_hash {c. length c = 16}
      ''v'' 16 ex_cl (Some ex_tc) (ds, w, []) \<and>
    ds_content mem_view (Cluster_route ex_cluster) pad_hash {c. length c = 16} ''v'' (ds, w, []) 1 = Some (replicate 16 7) \<and>
    ds_content mem_view (Cluster_route ex_cluster) pad_hash {c. length c = 16} ''v'' (ds, w, []) 2 = Some (replicate 16 7) \<and>
    str_val mem_view (Cluster_route ex_cluster) w (pad_hash (replicate 16 7)) = None"
proof -
  let ?r = "Cluster_route ex_cluster" and ?t = "Cluster_route ex_tcluster" and ?C = "{c::bytes. length c = 16}"
  let ?c = "replicate 16 7 :: bytes" and ?k = "lbaStorageKey ''v''"
  note step = dedup.lba_set_step[OF ex_dedup, of _ _ "[]" _ "Some ?c"]
  have c: "?c \<in> ?C" by simp
  have k: "string_of_bytes (pad_hash ?c) \<noteq> ?k" by (simp add: pad_hash_facts)
  have sel: "?c = x \<Longrightarrow> length x = 16 \<and> available mem_view ?r (Some ?t) pad_hash w x"
    if "available mem_view ?r (Some ?t) pad_hash w ?c" for w x using that by (drule_tac sym) simp
  have av: "available mem_view ?r (Some ?t) pad_hash ex_hworld ?c" using ex_hstr(3)[OF c] by (simp add: available_def)
  obtain lba w1 where s1: "ds_inv mem_view ?r (Some ?t) ex_up pad_hash ?C ''v'' 16 ex_cl (Some ex_tc) (ex_ds\<lparr>ds_lba := lba\<rparr>, w1, [])"
    "ds_content mem_view ?r pad_hash ?C ''v'' (ex_ds\<lparr>ds_lba := lba\<rparr>, w1, []) =
       (ds_content mem_view ?r pad_hash ?C ''v'' (ex_ds, ex_hworld, []))(1 \<mapsto> ?c)"
    "same_but mem_view ?k ex_hworld w1" by (rule step[OF ex_hinv, of 1]) (use sel[OF av] in simp_all)
  have av1: "available mem_view ?r (Some ?t) pad_hash w1 ?c"
    using av str_val_same_but(1)[OF s1(3) k] by (simp add: available_def)
  obtain lba' w2 where s2: "ds_inv mem_view ?r (Some ?t) ex_up pad_hash ?C ''v'' 16 ex_cl (Some ex_tc) (ex_ds\<lparr>ds_lba := lba\<rparr>\<lparr>ds_lba := lba'\<rparr>, w2, [])"
    "ds_content mem_view ?r pad_hash ?C ''v'' (ex_ds\<lparr>ds_lba := lba\<rparr>\<lparr>ds_lba := lba'\<rparr>, w2, []) =
       (ds_content mem_view ?r pad_hash ?C ''v'' (ex_ds\<lparr>ds_lba := lba\<rparr>, w1, []))(2 \<mapsto> ?c)"
    "same_but mem_view ?k w1 w2" by (rule step[OF s1(1), of 2]) (use sel[OF av1] in simp_all)
  have "str_val mem_view ?r w2 (pad_hash ?c) = None"
    using str_val_same_but(1)[OF s2(3) k] str_val_same_but(1)[OF s1(3) k] ex_hstr(2)[OF c] by simp
  with s1 s2 show ?thesis by (intro exI[of _ "ex_ds\<lparr>ds_lba := lba\<rparr>\<lparr>ds_lba := lba'\<rparr>"] exI[of _ w2]) simp
qed

text \<open>A controller of the primary cluster, and one whose servers are all dead.\<close>

definition ex_ctrl :: singleClusterStateController where
  "ex_ctrl = \<lparr>ctrl_clusterID = ''p'', ctrl_optional = False, ctrl_servers = servers ex_cluster, ctrl_serverCount = 3\<rparr>"

definition ex_dead_ctrl :: singleClusterStateController where
  "ex_dead_ctrl = \<lparr>ctrl_clusterID = ''p'', ctrl_optional = False, ctrl_servers = [ex_dead], ctrl_serverCount = 1\<rparr>"

lemma ex_ctrl_ok: "ctrl_ok ex_ctrl" "searchable ex_ctrl" "ctrl_servers ex_ctrl = servers ex_cluster"
  by (simp_all add: ctrl_ok_def searchable_def ex_ctrl_def ex_cluster_defs)

lemma ex_dead_ctrl_ok: "ctrl_ok ex_dead_ctrl" "ctrl_servers ex_dead_ctrl \<noteq> []" "\<forall>s \<in> set (ctrl_servers ex_dead_ctrl). State s = RIP"
  by (simp_all add: ctrl_ok_def ex_dead_ctrl_def ex_cluster_defs)

end
