(* ===== verification/Copy_Fetch.thy ===== *)
theory Copy_Fetch
  imports Vdisk_Data
begin

text \<open>
  Reading a whole hash from one server page by page, as \<open>nonDedupDataFetcher\<close> and \<open>dedupMetadataFetcher\<close> of
  \<open>nbd/ardb/storage\<close> do, the Lua scripts that copy a key on one server, and what both rely on.
\<close>

section \<open>Scripts that copy a key\<close>

text \<open>
  The scripts are sent by their source; the model names the sources. \<open>copyNonDedupedSameConnScriptSource\<close> and
  \<open>copyDedupedSameConnScriptSource\<close> are the same text, \<open>copySemiDedupedMetaDataSameServerScriptSource\<close> and
  \<open>copyTlogMetadataSameConnScript\<close> differ from it in their results. They delete the destination before they dump
  the source.
\<close>

definition copySameConnScriptSource :: string where "copySameConnScriptSource = ''copySameConnScriptSource''"

definition copyKeyScriptSource :: string where "copyKeyScriptSource = ''copyKeyScriptSource''"

definition lua_restore :: "string \<Rightarrow> string \<Rightarrow> (string \<Rightarrow> rvalue option) \<Rightarrow> (string \<Rightarrow> rvalue option) result" where
  "lua_restore source destination m =
     (let m1 = m(destination := None)
      in case m1 source of
           None \<Rightarrow> Inl (ErrReply ''ERR invalid DUMP payload'')
         | Some v \<Rightarrow> Inr (m1(destination \<mapsto> v)))"

definition lua_copy_counted :: "string \<Rightarrow> string \<Rightarrow> (string \<Rightarrow> rvalue option) \<Rightarrow> do_result \<times> (string \<Rightarrow> rvalue option)" where
  "lua_copy_counted source destination m =
     (if m source = None then ((RNil, Some (ErrReply ''source does not exist'')), m)
      else case lua_restore source destination m of
             Inl e \<Rightarrow> ((RNil, Some e), m(destination := None))
           | Inr m2 \<Rightarrow> (case hash_at (m2 destination) of
                          Some h \<Rightarrow> ((RInt (int (card (dom h))), None), m2)
                        | None \<Rightarrow> ((RNil, Some (ErrReply ''WRONGTYPE'')), m2)))"

definition lua_copy_key :: "string \<Rightarrow> string \<Rightarrow> (string \<Rightarrow> rvalue option) \<Rightarrow> do_result \<times> (string \<Rightarrow> rvalue option)" where
  "lua_copy_key source destination m =
     (if m source = None then ((RInt 0, None), m)
      else case lua_restore source destination m of
             Inl e \<Rightarrow> ((RNil, Some e), m(destination := None))
           | Inr m2 \<Rightarrow> ((RInt 1, None), m2))"

lemma lua_restore_ok: "source \<noteq> destination \<Longrightarrow> m source = Some v \<Longrightarrow> lua_restore source destination m = Inr (m(destination \<mapsto> v))"
  by (simp add: lua_restore_def)

section \<open>Fetching a hash page by page\<close>

definition startCursor :: string where "startCursor = ''0''"

definition fetch_page :: "'w StorageServer \<Rightarrow> string \<Rightarrow> string \<Rightarrow> 'w \<Rightarrow> (string \<times> (int \<rightharpoonup> bytes)) result \<times> 'w" where
  "fetch_page server storageKey cursor w =
     (let (res, w') = Server_Do server (Command HashScan [AStr storageKey, AStr cursor, AStr ''COUNT'', AStr ''1000'']) w
      in case CursorAndValues res of
           Inl e \<Rightarrow> (Inl e, w')
         | Inr (next, vals) \<Rightarrow>
             (case Int64ToBytesMapping (vals, None) of
                Inl e \<Rightarrow> (Inl e, w')
              | Inr data \<Rightarrow> (Inr (next, data), w')))"

text \<open>
  Every page is handed to a goroutine that stores it; the model stores a page when it arrives. The
  results are collected after all pages were fetched: the first error, or the number of items. The scan ends
  with the start cursor, which a server need not ever return: the loop is partial.
\<close>

definition add_result :: "int result \<Rightarrow> int result \<Rightarrow> int result" where
  "add_result totalCount r =
     (case totalCount of Inl e \<Rightarrow> Inl e | Inr n \<Rightarrow> (case r of Inl e \<Rightarrow> Inl e | Inr c \<Rightarrow> Inr (n + c)))"

partial_function (option) fetch_loop ::
  "((int \<rightharpoonup> bytes) \<Rightarrow> 'w \<Rightarrow> int result \<times> 'w) \<Rightarrow> 'w StorageServer \<Rightarrow> string \<Rightarrow> string \<Rightarrow> int result \<Rightarrow> 'w \<Rightarrow>
     (int result \<times> 'w) option" where
  "fetch_loop store server storageKey cursor totalCount w =
     (case fetch_page server storageKey cursor w of
        (Inl e, w1) \<Rightarrow> Some (add_result totalCount (Inl e), w1)
      | (Inr (next, data), w1) \<Rightarrow>
          (case store data w1 of
             (r, w2) \<Rightarrow>
               if next = startCursor then Some (add_result totalCount r, w2)
               else fetch_loop store server storageKey next (add_result totalCount r) w2))"

declare fetch_loop.simps [code]

definition fetch_all :: "((int \<rightharpoonup> bytes) \<Rightarrow> 'w \<Rightarrow> int result \<times> 'w) \<Rightarrow> 'w StorageServer \<Rightarrow> string \<Rightarrow> 'w \<Rightarrow>
    (int result \<times> 'w) option" where
  "fetch_all store server storageKey w = fetch_loop store server storageKey startCursor (Inr 0) w"

section \<open>What is relied on\<close>

definition page_reply :: "bytes \<Rightarrow> (bytes \<times> bytes) list \<Rightarrow> reply" where
  "page_reply next fs = RArr [RBulk next, RArr (concat (map (\<lambda>(f, v). [RBulk f, RBulk v]) fs))]"

text \<open>
  \<open>scans srv view s k h cursor pages\<close>: from \<open>cursor\<close> on, as long as key \<open>k\<close> of server \<open>s\<close> holds the hash \<open>h\<close>, the scan
  returns these pages of fields of \<open>h\<close> (each in any order), and the start cursor with the last one only. This is
  more than Redis documents, which is only that a full iteration returns every field that is present throughout: here the
  pages are the same for all states of the server with the same hash.
\<close>

fun scans :: "'w servers \<Rightarrow> ('w \<Rightarrow> StorageServerConfig \<Rightarrow> string \<Rightarrow> rvalue option) \<Rightarrow> StorageServerConfig \<Rightarrow> string \<Rightarrow>
    (bytes \<rightharpoonup> bytes) \<Rightarrow> string \<Rightarrow> (bytes \<times> (bytes \<times> bytes) list) list \<Rightarrow> bool" where
  "scans srv view s k h cursor [] \<longleftrightarrow> False"
| "scans srv view s k h cursor ((next, fs) # pages) \<longleftrightarrow>
     (\<forall>w. hash_at (view w s k) = Some h \<longrightarrow>
        (\<exists>fs' w'. srv s ''HSCAN'' [AStr k, AStr cursor, AStr ''COUNT'', AStr ''1000''] w = ((page_reply next fs', None), w') \<and>
                  set fs' = set fs \<and> view w' = view w)) \<and>
     (\<forall>(f, v) \<in> set fs. h f = Some v) \<and>
     (if pages = [] then string_of_bytes next = startCursor
      else string_of_bytes next \<noteq> startCursor \<and> scans srv view s k h (string_of_bytes next) pages)"

definition complete_scan :: "(bytes \<rightharpoonup> bytes) \<Rightarrow> (bytes \<times> (bytes \<times> bytes) list) list \<Rightarrow> bool" where
  "complete_scan h pages \<longleftrightarrow> (\<forall>f v. h f = Some v \<longrightarrow> (\<exists>p \<in> set pages. (f, v) \<in> set (snd p)))"

locale ardb_copy = ardb +
  assumes hscan: "up s \<Longrightarrow> finite (dom h) \<Longrightarrow> \<exists>pages. scans srv view s k h startCursor pages \<and> complete_scan h pages"
    and eval_copy: "up s \<Longrightarrow>
      \<exists>w'. srv s ''EVAL'' [AStr copySameConnScriptSource, AStr a, AStr b] w = (fst (lua_copy_counted a b (view w s)), w') \<and>
           view w' = (view w)(s := snd (lua_copy_counted a b (view w s)))"
    and eval_copy_key: "up s \<Longrightarrow>
      \<exists>w'. srv s ''EVAL'' [AStr copyKeyScriptSource, AStr a, AStr b] w = (fst (lua_copy_key a b (view w s)), w') \<and>
           view w' = (view w)(s := snd (lua_copy_key a b (view w s)))"
    and hget_field: "up s \<Longrightarrow> hash_at (view w s k) = Some h \<Longrightarrow>
      \<exists>w'. srv s ''HGET'' [AStr k, AStr f] w = ((opt_bulk (h (bytes_of_string f)), None), w') \<and> view w' = view w"
    and hset_field: "up s \<Longrightarrow> hash_at (view w s k) = Some h \<Longrightarrow>
      \<exists>r w'. srv s ''HSET'' [AStr k, AStr f, AInt n] w = ((r, None), w') \<and>
             view w' = key_upd (view w) s k (Some (VHash (h(bytes_of_string f \<mapsto> itoa n))))"

section \<open>A server in memory that scans and runs the scripts\<close>

definition mem_of_hash :: "mem_value \<Rightarrow> do_result" where
  "mem_of_hash v = (case v of MHash h \<Rightarrow> (RInt (int (length (remdups (map fst h)))), None)
                    | MString _ \<Rightarrow> (RNil, Some (ErrReply ''WRONGTYPE'')))"

definition mem_eval :: "string \<Rightarrow> string \<Rightarrow> string \<Rightarrow> StorageServerConfig \<Rightarrow> mem \<Rightarrow> do_result \<times> mem" where
  "mem_eval script a b s w =
     (case w s a of
        None \<Rightarrow> (if script = copySameConnScriptSource then (RNil, Some (ErrReply ''source does not exist'')) else (RInt 0, None), w)
      | Some v \<Rightarrow>
          if a = b then ((RNil, Some (ErrReply ''ERR invalid DUMP payload'')), mem_upd w s b None)
          else (if script = copySameConnScriptSource then mem_of_hash v else (RInt 1, None), mem_upd w s b (Some v)))"

text \<open>All fields in one page.\<close>

definition mem_copy_srv :: "StorageServerConfig set \<Rightarrow> mem servers" where
  "mem_copy_srv failing s nm args w =
     (if s \<in> failing \<or> nm \<notin> {''EVAL'', ''HSCAN''} then mem_srv failing s nm args w
      else if nm = ''EVAL'' then
        (case args of [AStr script, AStr a, AStr b] \<Rightarrow> mem_eval script a b s w
         | _ \<Rightarrow> ((RNil, Some (ErrReply ''ERR'')), w))
      else (case args of
              (k # _) \<Rightarrow> (case mem_hash (w s (arg_key k)) of
                            None \<Rightarrow> wrongtype w
                          | Some h \<Rightarrow> ((page_reply [48] (map (\<lambda>f. (f, the (map_of h f))) (remdups (map fst h))), None), w))
            | [] \<Rightarrow> ((RNil, Some (ErrReply ''ERR'')), w)))"

lemma mem_eval_copy:
  "fst (mem_eval copySameConnScriptSource a b s w) = fst (lua_copy_counted a b (mem_view w s))"
  "mem_view (snd (mem_eval copySameConnScriptSource a b s w)) = (mem_view w)(s := snd (lua_copy_counted a b (mem_view w s)))"
proof -
  have c: "int (length (remdups (map fst h))) = int (card (dom (map_of h)))" for h :: "(bytes \<times> bytes) list"
    by (simp add: dom_map_of_conv_image_fst length_remdups_card_conv)
  show "fst (mem_eval copySameConnScriptSource a b s w) = fst (lua_copy_counted a b (mem_view w s))"
    using c by (auto simp: mem_eval_def lua_copy_counted_def lua_restore_def mem_view_def mem_of_hash_def Let_def hash_at_def
        split: option.splits mem_value.splits)
  show "mem_view (snd (mem_eval copySameConnScriptSource a b s w)) = (mem_view w)(s := snd (lua_copy_counted a b (mem_view w s)))"
    by (cases "w s a")
      (auto simp: mem_eval_def lua_copy_counted_def lua_restore_def mem_view_def mem_upd_def Let_def hash_at_def fun_eq_iff
        split: option.split mem_value.split)
qed

lemma mem_eval_key:
  "fst (mem_eval copyKeyScriptSource a b s w) = fst (lua_copy_key a b (mem_view w s))"
  "mem_view (snd (mem_eval copyKeyScriptSource a b s w)) = (mem_view w)(s := snd (lua_copy_key a b (mem_view w s)))"
proof -
  have d: "copyKeyScriptSource \<noteq> copySameConnScriptSource" by (simp add: copyKeyScriptSource_def copySameConnScriptSource_def)
  then show "fst (mem_eval copyKeyScriptSource a b s w) = fst (lua_copy_key a b (mem_view w s))"
    by (auto simp: mem_eval_def lua_copy_key_def lua_restore_def mem_view_def Let_def split: option.splits mem_value.splits)
  show "mem_view (snd (mem_eval copyKeyScriptSource a b s w)) = (mem_view w)(s := snd (lua_copy_key a b (mem_view w s)))"
    using d by (cases "w s a")
      (auto simp: mem_eval_def lua_copy_key_def lua_restore_def mem_view_def mem_upd_def Let_def fun_eq_iff
        split: option.split mem_value.split)
qed

lemma mem_copy_eq: "nm \<notin> {''EVAL'', ''HSCAN''} \<Longrightarrow> mem_copy_srv failing s nm args w = mem_srv failing s nm args w"
  by (simp add: mem_copy_srv_def)

interpretation mem_copy: ardb_copy "mem_copy_srv failing" mem_view "\<lambda>s. s \<notin> failing"
proof (unfold_locales, goal_cases)
  case (1 s nm args w) then show ?case by (simp add: mem_copy_srv_def mem_srv_def)
next
  case (2 s w k h i) then show ?case using mem.hget by (simp add: mem_copy_eq)
next
  case (3 s w k h i b) then show ?case using mem.hset by (simp add: mem_copy_eq)
next
  case (4 s w k h i) then show ?case using mem.hdel by (simp add: mem_copy_eq)
next
  case (5 s w k h) then show ?case using mem.hkeys by (simp add: mem_copy_eq)
next
  case (6 s w kb v) then show ?case using mem.get_bytes by (simp add: mem_copy_eq)
next
  case (7 s w kb b) then show ?case using mem.set_bytes by (simp add: mem_copy_eq)
next
  case (8 s w k v) then show ?case using mem.get_str by (simp add: mem_copy_eq)
next
  case (9 s w k b) then show ?case using mem.set_str by (simp add: mem_copy_eq)
next
  case (10 s w k) then show ?case using mem.del by (simp add: mem_copy_eq)
next
  case (11 s w k) then show ?case using mem.exists by (simp add: mem_copy_eq)
next
  case (12 s w k i) then show ?case using mem.hget_wrong by (simp add: mem_copy_eq)
next
  case (13 s w k i b) then show ?case using mem.hset_wrong by (simp add: mem_copy_eq)
next
  case (14 s w k i) then show ?case using mem.hdel_wrong by (simp add: mem_copy_eq)
next
  case (15 s h k)
  obtain fs where fs: "set fs = dom h" using finite_list[OF 15(2)] by blast
  let ?fs = "map (\<lambda>f. (f, the (h f))) fs"
  have "\<exists>fs' w'. mem_copy_srv failing s ''HSCAN'' [AStr k, AStr startCursor, AStr ''COUNT'', AStr ''1000''] w =
      ((page_reply [48] fs', None), w') \<and> set fs' = set ?fs \<and> mem_view w' = mem_view w"
    if w: "hash_at (mem_view w s k) = Some h" for w
  proof -
    from w obtain xs where xs: "mem_hash (w s k) = Some xs" "map_of xs = h" by (blast elim: mem_hash_view)
    then have "set (remdups (map fst xs)) = set fs" unfolding fs xs(2)[symmetric] dom_map_of_conv_image_fst by simp
    then have "set (map (\<lambda>f. (f, the (map_of xs f))) (remdups (map fst xs))) = set ?fs"
      unfolding set_map xs(2) by simp
    with 15(1) xs show ?thesis by (auto simp: mem_copy_srv_def arg_key_def)
  qed
  moreover have "string_of_bytes [48] = startCursor" by code_simp
  moreover have "complete_scan h [([48], ?fs)]" using fs by (auto simp: complete_scan_def image_iff)
  ultimately show ?case using fs by (intro exI[of _ "[([48], ?fs)]"]) auto
next
  case (16 s a b w)
  then show ?case using mem_eval_copy[of a b s w]
    by (intro exI[of _ "snd (mem_eval copySameConnScriptSource a b s w)"]) (simp add: mem_copy_srv_def prod_eq_iff)
next
  case (17 s a b w)
  then show ?case using mem_eval_key[of a b s w]
    by (intro exI[of _ "snd (mem_eval copyKeyScriptSource a b s w)"]) (simp add: mem_copy_srv_def prod_eq_iff)
next
  case (18 s w k h f)
  then obtain xs where "mem_hash (w s k) = Some xs" "map_of xs = h" by (blast elim: mem_hash_view)
  with 18 show ?case by (simp add: mem_copy_eq mem_defs)
next
  case (19 s w k h f n)
  then obtain xs where "mem_hash (w s k) = Some xs" "map_of xs = h" by (blast elim: mem_hash_view)
  with 19 show ?case by (simp add: mem_copy_eq mem_defs)
qed

section \<open>Fetching returns, with every field\<close>

lemma mapping_pairs_ok:
  assumes "\<forall>(f, v) \<in> set fs. h f = Some v \<and> (\<exists>i. f = itoa i \<and> - (2 ^ 63) \<le> i \<and> i < 2 ^ 63)"
    and "m \<subseteq>\<^sub>m (\<lambda>i. h (itoa i))"
  shows "\<exists>d. mapping_pairs (concat (map (\<lambda>(f, v). [RBulk f, RBulk v]) fs)) m = Inr d \<and> d \<subseteq>\<^sub>m (\<lambda>i. h (itoa i)) \<and>
    dom d = dom m \<union> {i. itoa i \<in> fst ` set fs}"
  using assms
proof (induction fs arbitrary: m)
  case (Cons x fs)
  obtain f v where x: "x = (f, v)" by fastforce
  from Cons.prems(1) x obtain i where i: "f = itoa i" "- (2 ^ 63) \<le> i" "i < 2 ^ 63" "h (itoa i) = Some v" by auto
  have "m(i \<mapsto> v) \<subseteq>\<^sub>m (\<lambda>i. h (itoa i))" using Cons.prems(2) i(4) by (auto simp: map_le_def)
  moreover have "\<forall>(f, v) \<in> set fs. h f = Some v \<and> (\<exists>i. f = itoa i \<and> - (2 ^ 63) \<le> i \<and> i < 2 ^ 63)"
    using Cons.prems(1) by simp
  ultimately obtain d where
    "mapping_pairs (concat (map (\<lambda>(f, v). [RBulk f, RBulk v]) fs)) (m(i \<mapsto> v)) = Inr d" "d \<subseteq>\<^sub>m (\<lambda>i. h (itoa i))"
    "dom d = dom (m(i \<mapsto> v)) \<union> {i. itoa i \<in> fst ` set fs}" using Cons.IH by blast
  with i show ?case by (auto simp: x redis_Int64_def redis_Bytes_def ParseInt_itoa itoa_inject)
qed simp

lemma length_page: "length (concat (map (\<lambda>(f, v). [RBulk f, RBulk v]) fs)) = 2 * length fs"
  by (induction fs) auto

context ardb_copy
begin

lemma fetch_page_ok:
  assumes sc: "scans srv view s k h cursor ((next, fs) # pages)" and w: "hash_at (view w s k) = Some h"
    and on: "State s = Online" and idx: "index_fields h"
  shows "\<exists>d w'. fetch_page (storageServer srv s) k cursor w = (Inr (string_of_bytes next, d), w') \<and> view w' = view w \<and>
    d \<subseteq>\<^sub>m (\<lambda>i. h (itoa i)) \<and> dom d = {i. itoa i \<in> fst ` set fs}"
proof -
  from sc w obtain fs' w' where
    w': "srv s ''HSCAN'' [AStr k, AStr cursor, AStr ''COUNT'', AStr ''1000''] w = ((page_reply next fs', None), w')" "view w' = view w"
    and fs': "set fs' = set fs" by auto
  have "\<forall>(f, v) \<in> set fs'. h f = Some v \<and> (\<exists>i. f = itoa i \<and> - (2 ^ 63) \<le> i \<and> i < 2 ^ 63)"
    using sc idx fs' by (fastforce simp: index_fields_def)
  from mapping_pairs_ok[OF this, of Map.empty] obtain d where
    d: "mapping_pairs (concat (map (\<lambda>(f, v). [RBulk f, RBulk v]) fs')) Map.empty = Inr d" "d \<subseteq>\<^sub>m (\<lambda>i. h (itoa i))"
    "dom d = {i. itoa i \<in> fst ` set fs}" by (auto simp: fs')
  have "fetch_page (storageServer srv s) k cursor w = (Inr (string_of_bytes next, d), w')"
    using w' d(1) on by (simp add: fetch_page_def storageServer_def server_Do_def Dial_def HashScan_def page_reply_def
        CursorAndValues_def redis_Values_def redis_String_def Int64ToBytesMapping_def length_page)
  with w'(2) d show ?thesis by blast
qed

text \<open>
  Storing the pages of a scan into a target \<open>T\<close>, for a store that keeps the hash scanned (\<open>Q\<close>) and adds the data of a
  page to the target.
\<close>

lemma fetch_loop_ok:
  assumes sc: "scans srv view s k h cursor pages" and on: "State s = Online" and idx: "index_fields h"
    and store: "\<And>data w. data \<subseteq>\<^sub>m (\<lambda>i. h (itoa i)) \<Longrightarrow> Q w \<Longrightarrow>
      \<exists>c w'. store data w = (Inr c, w') \<and> Q w' \<and> T w' = T w ++ data \<and> 0 \<le> c \<and> (c = 0 \<longleftrightarrow> data = Map.empty)"
    and Q_hash: "\<And>w. Q w \<Longrightarrow> hash_at (view w s k) = Some h"
    and Q_view: "\<And>w w'. Q w \<Longrightarrow> view w' = view w \<Longrightarrow> Q w' \<and> T w' = T w"
    and Q: "Q w"
  shows "\<exists>n w' d. fetch_loop store (storageServer srv s) k cursor (Inr n0) w = Some (Inr (n0 + n), w') \<and> Q w' \<and>
    T w' = T w ++ d \<and> d \<subseteq>\<^sub>m (\<lambda>i. h (itoa i)) \<and> dom d = {i. \<exists>p \<in> set pages. itoa i \<in> fst ` set (snd p)} \<and>
    0 \<le> n \<and> (n = 0 \<longleftrightarrow> d = Map.empty)"
  using sc Q
proof (induction pages arbitrary: cursor n0 w)
  case (Cons x pages)
  obtain nxt fs where x: "x = (nxt, fs)" by fastforce
  from fetch_page_ok[OF Cons.prems(1)[unfolded x] Q_hash[OF Cons.prems(2)] on idx] obtain d1 w1 where
    p: "fetch_page (storageServer srv s) k cursor w = (Inr (string_of_bytes nxt, d1), w1)" "view w1 = view w"
    and d1: "d1 \<subseteq>\<^sub>m (\<lambda>i. h (itoa i))" "dom d1 = {i. itoa i \<in> fst ` set fs}" by blast
  have Q1: "Q w1" "T w1 = T w" using Q_view[OF Cons.prems(2) p(2)] by simp_all
  from store[OF d1(1) Q1(1)] obtain c w2 where
    st: "store d1 w1 = (Inr c, w2)" "Q w2" "T w2 = T w1 ++ d1" "0 \<le> c" "c = 0 \<longleftrightarrow> d1 = Map.empty" by blast
  note step = fetch_loop.simps[of store "storageServer srv s" k cursor "Inr n0" w]
  show ?case
  proof (cases "pages = []")
    case True
    with Cons.prems(1) have "string_of_bytes nxt = startCursor" by (simp add: x)
    then have "fetch_loop store (storageServer srv s) k cursor (Inr n0) w = Some (Inr (n0 + c), w2)"
      using p st by (simp add: step add_result_def)
    with st d1 Q1 True show ?thesis by (intro exI[of _ c] exI[of _ w2] exI[of _ d1]) (auto simp: x)
  next
    case False
    with Cons.prems(1) have nz: "string_of_bytes nxt \<noteq> startCursor"
      and sc2: "scans srv view s k h (string_of_bytes nxt) pages" by (simp_all add: x)
    from Cons.IH[OF sc2 st(2), of "n0 + c"] obtain n w3 d2 where
      ih: "fetch_loop store (storageServer srv s) k (string_of_bytes nxt) (Inr (n0 + c)) w2 = Some (Inr (n0 + c + n), w3)"
      "Q w3" "T w3 = T w2 ++ d2" "d2 \<subseteq>\<^sub>m (\<lambda>i. h (itoa i))" "dom d2 = {i. \<exists>p \<in> set pages. itoa i \<in> fst ` set (snd p)}"
      "0 \<le> n" "n = 0 \<longleftrightarrow> d2 = Map.empty" by blast
    have "fetch_loop store (storageServer srv s) k cursor (Inr n0) w = Some (Inr (n0 + (c + n)), w3)"
      using p st(1) ih(1) nz by (simp add: step add_result_def add.assoc)
    moreover have "d1 ++ d2 \<subseteq>\<^sub>m (\<lambda>i. h (itoa i))" using d1(1) ih(4)
      by (auto simp: map_le_def map_add_def split: option.splits) (metis domI)+
    moreover have "dom (d1 ++ d2) = {i. \<exists>p \<in> set (x # pages). itoa i \<in> fst ` set (snd p)}" using d1(2) ih(5) by (auto simp: x)
    moreover have "c + n = 0 \<longleftrightarrow> d1 ++ d2 = Map.empty" using st(4,5) ih(6,7) by auto
    ultimately show ?thesis using ih(2,3,6) st(3,4) Q1(2)
      by (intro exI[of _ "c + n"] exI[of _ w3] exI[of _ "d1 ++ d2"]) auto
  qed
qed simp

lemma fetch_all_ok:
  assumes up: "up s" and on: "State s = Online" and idx: "index_fields h"
    and store: "\<And>data w. data \<subseteq>\<^sub>m (\<lambda>i. h (itoa i)) \<Longrightarrow> Q w \<Longrightarrow>
      \<exists>c w'. store data w = (Inr c, w') \<and> Q w' \<and> T w' = T w ++ data \<and> 0 \<le> c \<and> (c = 0 \<longleftrightarrow> data = Map.empty)"
    and Q_hash: "\<And>w. Q w \<Longrightarrow> hash_at (view w s k) = Some h"
    and Q_view: "\<And>w w'. Q w \<Longrightarrow> view w' = view w \<Longrightarrow> Q w' \<and> T w' = T w"
    and Q: "Q w"
  shows "\<exists>n w'. fetch_all store (storageServer srv s) k w = Some (Inr n, w') \<and> Q w' \<and> T w' = T w ++ (\<lambda>i. h (itoa i)) \<and>
    0 \<le> n \<and> (n = 0 \<longleftrightarrow> h = Map.empty)"
proof -
  have "finite (dom h)" using idx by (simp add: index_fields_def)
  from hscan[OF up this, of k] obtain pages where sc: "scans srv view s k h startCursor pages" and c: "complete_scan h pages" by blast
  have "\<exists>n w' d. fetch_loop store (storageServer srv s) k startCursor (Inr 0) w = Some (Inr (0 + n), w') \<and> Q w' \<and>
    T w' = T w ++ d \<and> d \<subseteq>\<^sub>m (\<lambda>i. h (itoa i)) \<and> dom d = {i. \<exists>p \<in> set pages. itoa i \<in> fst ` set (snd p)} \<and>
    0 \<le> n \<and> (n = 0 \<longleftrightarrow> d = Map.empty)"
    by (rule fetch_loop_ok[OF sc on idx store Q_hash Q_view Q])
  then obtain n w' d where
    f: "fetch_loop store (storageServer srv s) k startCursor (Inr 0) w = Some (Inr (0 + n), w')" "Q w'" "T w' = T w ++ d"
    and d: "d \<subseteq>\<^sub>m (\<lambda>i. h (itoa i))" "dom d = {i. \<exists>p \<in> set pages. itoa i \<in> fst ` set (snd p)}" and n: "0 \<le> n" "n = 0 \<longleftrightarrow> d = Map.empty"
    by blast
  have "d i = h (itoa i)" for i
  proof (cases "h (itoa i)")
    case None
    then show ?thesis using d(1) by (metis domIff map_le_def)
  next
    case (Some v)
    with c obtain p where "p \<in> set pages" "(itoa i, v) \<in> set (snd p)" unfolding complete_scan_def by blast
    then have "i \<in> dom d" unfolding d(2) by force
    then show ?thesis using d(1) by (simp add: map_le_def)
  qed
  then have de: "d = (\<lambda>i. h (itoa i))" by (rule ext)
  have "h = Map.empty \<longleftrightarrow> (\<lambda>i. h (itoa i)) = Map.empty"
    using idx unfolding index_fields_def fun_eq_iff by (metis domIff)
  with f de n show ?thesis by (auto simp: fetch_all_def)
qed

end

end
