(* ===== verification/Vdisk_Copy.thy ===== *)
theory Vdisk_Copy
  imports Copy_Fetch
begin

text \<open>
  Copying a vdisk within a cluster or between clusters (\<open>copyNonDedupedData\<close>, \<open>copyDedupedMetadata\<close>,
  \<open>copySemiDeduped\<close> and \<open>CopyVdisk\<close> of \<open>nbd/ardb/storage\<close>). A function that may not return is an option; the
  goroutines per server run in the order \<open>arrive\<close>; \<open>enum\<close> lists a Go map in the order it is ranged over.
\<close>

section \<open>Storing one page\<close>

type_synonym page_enum = "(int \<rightharpoonup> bytes) \<Rightarrow> (int \<times> bytes) list"

text \<open>
  Buffered \<open>HSET\<close> commands, flushed in one go: an error reply to a single command is an element of the reply and
  not an error.
\<close>

definition store_on_server :: "page_enum \<Rightarrow> string \<Rightarrow> 'w StorageServer \<Rightarrow> (int \<rightharpoonup> bytes) \<Rightarrow> 'w \<Rightarrow> int result \<times> 'w" where
  "store_on_server enum targetKey dst data w =
     (let xs = enum data
      in if length xs = 0 then (Inr 0, w)
         else let (res, w') = Server_Do dst (StorageCommands (Some
                    (map (\<lambda>(index, hash). Command HashSet [AStr targetKey, AInt index, ABytes hash]) xs))) w
              in (case reply_Error res of Some e \<Rightarrow> Inl e | None \<Rightarrow> Inr (int (length xs)), w'))"

fun set_blocks :: "'w BlockStorage \<Rightarrow> (int \<times> bytes) list \<Rightarrow> 'w \<Rightarrow> error option \<times> 'w" where
  "set_blocks storage [] w = (None, w)"
| "set_blocks storage ((index, b) # xs) w =
     (case SetBlock storage index b w of (Some e, w') \<Rightarrow> (Some e, w') | (None, w') \<Rightarrow> set_blocks storage xs w')"

definition store_in_block_storage :: "page_enum \<Rightarrow> 'w BlockStorage \<Rightarrow> (int \<rightharpoonup> bytes) \<Rightarrow> 'w \<Rightarrow> int result \<times> 'w" where
  "store_in_block_storage enum storage data w =
     (let xs = enum data
      in if length xs = 0 then (Inr 0, w)
         else case set_blocks storage xs w of
                (Some e, w1) \<Rightarrow> (Inl e, w1)
              | (None, w1) \<Rightarrow> (case Flush storage w1 of (Some e, w2) \<Rightarrow> (Inl e, w2) | (None, w2) \<Rightarrow> (Inr (int (length xs)), w2)))"

fun set_sectors :: "'w SectorStorage \<Rightarrow> (int \<times> bytes) list \<Rightarrow> 'w \<Rightarrow> error option \<times> 'w" where
  "set_sectors storage [] w = (None, w)"
| "set_sectors storage ((index, b) # xs) w =
     (case SectorFromBytes b of
        Inl e \<Rightarrow> (Some e, w)
      | Inr s \<Rightarrow>
          (case SetSector storage index s w of (Some e, w') \<Rightarrow> (Some e, w') | (None, w') \<Rightarrow> set_sectors storage xs w'))"

definition store_in_lba_storage :: "page_enum \<Rightarrow> 'w SectorStorage \<Rightarrow> (int \<rightharpoonup> bytes) \<Rightarrow> 'w \<Rightarrow> int result \<times> 'w" where
  "store_in_lba_storage enum storage data w =
     (let xs = enum data
      in if length xs = 0 then (Inr 0, w)
         else case set_sectors storage xs w of
                (Some e, w1) \<Rightarrow> (Inl e, w1)
              | (None, w1) \<Rightarrow> (Inr (int (length xs)), w1))"

section \<open>Copying server by server\<close>

type_synonym 'w copy_job = "'w \<Rightarrow> (int result \<times> 'w) option"

text \<open>
  One job per server, in the order in which they act. After an error the source returns while the other goroutines are
  still running; here they all act, so on an error the state is that after all of them.
\<close>

fun run_jobs :: "'w copy_job list \<Rightarrow> int result \<Rightarrow> 'w \<Rightarrow> (int result \<times> 'w) option" where
  "run_jobs [] totalCount w = Some (totalCount, w)"
| "run_jobs (j # js) totalCount w =
     Option.bind (j w) (\<lambda>(r, w'). run_jobs js (add_result totalCount r) w')"

definition copy_collect :: "'w copy_job list \<Rightarrow> 'w \<Rightarrow> (error option \<times> 'w) option" where
  "copy_collect jobs w =
     map_option (\<lambda>(totalCount, w').
       (case totalCount of Inl e \<Rightarrow> Some e
        | Inr n \<Rightarrow> if n = 0 then Some (ErrOther ''no data was copied'') else None, w')) (run_jobs jobs (Inr 0) w)"

definition script_job :: "StorageAction \<Rightarrow> 'w StorageServer \<Rightarrow> 'w copy_job" where
  "script_job act server w = (let (res, w') = Server_Do server act w in Some (reply_Int64 res, w'))"

definition copy_script :: "string \<Rightarrow> string \<Rightarrow> StorageAction" where
  "copy_script sourceKey targetKey =
     StorageScript copySameConnScriptSource (Some [targetKey]) [AStr sourceKey, AStr targetKey]"

definition copy_between_servers :: "page_enum \<Rightarrow> string \<Rightarrow> string \<Rightarrow> 'w StorageServer \<Rightarrow> 'w StorageServer \<Rightarrow> 'w copy_job" where
  "copy_between_servers enum sourceKey targetKey src dst w =
     fetch_all (store_on_server enum targetKey dst) src sourceKey w"

definition copy_same_cluster :: "('w StorageServer list \<Rightarrow> 'w StorageServer list) \<Rightarrow> string \<Rightarrow> string \<Rightarrow>
    'w StorageCluster \<Rightarrow> 'w \<Rightarrow> (error option \<times> 'w) option" where
  "copy_same_cluster arrive sourceKey targetKey cluster w =
     (case ServerIterator cluster of
        Inl e \<Rightarrow> Some (Some e, w)
      | Inr ss \<Rightarrow> copy_collect (map (script_job (copy_script sourceKey targetKey)) (arrive ss)) w)"

definition copy_same_count :: "page_enum \<Rightarrow> string \<Rightarrow> string \<Rightarrow> 'w StorageCluster \<Rightarrow> 'w StorageCluster \<Rightarrow> 'w \<Rightarrow>
    (error option \<times> 'w) option" where
  "copy_same_count enum sourceKey targetKey sourceCluster targetCluster w =
     (case ServerIterator sourceCluster of
        Inl e \<Rightarrow> Some (Some e, w)
      | Inr ss \<Rightarrow>
          (case ServerIterator targetCluster of
             Inl e \<Rightarrow> Some (Some e, w)
           | Inr ds \<Rightarrow>
               if length ds < length ss
               then Some (Some (Panic ''destination servers ran out before source servers''), w)
               else copy_collect
                 (map (\<lambda>(src, dst).
                    if StorageServerConfig_Equal (Some (Server_Config src)) (Server_Config dst)
                    then script_job (copy_script sourceKey targetKey) src
                    else copy_between_servers enum sourceKey targetKey src dst) (zip ss ds)) w))"

subsection \<open>Non-deduped data\<close>

definition copyNonDedupedBetweenServers where
  "copyNonDedupedBetweenServers = copy_between_servers"

definition copyNonDedupDataToBlockStorage :: "page_enum \<Rightarrow> string \<Rightarrow> 'w StorageServer \<Rightarrow> 'w BlockStorage \<Rightarrow> 'w copy_job" where
  "copyNonDedupDataToBlockStorage enum sourceKey src storage w =
     fetch_all (store_in_block_storage enum storage) src sourceKey w"

definition copyNonDedupedSameCluster :: "('w StorageServer list \<Rightarrow> 'w StorageServer list) \<Rightarrow> string \<Rightarrow> string \<Rightarrow>
    'w StorageCluster \<Rightarrow> 'w \<Rightarrow> (error option \<times> 'w) option" where
  "copyNonDedupedSameCluster arrive sourceID targetID cluster w =
     copy_same_cluster arrive (nonDedupedStorageKey sourceID) (nonDedupedStorageKey targetID) cluster w"

definition copyNonDedupedSameServerCount :: "page_enum \<Rightarrow> string \<Rightarrow> string \<Rightarrow> 'w StorageCluster \<Rightarrow> 'w StorageCluster \<Rightarrow> 'w \<Rightarrow>
    (error option \<times> 'w) option" where
  "copyNonDedupedSameServerCount enum sourceID targetID sourceCluster targetCluster w =
     copy_same_count enum (nonDedupedStorageKey sourceID) (nonDedupedStorageKey targetID) sourceCluster targetCluster w"

text \<open>A non-deduped storage without a template starts no background tasks.\<close>

definition nd_direct :: "'w nonDedupedStorage \<Rightarrow> 'w BlockStorage" where
  "nd_direct ss =
     \<lparr>SetBlock = nd_SetBlock ss, GetBlock = (\<lambda>i w. let (r, ts, w') = nd_GetBlock ss i w in (r, w')),
      DeleteBlock = nd_DeleteBlock ss, Flush = nd_Flush ss, Close = nd_Close ss\<rparr>"

definition copyNonDedupedDifferentServerCount :: "page_enum \<Rightarrow> ('w StorageServer list \<Rightarrow> 'w StorageServer list) \<Rightarrow>
    string \<Rightarrow> string \<Rightarrow> int \<Rightarrow> 'w StorageCluster \<Rightarrow> 'w StorageCluster \<Rightarrow> 'w \<Rightarrow> (error option \<times> 'w) option" where
  "copyNonDedupedDifferentServerCount enum arrive sourceID targetID targetBS sourceCluster targetCluster w =
     (case ServerIterator sourceCluster of
        Inl e \<Rightarrow> Some (Some e, w)
      | Inr ss \<Rightarrow>
          (case NonDeduped targetID '''' targetBS targetCluster None of
             Inl e \<Rightarrow> Some (Some e, w)
           | Inr targetStorage \<Rightarrow>
               copy_collect (map (\<lambda>server. copyNonDedupDataToBlockStorage enum (nonDedupedStorageKey sourceID) server
                                    (nd_direct targetStorage)) (arrive ss)) w))"

definition copyNonDedupedData :: "page_enum \<Rightarrow> ('w StorageServer list \<Rightarrow> 'w StorageServer list) \<Rightarrow> string \<Rightarrow> string \<Rightarrow>
    int \<Rightarrow> int \<Rightarrow> 'w StorageCluster \<Rightarrow> 'w StorageCluster option \<Rightarrow> 'w \<Rightarrow> (error option \<times> 'w) option" where
  "copyNonDedupedData enum arrive sourceID targetID sourceBS targetBS sourceCluster targetCluster w =
     (if sourceBS \<noteq> targetBS then Some (Some (ErrOther ''non matching block sizes''), w)
      else case targetCluster of
             None \<Rightarrow> copyNonDedupedSameCluster arrive sourceID targetID sourceCluster w
           | Some tc \<Rightarrow>
               if ServerCount sourceCluster = ServerCount tc
               then copyNonDedupedSameServerCount enum sourceID targetID sourceCluster tc w
               else copyNonDedupedDifferentServerCount enum arrive sourceID targetID targetBS sourceCluster tc w)"

subsection \<open>Deduped metadata\<close>

definition copyDedupedBetweenServers where
  "copyDedupedBetweenServers = copy_between_servers"

definition copyDedupedMetadataToLBAStorage :: "page_enum \<Rightarrow> string \<Rightarrow> 'w StorageServer \<Rightarrow> 'w SectorStorage \<Rightarrow> 'w copy_job" where
  "copyDedupedMetadataToLBAStorage enum sourceKey src storage w =
     fetch_all (store_in_lba_storage enum storage) src sourceKey w"

definition copyDedupedSameCluster :: "('w StorageServer list \<Rightarrow> 'w StorageServer list) \<Rightarrow> string \<Rightarrow> string \<Rightarrow>
    'w StorageCluster \<Rightarrow> 'w \<Rightarrow> (error option \<times> 'w) option" where
  "copyDedupedSameCluster arrive sourceID targetID cluster w =
     copy_same_cluster arrive (lbaStorageKey sourceID) (lbaStorageKey targetID) cluster w"

definition copyDedupedSameServerCount :: "page_enum \<Rightarrow> string \<Rightarrow> string \<Rightarrow> 'w StorageCluster \<Rightarrow> 'w StorageCluster \<Rightarrow> 'w \<Rightarrow>
    (error option \<times> 'w) option" where
  "copyDedupedSameServerCount enum sourceID targetID sourceCluster targetCluster w =
     copy_same_count enum (lbaStorageKey sourceID) (lbaStorageKey targetID) sourceCluster targetCluster w"

definition copyDedupedDifferentServerCount :: "page_enum \<Rightarrow> ('w StorageServer list \<Rightarrow> 'w StorageServer list) \<Rightarrow>
    string \<Rightarrow> string \<Rightarrow> 'w StorageCluster \<Rightarrow> 'w StorageCluster \<Rightarrow> 'w \<Rightarrow> (error option \<times> 'w) option" where
  "copyDedupedDifferentServerCount enum arrive sourceID targetID sourceCluster targetCluster w =
     (case ServerIterator sourceCluster of
        Inl e \<Rightarrow> Some (Some e, w)
      | Inr ss \<Rightarrow>
          copy_collect (map (\<lambda>server. copyDedupedMetadataToLBAStorage enum (lbaStorageKey sourceID) server
                               (newLBASectorStorage targetID targetCluster)) (arrive ss)) w)"

definition copyDedupedMetadata :: "page_enum \<Rightarrow> ('w StorageServer list \<Rightarrow> 'w StorageServer list) \<Rightarrow> string \<Rightarrow> string \<Rightarrow>
    int \<Rightarrow> int \<Rightarrow> 'w StorageCluster \<Rightarrow> 'w StorageCluster option \<Rightarrow> 'w \<Rightarrow> (error option \<times> 'w) option" where
  "copyDedupedMetadata enum arrive sourceID targetID sourceBS targetBS sourceCluster targetCluster w =
     (if sourceBS \<noteq> targetBS then Some (Some (ErrOther ''non matching block sizes''), w)
      else case targetCluster of
             None \<Rightarrow> copyDedupedSameCluster arrive sourceID targetID sourceCluster w
           | Some tc \<Rightarrow>
               if ServerCount sourceCluster = ServerCount tc
               then copyDedupedSameServerCount enum sourceID targetID sourceCluster tc w
               else copyDedupedDifferentServerCount enum arrive sourceID targetID sourceCluster tc w)"

end
