(* ===== verification/Copy_Correct.thy ===== *)
theory Copy_Correct
  imports Vdisk_Copy
begin

text \<open>
  What the copies of vdisks do: within a cluster by the script on every server, and between clusters of
  different sizes block by block or sector by sector through the target's own routing.
\<close>

section \<open>Within a cluster\<close>

context ardb_copy
begin

lemma script_job_ok:
  assumes "up s" and "State s = Online" and "a \<noteq> b"
    and "\<And>v. view w s a = Some v \<Longrightarrow> \<exists>h. v = VHash h \<and> finite (dom h) \<and> h \<noteq> Map.empty"
  shows "\<exists>r w'. script_job (copy_script a b) (storageServer srv s) w = Some (r, w') \<and>
    (case view w s a of None \<Rightarrow> isl r \<and> view w' = view w | Some v \<Rightarrow> (\<exists>n. r = Inr n \<and> 0 < n) \<and> view w' = key_upd (view w) s b (Some v))"
proof (cases "view w s a")
  case None
  with eval_copy[OF assms(1), of a b w] assms(2) show ?thesis
    by (auto simp: script_job_def copy_script_def storageServer_def server_Do_def Dial_def action_Do_def lua_copy_counted_def
        reply_Int64_def redis_Int64_def)
next
  case (Some v)
  with assms(4) obtain h where h: "v = VHash h" "finite (dom h)" "h \<noteq> Map.empty" by blast
  then have "0 < int (card (dom h))" by (simp add: card_gt_0_iff)
  moreover have "lua_copy_counted a b (view w s) = ((RInt (int (card (dom h))), None), (view w s)(b \<mapsto> v))"
    using Some assms(3) h(1) by (simp add: lua_copy_counted_def lua_restore_ok)
  ultimately show ?thesis using eval_copy[OF assms(1), of a b w] assms(2) Some
    by (auto simp: script_job_def copy_script_def storageServer_def server_Do_def Dial_def action_Do_def reply_Int64_def redis_Int64_def)
qed

text \<open>The copy succeeds on all servers or, when one of them has no such key, fails as a whole.\<close>

lemma run_script_jobs:
  assumes "\<forall>s \<in> set ss. up s \<and> State s = Online" and "a \<noteq> b"
    and "\<forall>s \<in> set ss. \<forall>v. view w s a = Some v \<longrightarrow> (\<exists>h. v = VHash h \<and> finite (dom h) \<and> h \<noteq> Map.empty)"
  shows "\<exists>r w'. run_jobs (map (\<lambda>s. script_job (copy_script a b) (storageServer srv s)) ss) r0 w = Some (r, w') \<and>
    view w' = (\<lambda>s k. if s \<in> set ss \<and> k = b \<and> view w s a \<noteq> None then view w s a else view w s k) \<and>
    (isl r \<longleftrightarrow> isl r0 \<or> (\<exists>s \<in> set ss. view w s a = None)) \<and>
    (\<forall>n0. r0 = Inr n0 \<longrightarrow> (\<forall>s \<in> set ss. view w s a \<noteq> None) \<longrightarrow> (\<exists>n. r = Inr n \<and> n0 + int (length ss) \<le> n))"
  using assms
proof (induction ss arbitrary: r0 w)
  case Nil
  then show ?case by (cases r0) auto
next
  case (Cons s ss)
  have hd: "up s" "State s = Online" using Cons.prems(1) by simp_all
  have hh: "\<exists>h. v = VHash h \<and> finite (dom h) \<and> h \<noteq> Map.empty" if "view w s a = Some v" for v
    using Cons.prems(3) that by simp
  from script_job_ok[OF hd Cons.prems(2) hh] obtain r1 w1 where
    j: "script_job (copy_script a b) (storageServer srv s) w = Some (r1, w1)"
    and e: "case view w s a of None \<Rightarrow> isl r1 \<and> view w1 = view w
      | Some v \<Rightarrow> (\<exists>n. r1 = Inr n \<and> 0 < n) \<and> view w1 = key_upd (view w) s b (Some v)" by blast
  have va: "view w1 t a = view w t a" for t using e Cons.prems(2) by (auto split: option.splits)
  have p1: "\<forall>t \<in> set ss. up t \<and> State t = Online" using Cons.prems(1) by simp
  have p3: "\<forall>t \<in> set ss. \<forall>v. view w1 t a = Some v \<longrightarrow> (\<exists>h. v = VHash h \<and> finite (dom h) \<and> h \<noteq> Map.empty)"
    using Cons.prems(3) va by simp
  from Cons.IH[of w1 "add_result r0 r1", OF p1 Cons.prems(2) p3] obtain r w' where
    ih: "run_jobs (map (\<lambda>s. script_job (copy_script a b) (storageServer srv s)) ss) (add_result r0 r1) w1 = Some (r, w')"
    "view w' = (\<lambda>s k. if s \<in> set ss \<and> k = b \<and> view w1 s a \<noteq> None then view w1 s a else view w1 s k)"
    "isl r \<longleftrightarrow> isl (add_result r0 r1) \<or> (\<exists>s \<in> set ss. view w1 s a = None)"
    "\<forall>n0. add_result r0 r1 = Inr n0 \<longrightarrow> (\<forall>s \<in> set ss. view w1 s a \<noteq> None) \<longrightarrow> (\<exists>n. r = Inr n \<and> n0 + int (length ss) \<le> n)"
    by (elim exE conjE) (rule that)
  have isl: "isl (add_result r0 r1) \<longleftrightarrow> isl r0 \<or> isl r1" by (auto simp: add_result_def split: sum.splits)
  have "view w' = (\<lambda>t k. if t \<in> set (s # ss) \<and> k = b \<and> view w t a \<noteq> None then view w t a else view w t k)"
    using ih(2) e va by (auto simp: fun_eq_iff split: option.splits if_splits)
  moreover have "isl r \<longleftrightarrow> isl r0 \<or> (\<exists>t \<in> set (s # ss). view w t a = None)"
    using ih(3) e va by (auto simp: isl split: option.splits)
  moreover have "\<exists>n. r = Inr n \<and> n0 + int (length (s # ss)) \<le> n" if "r0 = Inr n0" "\<forall>t \<in> set (s # ss). view w t a \<noteq> None" for n0
  proof -
    from that e obtain n1 where n1: "r1 = Inr n1" "0 < n1" by (auto split: option.splits)
    with that ih(4) va obtain n where "r = Inr n" "n0 + n1 + int (length ss) \<le> n" by (auto simp: add_result_def)
    with n1 show ?thesis by auto
  qed
  ultimately show ?case using j ih(1) by auto
qed

lemma copy_same_cluster_ok:
  assumes cl: "ardb_cluster srv view up cl route members" and up: "\<And>s. s \<in> set members \<Longrightarrow> up s" and ab: "a \<noteq> b"
    and hs: "\<And>s v. s \<in> set members \<Longrightarrow> view w s a = Some v \<Longrightarrow> \<exists>h. v = VHash h \<and> finite (dom h) \<and> h \<noteq> Map.empty"
    and arr: "arrive (map (storageServer srv) members) = map (storageServer srv) ss" and ss: "set ss = set members"
  shows "\<exists>e w'. copy_same_cluster arrive a b cl w = Some (e, w') \<and> (e = None \<longleftrightarrow> (\<forall>s \<in> set members. view w s a \<noteq> None)) \<and>
    (e = None \<longrightarrow> (\<forall>i \<ge> 0. route_hash view route b w' i = route_hash view route a w i)) \<and>
    (\<forall>s k. k \<noteq> b \<longrightarrow> view w' s k = view w s k)"
proof -
  have on: "\<forall>s \<in> set ss. up s \<and> State s = Online" using ss up ardb_cluster.online[OF cl] by blast
  have hs': "\<forall>s \<in> set ss. \<forall>v. view w s a = Some v \<longrightarrow> (\<exists>h. v = VHash h \<and> finite (dom h) \<and> h \<noteq> Map.empty)"
    using hs ss by blast
  have ne: "ss \<noteq> []" using ardb_cluster.routed[OF cl, of 0] ss by auto
  have "\<exists>r w'. run_jobs (map (\<lambda>s. script_job (copy_script a b) (storageServer srv s)) ss) (Inr 0) w = Some (r, w') \<and>
    view w' = (\<lambda>s k. if s \<in> set ss \<and> k = b \<and> view w s a \<noteq> None then view w s a else view w s k) \<and>
    (isl r \<longleftrightarrow> isl (Inr 0 :: int result) \<or> (\<exists>s \<in> set ss. view w s a = None)) \<and>
    (\<forall>n0. Inr 0 = (Inr n0 :: int result) \<longrightarrow> (\<forall>s \<in> set ss. view w s a \<noteq> None) \<longrightarrow> (\<exists>n. r = Inr n \<and> n0 + int (length ss) \<le> n))"
    by (rule run_script_jobs[OF on ab hs'])
  then obtain r w' where
    r: "run_jobs (map (\<lambda>s. script_job (copy_script a b) (storageServer srv s)) ss) (Inr 0) w = Some (r, w')"
    and v: "view w' = (\<lambda>s k. if s \<in> set ss \<and> k = b \<and> view w s a \<noteq> None then view w s a else view w s k)"
    and i: "isl r \<longleftrightarrow> isl (Inr 0 :: int result) \<or> (\<exists>s \<in> set ss. view w s a = None)"
    and n: "\<forall>n0. Inr 0 = (Inr n0 :: int result) \<longrightarrow> (\<forall>s \<in> set ss. view w s a \<noteq> None) \<longrightarrow>
      (\<exists>n. r = Inr n \<and> n0 + int (length ss) \<le> n)" by (elim exE conjE) (rule that)
  let ?e = "case r of Inl e \<Rightarrow> Some e | Inr n \<Rightarrow> if n = 0 then Some (ErrOther ''no data was copied'') else None"
  have "copy_same_cluster arrive a b cl w = Some (?e, w')"
    using r by (simp add: copy_same_cluster_def ardb_cluster.iterator[OF cl] arr copy_collect_def comp_def)
  moreover have e: "?e = None \<longleftrightarrow> (\<forall>s \<in> set members. view w s a \<noteq> None)"
  proof (cases "\<forall>s \<in> set ss. view w s a \<noteq> None")
    case True
    with n obtain n where "r = Inr n" "int (length ss) \<le> n" by auto
    moreover have "0 < int (length ss)" using ne by simp
    ultimately have "r = Inr n" "n \<noteq> 0" by linarith+
    then show ?thesis using True by (simp add: ss)
  next
    case False
    with i have "isl r" by auto
    then obtain x where "r = Inl x" by (auto simp: isl_def)
    with False ss show ?thesis by simp
  qed
  moreover have "route_hash view route b w' j = route_hash view route a w j" if "?e = None" "0 \<le> j" for j
  proof -
    from ardb_cluster.routed[OF cl that(2)] obtain s where s: "route j = Some s" "s \<in> set members" by auto
    with e that(1) have "view w s a \<noteq> None" by blast
    with s v ss show ?thesis by (simp add: route_hash_def)
  qed
  ultimately show ?thesis using v by auto
qed

end

section \<open>Between clusters\<close>

text \<open>
  \<open>placed\<close>: every field of the hash \<open>k\<close> on a server of the cluster is a block index that the cluster routes there,
  and a value \<open>ok\<close>.
\<close>

definition placed :: "('w \<Rightarrow> StorageServerConfig \<Rightarrow> string \<Rightarrow> rvalue option) \<Rightarrow> (int \<Rightarrow> StorageServerConfig option) \<Rightarrow>
    StorageServerConfig list \<Rightarrow> string \<Rightarrow> (bytes \<Rightarrow> bool) \<Rightarrow> 'w \<Rightarrow> bool" where
  "placed view route members k ok w \<longleftrightarrow>
     (\<forall>s \<in> set members. \<exists>h. hash_at (view w s k) = Some h \<and> index_fields h \<and>
        (\<forall>i v. h (itoa i) = Some v \<longrightarrow> 0 \<le> i \<and> route i = Some s \<and> ok v))"

definition server_hash_of :: "('w \<Rightarrow> StorageServerConfig \<Rightarrow> string \<Rightarrow> rvalue option) \<Rightarrow> string \<Rightarrow> 'w \<Rightarrow> StorageServerConfig \<Rightarrow> bytes \<rightharpoonup> bytes" where
  "server_hash_of view k w s = (case hash_at (view w s k) of Some h \<Rightarrow> h | None \<Rightarrow> Map.empty)"

definition good_enum :: "page_enum \<Rightarrow> bool" where
  "good_enum enum \<longleftrightarrow> (\<forall>d. finite (dom d) \<longrightarrow> distinct (map fst (enum d)) \<and> map_of (enum d) = d)"

lemma index_fields_finite: "index_fields h \<Longrightarrow> finite (dom (\<lambda>i. h (itoa i)))"
proof -
  assume "index_fields h"
  then have "finite (dom h)" by (simp add: index_fields_def)
  moreover have "itoa ` dom (\<lambda>i. h (itoa i)) \<subseteq> dom h" by auto
  moreover have "inj_on itoa (dom (\<lambda>i. h (itoa i)))" by (auto simp: inj_on_def itoa_inject)
  ultimately show ?thesis by (meson finite_imageD finite_subset)
qed

lemma good_enum_facts:
  assumes "good_enum enum" and "finite (dom d)"
  shows "distinct (map fst (enum d))" and "map_of (enum d) = d" and "enum d = [] \<longleftrightarrow> d = Map.empty"
proof -
  show "distinct (map fst (enum d))" and e: "map_of (enum d) = d" using assms by (auto simp: good_enum_def)
  show "enum d = [] \<longleftrightarrow> d = Map.empty"
  proof
    assume "d = Map.empty"
    then have "map_of (enum d) = Map.empty" using e by simp
    then show "enum d = []" by (cases "enum d") (auto simp: fun_eq_iff split: if_splits)
  qed (use e in auto)
qed

context ardb_copy
begin

text \<open>
  Copying the servers \<open>ss\<close> of the source one after the other with a store that adds the data of a page to the target
  \<open>T\<close> and leaves the source (\<open>Q\<close>).
\<close>

lemma run_fetch_jobs:
  assumes "\<forall>s \<in> set ss. up s \<and> State s = Online \<and> index_fields (hh s)"
    and store: "\<And>s data w. s \<in> set ss \<Longrightarrow> data \<subseteq>\<^sub>m (\<lambda>i. hh s (itoa i)) \<Longrightarrow> Q w \<Longrightarrow>
      \<exists>c w'. store data w = (Inr c, w') \<and> Q w' \<and> T w' = T w ++ data \<and> 0 \<le> c \<and> (c = 0 \<longleftrightarrow> data = Map.empty)"
    and Q_hash: "\<And>s w. s \<in> set ss \<Longrightarrow> Q w \<Longrightarrow> hash_at (view w s k) = Some (hh s)"
    and Q_view: "\<And>w w'. Q w \<Longrightarrow> view w' = view w \<Longrightarrow> Q w' \<and> T w' = T w"
    and "Q w"
  shows "\<exists>n w'. run_jobs (map (\<lambda>s. fetch_all store (storageServer srv s) k) ss) (Inr n0) w = Some (Inr (n0 + n), w') \<and> Q w' \<and>
    T w' = fold (\<lambda>s m. m ++ (\<lambda>i. hh s (itoa i))) ss (T w) \<and> 0 \<le> n \<and> (n = 0 \<longleftrightarrow> (\<forall>s \<in> set ss. hh s = Map.empty))"
  using assms
proof (induction ss arbitrary: n0 w)
  case Nil
  show ?case using Nil.prems(5) by (intro exI[of _ 0] exI[of _ w]) simp
next
  case (Cons s ss)
  have s: "up s" "State s = Online" "index_fields (hh s)" using Cons.prems(1) by simp_all
  have "\<exists>n w'. fetch_all store (storageServer srv s) k w = Some (Inr n, w') \<and> Q w' \<and> T w' = T w ++ (\<lambda>i. hh s (itoa i)) \<and>
    0 \<le> n \<and> (n = 0 \<longleftrightarrow> hh s = Map.empty)"
  proof (rule fetch_all_ok[OF s, where Q = Q])
    fix d u assume "d \<subseteq>\<^sub>m (\<lambda>i. hh s (itoa i))" "Q u"
    then show "\<exists>c w'. store d u = (Inr c, w') \<and> Q w' \<and> T w' = T u ++ d \<and> 0 \<le> c \<and> (c = 0 \<longleftrightarrow> d = Map.empty)"
      by (intro Cons.prems(2)) simp_all
  next
    fix u assume "Q u"
    then show "hash_at (view u s k) = Some (hh s)" by (intro Cons.prems(3)) simp_all
  next
    fix u v assume "Q u" "view v = view u"
    then show "Q v \<and> T v = T u" by (rule Cons.prems(4))
  qed (rule Cons.prems(5))
  then obtain n1 w1 where f: "fetch_all store (storageServer srv s) k w = Some (Inr n1, w1)" "Q w1"
    "T w1 = T w ++ (\<lambda>i. hh s (itoa i))" "0 \<le> n1" "n1 = 0 \<longleftrightarrow> hh s = Map.empty" by (elim exE conjE) (rule that)
  have "\<exists>n w'. run_jobs (map (\<lambda>s. fetch_all store (storageServer srv s) k) ss) (Inr (n0 + n1)) w1 = Some (Inr (n0 + n1 + n), w') \<and> Q w' \<and>
    T w' = fold (\<lambda>s m. m ++ (\<lambda>i. hh s (itoa i))) ss (T w1) \<and> 0 \<le> n \<and> (n = 0 \<longleftrightarrow> (\<forall>s \<in> set ss. hh s = Map.empty))"
  proof (rule Cons.IH)
    show "\<forall>s \<in> set ss. up s \<and> State s = Online \<and> index_fields (hh s)" using Cons.prems(1) by simp
    fix t d u assume "t \<in> set ss" "d \<subseteq>\<^sub>m (\<lambda>i. hh t (itoa i))" "Q u"
    then show "\<exists>c w'. store d u = (Inr c, w') \<and> Q w' \<and> T w' = T u ++ d \<and> 0 \<le> c \<and> (c = 0 \<longleftrightarrow> d = Map.empty)"
      by (intro Cons.prems(2)[of t]) simp_all
  next
    fix t u assume "t \<in> set ss" "Q u"
    then show "hash_at (view u t k) = Some (hh t)" by (intro Cons.prems(3)) simp_all
  next
    fix u v assume "Q u" "view v = view u"
    then show "Q v \<and> T v = T u" by (rule Cons.prems(4))
  qed (rule f(2))
  then obtain n w' where ih: "run_jobs (map (\<lambda>s. fetch_all store (storageServer srv s) k) ss) (Inr (n0 + n1)) w1 = Some (Inr (n0 + n1 + n), w')"
    "Q w'" "T w' = fold (\<lambda>s m. m ++ (\<lambda>i. hh s (itoa i))) ss (T w1)" "0 \<le> n" "n = 0 \<longleftrightarrow> (\<forall>s \<in> set ss. hh s = Map.empty)"
    by (elim exE conjE) (rule that)
  have "n1 + n = 0 \<longleftrightarrow> (\<forall>t \<in> set (s # ss). hh t = Map.empty)" using f(4,5) ih(4,5) by auto
  with f ih show ?case by (intro exI[of _ "n1 + n"] exI[of _ w']) (simp add: add_result_def add.assoc)
qed

text \<open>With every index on its own server the fold is the routed content.\<close>

lemma fold_placed:
  assumes "\<And>s i v. s \<in> set ss \<Longrightarrow> hh s (itoa i) = Some v \<Longrightarrow> route i = Some s"
  shows "fold (\<lambda>s m. m ++ (\<lambda>i. hh s (itoa i))) ss m i =
    (case route i of None \<Rightarrow> m i
     | Some s \<Rightarrow> if s \<in> set ss then (case hh s (itoa i) of None \<Rightarrow> m i | Some v \<Rightarrow> Some v) else m i)"
  using assms
proof (induction ss arbitrary: m)
  case (Cons s ss)
  show ?case
  proof (cases "hh s (itoa i)")
    case None
    then have "(m ++ (\<lambda>i. hh s (itoa i))) i = m i" by (simp add: map_add_def)
    with Cons None show ?thesis by (auto split: option.splits)
  next
    case (Some v)
    then have r: "route i = Some s" using Cons.prems[of s i v] by simp
    have "(m ++ (\<lambda>i. hh s (itoa i))) i = Some v" using Some by (simp add: map_add_def)
    moreover have "fold (\<lambda>s m. m ++ (\<lambda>i. hh s (itoa i))) ss (m ++ (\<lambda>i. hh s (itoa i))) i =
      (case route i of None \<Rightarrow> (m ++ (\<lambda>i. hh s (itoa i))) i
       | Some s' \<Rightarrow> if s' \<in> set ss then (case hh s' (itoa i) of None \<Rightarrow> (m ++ (\<lambda>i. hh s (itoa i))) i | Some v \<Rightarrow> Some v)
                   else (m ++ (\<lambda>i. hh s (itoa i))) i)"
      by (rule Cons.IH) (rule Cons.prems, simp_all)
    ultimately show ?thesis using Some r by simp
  qed
qed (simp split: option.split)

lemma copy_between_clusters:
  assumes src: "ardb_cluster srv view up cl route members" and up: "\<forall>s \<in> set members. up s"
    and pl: "placed view route members k ok w"
    and store: "\<And>s data w'. s \<in> set members \<Longrightarrow> data \<subseteq>\<^sub>m (\<lambda>i. server_hash_of view k w s (itoa i)) \<Longrightarrow> Q w' \<Longrightarrow>
      \<exists>c w''. store data w' = (Inr c, w'') \<and> Q w'' \<and> T w'' = T w' ++ data \<and> 0 \<le> c \<and> (c = 0 \<longleftrightarrow> data = Map.empty)"
    and Q_hash: "\<And>s w'. s \<in> set members \<Longrightarrow> Q w' \<Longrightarrow> view w' s k = view w s k"
    and Q_view: "\<And>w' w''. Q w' \<Longrightarrow> view w'' = view w' \<Longrightarrow> Q w'' \<and> T w'' = T w'" and "Q w"
    and ss: "set ss = set members"
    and some: "\<exists>i \<ge> 0. route_hash view route k w i \<noteq> None"
  shows "\<exists>w'. copy_collect (map (\<lambda>s. fetch_all store (storageServer srv s) k) ss) w = Some (None, w') \<and> Q w' \<and>
    (\<forall>i \<ge> 0. T w' i = (case route_hash view route k w i of None \<Rightarrow> T w i | Some v \<Rightarrow> Some v))"
proof -
  let ?h = "server_hash_of view k w"
  have h: "hash_at (view w s k) = Some (?h s)" "index_fields (?h s)" "\<And>i v. ?h s (itoa i) = Some v \<Longrightarrow> route i = Some s"
    if "s \<in> set members" for s using pl that by (auto simp: placed_def server_hash_of_def split: option.splits)
  have "\<exists>n w'. run_jobs (map (\<lambda>s. fetch_all store (storageServer srv s) k) ss) (Inr 0) w = Some (Inr (0 + n), w') \<and> Q w' \<and>
    T w' = fold (\<lambda>s m. m ++ (\<lambda>i. ?h s (itoa i))) ss (T w) \<and> 0 \<le> n \<and> (n = 0 \<longleftrightarrow> (\<forall>s \<in> set ss. ?h s = Map.empty))"
  proof (rule run_fetch_jobs[where Q = Q])
    show "\<forall>s \<in> set ss. up s \<and> State s = Online \<and> index_fields (?h s)" using ss up h(2) ardb_cluster.online[OF src] by blast
    show "hash_at (view w' s k) = Some (?h s)" if "s \<in> set ss" "Q w'" for s w'
      using Q_hash[of s w'] that h(1)[of s] ss by simp
  next
    fix s d u assume "s \<in> set ss" "d \<subseteq>\<^sub>m (\<lambda>i. ?h s (itoa i))" "Q u"
    then show "\<exists>c w'. store d u = (Inr c, w') \<and> Q w' \<and> T w' = T u ++ d \<and> 0 \<le> c \<and> (c = 0 \<longleftrightarrow> d = Map.empty)"
      using ss by (intro store[of s]) simp_all
  next
    fix u v assume "Q u" "view v = view u"
    then show "Q v \<and> T v = T u" by (rule Q_view)
  qed (rule \<open>Q w\<close>)
  then obtain n w' where r: "run_jobs (map (\<lambda>s. fetch_all store (storageServer srv s) k) ss) (Inr 0) w = Some (Inr (0 + n), w')"
    "Q w'" "T w' = fold (\<lambda>s m. m ++ (\<lambda>i. ?h s (itoa i))) ss (T w)" "n = 0 \<longleftrightarrow> (\<forall>s \<in> set ss. ?h s = Map.empty)"
    by (elim exE conjE) (rule that)
  have rh: "route_hash view route k w i = (case route i of None \<Rightarrow> None | Some s \<Rightarrow> ?h s (itoa i))" for i
    by (simp add: route_hash_def server_hash_of_def split: option.split)
  have T: "T w' i = (case route_hash view route k w i of None \<Rightarrow> T w i | Some v \<Rightarrow> Some v)" if i: "0 \<le> i" for i
  proof -
    from ardb_cluster.routed[OF src i] obtain s where "route i = Some s" "s \<in> set members" by auto
    then show ?thesis using fold_placed[of ss ?h route "T w" i] h(3) ss by (simp add: r(3) rh)
  qed
  from some obtain i where i: "0 \<le> i" "route_hash view route k w i \<noteq> None" by blast
  from ardb_cluster.routed[OF src i(1)] obtain s where "route i = Some s" "s \<in> set members" by auto
  with i(2) have "?h s \<noteq> Map.empty" by (auto simp: rh)
  with \<open>s \<in> set members\<close> r(4) ss have "n \<noteq> 0" by auto
  with r T show ?thesis by (auto simp: copy_collect_def)
qed

end

subsection \<open>Writing a page through the routing of the target\<close>

fun set_fields :: "'w StorageCluster \<Rightarrow> string \<Rightarrow> (int \<times> bytes) list \<Rightarrow> 'w \<Rightarrow> error option \<times> 'w" where
  "set_fields tc k [] w = (None, w)"
| "set_fields tc k ((i, b) # xs) w =
     (case DoFor tc i (Command HashSet [AStr k, AInt i, ABytes b]) w of
        (res, w') \<Rightarrow> (case reply_Error res of Some e \<Rightarrow> (Some e, w') | None \<Rightarrow> set_fields tc k xs w'))"

lemma set_blocks_fields:
  assumes "nd_cluster ss = tc" and "nd_storageKey ss = k" and "\<forall>x \<in> set xs. \<not> all_zero (snd x)"
  shows "set_blocks (nd_direct ss) xs w = set_fields tc k xs w"
  using assms by (induction xs arbitrary: w) (auto simp: nd_direct_def nd_SetBlock_def split: prod.split option.split)

lemma set_sectors_fields:
  assumes "\<forall>x \<in> set xs. length (snd x) = 4096 \<and> \<not> all_zero (snd x)"
  shows "set_sectors (newLBASectorStorage vd tc) xs w = set_fields tc (lbaStorageKey vd) xs w"
  using assms
  by (induction xs arbitrary: w) (auto simp: newLBASectorStorage_def lba_SetSector_def SectorFromBytes_def sector_consts
      Sector_Bytes_def Sector_IsNil_def Let_def split: prod.split option.split)

context ardb_cluster
begin

lemma set_fields_ok:
  assumes "hash_ok view route up k w" and "\<forall>x \<in> set xs. 0 \<le> fst x" and "distinct (map fst xs)"
  shows "\<exists>w'. set_fields cl k xs w = (None, w') \<and> hash_ok view route up k w' \<and>
    route_hash view route k w' = route_hash view route k w ++ map_of xs \<and>
    (\<forall>s k'. k' \<noteq> k \<or> s \<notin> set members \<longrightarrow> view w' s k' = view w s k')"
  using assms
proof (induction xs arbitrary: w)
  case (Cons x xs)
  obtain i b where x: "x = (i, b)" by fastforce
  have i: "0 \<le> i" using Cons.prems(2) by (simp add: x)
  from dofor_hset_ok[OF Cons.prems(1) i] obtain r w1 where
    h: "DoFor cl i (Command HashSet [AStr k, AInt i, ABytes b]) w = ((r, None), w1)" by blast
  then obtain s h' where s: "route i = Some s" "view w1 = key_upd (view w) s k (Some (VHash h'))"
    using dofor_hset[of i k b w] by auto
  have sm: "s \<in> set members" using routed[OF i] s(1) by auto
  from Cons.IH[OF hset_effect(2)[OF h Cons.prems(1)]] Cons.prems(2,3) obtain w' where
    ih: "set_fields cl k xs w1 = (None, w')" "hash_ok view route up k w'"
    "route_hash view route k w' = route_hash view route k w1 ++ map_of xs"
    "\<forall>s k'. k' \<noteq> k \<or> s \<notin> set members \<longrightarrow> view w' s k' = view w1 s k'" by auto
  have "map_of xs i = None" using Cons.prems(3) by (simp add: x map_of_eq_None_iff)
  then have "route_hash view route k w' = route_hash view route k w ++ map_of (x # xs)"
    unfolding ih(3) hset_effect(1)[OF h] by (auto simp: x map_add_def fun_eq_iff split: option.splits)
  moreover have "view w' t k' = view w t k'" if "k' \<noteq> k \<or> t \<notin> set members" for t k'
    using that ih(4) s(2) sm by auto
  moreover have "set_fields cl k (x # xs) w = (None, w')" using h ih(1) by (simp add: x reply_Error_def)
  ultimately show ?case using ih(2) by blast
qed simp

end

context ardb_copy
begin

lemma copy_to_cluster:
  assumes src: "ardb_cluster srv view up cl route members" and dst: "ardb_cluster srv view up tc troute tmembers"
    and up: "\<forall>s \<in> set members. up s" and pl: "placed view route members k ok w"
    and tok: "hash_ok view troute up tk w" and en: "good_enum enum"
    and sep: "tk \<noteq> k \<or> set members \<inter> set tmembers = {}"
    and store: "\<And>data w. finite (dom data) \<Longrightarrow> (\<And>i v. data i = Some v \<Longrightarrow> ok v) \<Longrightarrow> store data w =
      (if enum data = [] then (Inr 0, w)
       else case set_fields tc tk (enum data) w of (Some e, w1) \<Rightarrow> (Inl e, w1) | (None, w1) \<Rightarrow> (Inr (int (length (enum data))), w1))"
    and ss: "set ss = set members" and some: "\<exists>i \<ge> 0. route_hash view route k w i \<noteq> None"
  shows "\<exists>w'. copy_collect (map (\<lambda>s. fetch_all store (storageServer srv s) k) ss) w = Some (None, w') \<and>
    hash_ok view troute up tk w' \<and>
    (\<forall>i \<ge> 0. route_hash view troute tk w' i =
       (case route_hash view route k w i of None \<Rightarrow> route_hash view troute tk w i | Some v \<Rightarrow> Some v))"
proof -
  let ?Q = "\<lambda>w'. (\<forall>s \<in> set members. view w' s k = view w s k) \<and> hash_ok view troute up tk w'"
  have "\<exists>w'. copy_collect (map (\<lambda>s. fetch_all store (storageServer srv s) k) ss) w = Some (None, w') \<and> ?Q w' \<and>
    (\<forall>i \<ge> 0. route_hash view troute tk w' i =
       (case route_hash view route k w i of None \<Rightarrow> route_hash view troute tk w i | Some v \<Rightarrow> Some v))"
  proof (rule copy_between_clusters[OF src up pl _ _ _ _ ss some, where Q = ?Q])
    fix s data u
    assume s: "s \<in> set members" and d: "data \<subseteq>\<^sub>m (\<lambda>i. server_hash_of view k w s (itoa i))" and Q: "?Q u"
    have idx: "index_fields (server_hash_of view k w s)"
      and f: "\<And>i v. server_hash_of view k w s (itoa i) = Some v \<Longrightarrow> 0 \<le> i \<and> ok v"
      using pl s by (auto simp: placed_def server_hash_of_def split: option.splits)
    have fin: "finite (dom data)" using index_fields_finite[OF idx] d by (meson finite_subset map_le_implies_dom_le)
    have dv: "0 \<le> i \<and> ok v" if "data i = Some v" for i v using d that f by (metis domI map_le_def)
    note e = good_enum_facts[OF en fin]
    have st: "store data u = (if enum data = [] then (Inr 0, u)
       else case set_fields tc tk (enum data) u of (Some e, w1) \<Rightarrow> (Inl e, w1) | (None, w1) \<Rightarrow> (Inr (int (length (enum data))), w1))"
      by (rule store[OF fin]) (use dv in blast)
    have "\<forall>x \<in> set (enum data). 0 \<le> fst x" using dv e(1,2) by (metis map_of_is_SomeI prod.collapse)
    from ardb_cluster.set_fields_ok[OF dst _ this e(1)] Q obtain w' where
      w': "set_fields tc tk (enum data) u = (None, w')" "hash_ok view troute up tk w'"
      "route_hash view troute tk w' = route_hash view troute tk u ++ data"
      and fr: "\<forall>s k'. k' \<noteq> tk \<or> s \<notin> set tmembers \<longrightarrow> view w' s k' = view u s k'" unfolding e(2) by blast
    have "\<forall>s \<in> set members. view w' s k = view w s k" 
    proof
      fix t assume t: "t \<in> set members"
      then have "k \<noteq> tk \<or> t \<notin> set tmembers" using sep by blast
      with fr have "view w' t k = view u t k" by blast
      with Q t show "view w' t k = view w t k" by simp
    qed
    with st w' Q e(3) show "\<exists>c w''. store data u = (Inr c, w'') \<and> ?Q w'' \<and>
        route_hash view troute tk w'' = route_hash view troute tk u ++ data \<and> 0 \<le> c \<and> (c = 0 \<longleftrightarrow> data = Map.empty)"
      by (cases "enum data = []") auto
  next
    fix u v assume Q: "?Q u" and v: "view v = view u"
    show "?Q v \<and> route_hash view troute tk v = route_hash view troute tk u"
      using Q v by (simp add: view_cong[of view, OF v])
  qed (use tok in simp_all)
  then show ?thesis by (elim exE conjE) blast
qed

theorem copyNonDedupedDifferentServerCount_ok:
  assumes src: "ardb_cluster srv view up cl route members" and dst: "ardb_cluster srv view up tc troute tmembers"
    and up: "\<forall>s \<in> set members. up s"
    and pl: "placed view route members (nonDedupedStorageKey sourceID) (\<lambda>v. \<not> all_zero v) w"
    and tok: "hash_ok view troute up (nonDedupedStorageKey targetID) w" and en: "good_enum enum"
    and sep: "nonDedupedStorageKey targetID \<noteq> nonDedupedStorageKey sourceID \<or> set members \<inter> set tmembers = {}"
    and arr: "arrive (map (storageServer srv) members) = map (storageServer srv) ss" and ss: "set ss = set members"
    and some: "\<exists>i \<ge> 0. route_hash view route (nonDedupedStorageKey sourceID) w i \<noteq> None"
  shows "\<exists>w'. copyNonDedupedDifferentServerCount enum arrive sourceID targetID targetBS cl tc w = Some (None, w') \<and>
    (\<forall>i \<ge> 0. route_hash view troute (nonDedupedStorageKey targetID) w' i =
       (case route_hash view route (nonDedupedStorageKey sourceID) w i of
          None \<Rightarrow> route_hash view troute (nonDedupedStorageKey targetID) w i | Some v \<Rightarrow> Some v))"
proof -
  obtain st where st: "NonDeduped targetID [] targetBS tc None = Inr st" "nd_cluster st = tc" "nd_storageKey st = nonDedupedStorageKey targetID"
    by (simp add: NonDeduped_def)
  let ?store = "store_in_block_storage enum (nd_direct st)"
  have store: "?store data u = (if enum data = [] then (Inr 0, u)
       else case set_fields tc (nonDedupedStorageKey targetID) (enum data) u of
              (Some e, w1) \<Rightarrow> (Inl e, w1) | (None, w1) \<Rightarrow> (Inr (int (length (enum data))), w1))"
    if "finite (dom data)" "\<And>i v. data i = Some v \<Longrightarrow> \<not> all_zero v" for data u
  proof -
    note e = good_enum_facts[OF en that(1)]
    have "\<forall>x \<in> set (enum data). \<not> all_zero (snd x)" using that(2) e(1,2) by (metis map_of_is_SomeI prod.collapse)
    from set_blocks_fields[OF st(2,3) this] show ?thesis
      by (auto simp: store_in_block_storage_def nd_direct_def nd_Flush_def Let_def split: option.split prod.split)
  qed
  from copy_to_cluster[OF src dst up pl tok en sep store ss some] show ?thesis
    by (auto simp: copyNonDedupedDifferentServerCount_def ardb_cluster.iterator[OF src] st(1) arr comp_def copyNonDedupDataToBlockStorage_def[abs_def])
qed

theorem copyDedupedDifferentServerCount_ok:
  assumes src: "ardb_cluster srv view up cl route members" and dst: "ardb_cluster srv view up tc troute tmembers"
    and up: "\<forall>s \<in> set members. up s"
    and pl: "placed view route members (lbaStorageKey sourceID) (\<lambda>v. length v = 4096 \<and> \<not> all_zero v) w"
    and tok: "hash_ok view troute up (lbaStorageKey targetID) w" and en: "good_enum enum"
    and sep: "lbaStorageKey targetID \<noteq> lbaStorageKey sourceID \<or> set members \<inter> set tmembers = {}"
    and arr: "arrive (map (storageServer srv) members) = map (storageServer srv) ss" and ss: "set ss = set members"
    and some: "\<exists>i \<ge> 0. route_hash view route (lbaStorageKey sourceID) w i \<noteq> None"
  shows "\<exists>w'. copyDedupedDifferentServerCount enum arrive sourceID targetID cl tc w = Some (None, w') \<and>
    (\<forall>i \<ge> 0. route_hash view troute (lbaStorageKey targetID) w' i =
       (case route_hash view route (lbaStorageKey sourceID) w i of
          None \<Rightarrow> route_hash view troute (lbaStorageKey targetID) w i | Some v \<Rightarrow> Some v))"
proof -
  let ?store = "store_in_lba_storage enum (newLBASectorStorage targetID tc)"
  have store: "?store data u = (if enum data = [] then (Inr 0, u)
       else case set_fields tc (lbaStorageKey targetID) (enum data) u of
              (Some e, w1) \<Rightarrow> (Inl e, w1) | (None, w1) \<Rightarrow> (Inr (int (length (enum data))), w1))"
    if "finite (dom data)" "\<And>i v. data i = Some v \<Longrightarrow> length v = 4096 \<and> \<not> all_zero v" for data u
  proof -
    note e = good_enum_facts[OF en that(1)]
    have "\<forall>x \<in> set (enum data). length (snd x) = 4096 \<and> \<not> all_zero (snd x)" using that(2) e(1,2) by (metis map_of_is_SomeI prod.collapse)
    from set_sectors_fields[OF this, of targetID tc u] show ?thesis by (simp add: store_in_lba_storage_def Let_def)
  qed
  have "copyDedupedDifferentServerCount enum arrive sourceID targetID cl tc w =
    copy_collect (map (\<lambda>s. fetch_all ?store (storageServer srv s) (lbaStorageKey sourceID)) ss) w"
    by (simp add: copyDedupedDifferentServerCount_def ardb_cluster.iterator[OF src] arr comp_def copyDedupedMetadataToLBAStorage_def[abs_def])
  moreover have "\<exists>w'. copy_collect (map (\<lambda>s. fetch_all ?store (storageServer srv s) (lbaStorageKey sourceID)) ss) w = Some (None, w') \<and>
    hash_ok view troute up (lbaStorageKey targetID) w' \<and>
    (\<forall>i \<ge> 0. route_hash view troute (lbaStorageKey targetID) w' i =
       (case route_hash view route (lbaStorageKey sourceID) w i of
          None \<Rightarrow> route_hash view troute (lbaStorageKey targetID) w i | Some v \<Rightarrow> Some v))"
    by (rule copy_to_cluster[OF src dst up pl tok en sep _ ss some]) (rule store)
  ultimately show ?thesis by auto
qed

end


end
