(* ===== verification/Vdisk_Clone.thy ===== *)
theory Vdisk_Clone
  imports Copy_Correct
begin

text \<open>
  Tlog metadata of a vdisk (\<open>nbd/ardb/storage/tlog.go\<close>), the copy of semi-deduped vdisks (\<open>semideduped.go\<close>), and
  \<open>CopyVdisk\<close> (\<open>storage.go\<close>).
\<close>

section \<open>Tlog metadata\<close>

definition ParseUint :: "bytes \<Rightarrow> uint64 result" where
  "ParseUint b =
     (if b = [] then Inl (ErrOther ''invalid syntax'')
      else case parse_digits 0 b of
             None \<Rightarrow> Inl (ErrOther ''invalid syntax'')
           | Some n \<Rightarrow> if n < 2 ^ 64 then Inr (of_nat n) else Inl (ErrOther ''value out of range''))"

definition redis_Uint64 :: "do_result \<Rightarrow> uint64 result" where
  "redis_Uint64 r = (case r of (_, Some e) \<Rightarrow> Inl e
     | (RInt n, None) \<Rightarrow> if n < 0 then Inl (ErrOther ''unexpected value for Uint64'') else Inr (word_of_int n)
     | (RBulk b, None) \<Rightarrow> ParseUint b | (RNil, None) \<Rightarrow> Inl ErrNil
     | (RError m, None) \<Rightarrow> Inl (ErrReply m) | (_, None) \<Rightarrow> Inl (ErrOther ''unexpected type for Uint64''))"

definition reply_Uint64 :: "do_result \<Rightarrow> uint64 result" where
  "reply_Uint64 r = redis_Uint64 r"

definition OptUint64 :: "do_result \<Rightarrow> uint64 result" where
  "OptUint64 r =
     (if fst r = RNil then (case snd r of None \<Rightarrow> Inr 0 | Some e \<Rightarrow> Inl e) else redis_Uint64 r)"

record TlogMetadata =
  LastFlushedSequence :: uint64

definition tlogMetadataLastFlushedSequenceField :: string where "tlogMetadataLastFlushedSequenceField = ''lfseq''"

definition LoadTlogMetadata :: "string \<Rightarrow> 'w StorageCluster option \<Rightarrow> 'w \<Rightarrow> TlogMetadata result \<times> 'w" where
  "LoadTlogMetadata vdiskID c w =
     (case c of
        None \<Rightarrow> (Inl ErrClusterNotDefined, w)
      | Some cluster \<Rightarrow>
          let (res, w') = Do cluster (Command HashGet [AStr (tlogMetadataKey vdiskID), AStr tlogMetadataLastFlushedSequenceField]) w
          in (map_sum id (\<lambda>n. \<lparr>LastFlushedSequence = n\<rparr>) (OptUint64 res), w'))"

definition StoreTlogMetadata :: "string \<Rightarrow> 'w StorageCluster \<Rightarrow> TlogMetadata \<Rightarrow> 'w \<Rightarrow> error option \<times> 'w" where
  "StoreTlogMetadata vdiskID cluster md w =
     (let (res, w') = Do cluster (Command HashSet [AStr (tlogMetadataKey vdiskID), AStr tlogMetadataLastFlushedSequenceField,
                                                   AInt (uint (LastFlushedSequence md))]) w
      in (snd res, w'))"

definition copyTlogMetadataSingleCluster :: "string \<Rightarrow> string \<Rightarrow> 'w StorageCluster \<Rightarrow> 'w \<Rightarrow> error option \<times> 'w" where
  "copyTlogMetadataSingleCluster sourceID targetID cluster w =
     (let (res, w') = Do cluster (StorageScript copyKeyScriptSource None
                                    [AStr (tlogMetadataKey sourceID), AStr (tlogMetadataKey targetID)]) w
      in (reply_Error res, w'))"

definition copyTlogMetadataBetweenClusters :: "string \<Rightarrow> string \<Rightarrow> 'w StorageCluster \<Rightarrow> 'w StorageCluster \<Rightarrow> 'w \<Rightarrow> error option \<times> 'w" where
  "copyTlogMetadataBetweenClusters sourceID targetID sourceCluster targetCluster w =
     (case LoadTlogMetadata sourceID (Some sourceCluster) w of
        (Inl err, w1) \<Rightarrow> (Some err, w1)
      | (Inr metadata, w1) \<Rightarrow> StoreTlogMetadata targetID targetCluster metadata w1)"

definition copyTlogMetadata :: "string \<Rightarrow> string \<Rightarrow> 'w StorageCluster \<Rightarrow> 'w StorageCluster option \<Rightarrow> 'w \<Rightarrow> error option \<times> 'w" where
  "copyTlogMetadata sourceID targetID sourceCluster targetCluster w =
     (case targetCluster of
        None \<Rightarrow> copyTlogMetadataSingleCluster sourceID targetID sourceCluster w
      | Some tc \<Rightarrow> copyTlogMetadataBetweenClusters sourceID targetID sourceCluster tc w)"

section \<open>Semi-deduped vdisks\<close>

definition bitmap_script :: "string \<Rightarrow> string \<Rightarrow> StorageAction" where
  "bitmap_script sourceID targetID =
     StorageScript copyKeyScriptSource None [AStr (semiDedupBitMapKey sourceID), AStr (semiDedupBitMapKey targetID)]"

definition copySemiDedupedSingleCluster :: "string \<Rightarrow> string \<Rightarrow> 'w StorageCluster \<Rightarrow> 'w \<Rightarrow> bool result \<times> 'w" where
  "copySemiDedupedSingleCluster sourceID targetID cluster w =
     (let (res, w') = Do cluster (bitmap_script sourceID targetID) w in (reply_Bool res, w'))"

definition copySemiDedupedSameServer :: "string \<Rightarrow> string \<Rightarrow> 'w StorageServer \<Rightarrow> 'w \<Rightarrow> bool result \<times> 'w" where
  "copySemiDedupedSameServer sourceID targetID server w =
     (let (res, w') = Server_Do server (bitmap_script sourceID targetID) w in (reply_Bool res, w'))"

definition copySemiDedupedDifferentServers :: "string \<Rightarrow> string \<Rightarrow> 'w StorageServer \<Rightarrow> 'w StorageServer \<Rightarrow> 'w \<Rightarrow> bool result \<times> 'w" where
  "copySemiDedupedDifferentServers sourceID targetID src dst w =
     (let (res, w1) = Server_Do src (Command Get [AStr (semiDedupBitMapKey sourceID)]) w
      in case Bytes res of
           Inl err \<Rightarrow> if err = ErrNil then (Inr False, w1) else (Inl err, w1)
         | Inr bs \<Rightarrow>
             let (res2, w2) = Server_Do dst (Command Set [AStr (semiDedupBitMapKey targetID), ABytes bs]) w1
             in (case reply_Error res2 of Some err \<Rightarrow> Inl err | None \<Rightarrow> Inr True, w2))"

text \<open>A receive from an exhausted server channel is a nil server, whose \<open>Config\<close> panics.\<close>

definition copySemiDedupedBetweenClusters :: "string \<Rightarrow> string \<Rightarrow> 'w StorageCluster \<Rightarrow> 'w StorageCluster \<Rightarrow> 'w \<Rightarrow> bool result \<times> 'w" where
  "copySemiDedupedBetweenClusters sourceID targetID sourceCluster targetCluster w =
     (case ServerIterator sourceCluster of
        Inl err \<Rightarrow> (Inl err, w)
      | Inr ss \<Rightarrow>
          (case ServerIterator targetCluster of
             Inl err \<Rightarrow> (Inl err, w)
           | Inr ds \<Rightarrow>
               (case (ss, ds) of
                  (src # _, dst # _) \<Rightarrow>
                    if StorageServerConfig_Equal (Some (Server_Config src)) (Server_Config dst)
                    then copySemiDedupedSameServer sourceID targetID src w
                    else copySemiDedupedDifferentServers sourceID targetID src dst w
                | _ \<Rightarrow> (Inl (Panic ''nil pointer dereference''), w))))"

definition copySemiDeduped :: "page_enum \<Rightarrow> ('w StorageServer list \<Rightarrow> 'w StorageServer list) \<Rightarrow> string \<Rightarrow> string \<Rightarrow> int \<Rightarrow> int \<Rightarrow>
    'w StorageCluster \<Rightarrow> 'w StorageCluster option \<Rightarrow> 'w \<Rightarrow> (error option \<times> 'w) option" where
  "copySemiDeduped enum arrive sourceID targetID sourceBS targetBS sourceCluster targetCluster w =
     Option.bind (copyDedupedMetadata enum arrive sourceID targetID sourceBS targetBS sourceCluster targetCluster w)
       (\<lambda>(e, w1). case e of
          Some err \<Rightarrow> Some (Some err, w1)
        | None \<Rightarrow>
            (case (case targetCluster of
                     None \<Rightarrow> copySemiDedupedSingleCluster sourceID targetID sourceCluster w1
                   | Some tc \<Rightarrow> copySemiDedupedBetweenClusters sourceID targetID sourceCluster tc w1) of
               (Inl err, w2) \<Rightarrow> Some (Some err, w2)
             | (Inr hasBitMask, w2) \<Rightarrow>
                 if \<not> hasBitMask then Some (None, w2)
                 else copyNonDedupedData enum arrive sourceID targetID sourceBS targetBS sourceCluster targetCluster w2))"

section \<open>CopyVdisk\<close>

record CopyVdiskConfig =
  cv_VdiskID :: string
  cv_Type :: VdiskType
  cv_BlockSize :: int

definition CopyVdisk :: "page_enum \<Rightarrow> ('w StorageServer list \<Rightarrow> 'w StorageServer list) \<Rightarrow> CopyVdiskConfig \<Rightarrow> CopyVdiskConfig \<Rightarrow>
    'w StorageCluster \<Rightarrow> 'w StorageCluster option \<Rightarrow> 'w \<Rightarrow> (error option \<times> 'w) option" where
  "CopyVdisk enum arrive source target sourceCluster targetCluster w =
     (let sourceStorageType = VdiskType_StorageType (cv_Type source);
          targetStorageType = VdiskType_StorageType (cv_Type target)
      in if sourceStorageType \<noteq> targetStorageType then Some (Some (ErrOther ''different storageTypes''), w)
         else Option.bind
           (case sourceStorageType of
              StorageDeduped \<Rightarrow> copyDedupedMetadata enum arrive (cv_VdiskID source) (cv_VdiskID target)
                                  (cv_BlockSize source) (cv_BlockSize target) sourceCluster targetCluster w
            | StorageNonDeduped \<Rightarrow> copyNonDedupedData enum arrive (cv_VdiskID source) (cv_VdiskID target)
                                  (cv_BlockSize source) (cv_BlockSize target) sourceCluster targetCluster w
            | StorageSemiDeduped \<Rightarrow> copySemiDeduped enum arrive (cv_VdiskID source) (cv_VdiskID target)
                                  (cv_BlockSize source) (cv_BlockSize target) sourceCluster targetCluster w
            | _ \<Rightarrow> Some (Some (ErrOther ''not a supported storage type''), w))
           (\<lambda>(err, w1).
              if err \<noteq> None \<or> \<not> TlogSupport (cv_Type source) \<or> \<not> TlogSupport (cv_Type target) then Some (err, w1)
              else Some (copyTlogMetadata (cv_VdiskID source) (cv_VdiskID target) sourceCluster targetCluster w1)))"

section \<open>Round trip of the tlog metadata\<close>

lemma ParseUint_itoa:
  assumes "0 \<le> n" and "n < 2 ^ 64"
  shows "ParseUint (itoa n) = Inr (word_of_int n)"
proof -
  have "itoa n = digits (nat n)" "digits (nat n) \<noteq> []" using assms(1) digits_hd[of "nat n"] by (auto simp: itoa_def)
  moreover have "nat n < 2 ^ 64" using assms by (simp add: nat_less_iff)
  ultimately show ?thesis using assms(1) by (simp add: ParseUint_def parse_digits_digits)
qed

context ardb_copy
begin

lemma tlog_metadata_roundtrip:
  assumes cl: "ardb_cluster srv view up cl route members" and up: "up (hd members)"
    and h: "hash_at (view w (hd members) (tlogMetadataKey vd)) \<noteq> None"
  shows "\<exists>w1 w2. StoreTlogMetadata vd cl md w = (None, w1) \<and> LoadTlogMetadata vd (Some cl) w1 = (Inr md, w2)"
proof -
  have "members \<noteq> []" using ardb_cluster.routed[OF cl, of 0] by auto
  then have on: "State (hd members) = Online" by (intro ardb_cluster.online[OF cl]) simp
  let ?f = "tlogMetadataLastFlushedSequenceField" and ?n = "uint (LastFlushedSequence md)"
  have n: "0 \<le> ?n" "?n < 2 ^ 64" using uint_lt2p[of "LastFlushedSequence md"] by simp_all
  from h obtain m where m: "hash_at (view w (hd members) (tlogMetadataKey vd)) = Some m" by blast
  from hset_field[OF up m, of ?f ?n] obtain r w1 where
    s: "srv (hd members) ''HSET'' [AStr (tlogMetadataKey vd), AStr ?f, AInt ?n] w = ((r, None), w1)"
    and v: "view w1 = key_upd (view w) (hd members) (tlogMetadataKey vd) (Some (VHash (m(bytes_of_string ?f \<mapsto> itoa ?n))))" by blast
  have "hash_at (view w1 (hd members) (tlogMetadataKey vd)) = Some (m(bytes_of_string ?f \<mapsto> itoa ?n))" by (simp add: v)
  from hget_field[OF up this, of ?f] obtain w2 where
    g: "srv (hd members) ''HGET'' [AStr (tlogMetadataKey vd), AStr ?f] w1 = ((RBulk (itoa ?n), None), w2)"
    by (auto simp: opt_bulk_def)
  have "StoreTlogMetadata vd cl md w = (None, w1)"
    using s on by (simp add: StoreTlogMetadata_def ardb_cluster.do_first[OF cl] server_Do_def Dial_def HashSet_def)
  moreover have "LoadTlogMetadata vd (Some cl) w1 = (Inr md, w2)"
    using g on n by (simp add: LoadTlogMetadata_def ardb_cluster.do_first[OF cl] server_Do_def Dial_def HashGet_def OptUint64_def
        redis_Uint64_def ParseUint_itoa)
  ultimately show ?thesis by blast
qed

end

end
