(* ===== verification/Vdisk_List.thy ===== *)
theory Vdisk_List
  imports Copy_Fetch "HOL-Library.List_Lexorder" "HOL-Library.Char_ord"
begin

text \<open>
  \<open>ListVdisks\<close> (\<open>nbd/ardb/storage/storage.go\<close>): the identifiers of all vdisks of a cluster, found by scanning the keys
  of every server.
\<close>

section \<open>Filtering keys\<close>

text \<open>The regular expression \<open>^(lba:|nondedup:)(.+)$\<close>; the dot does not match a newline.\<close>

definition strip_prefix :: "string \<Rightarrow> string \<Rightarrow> string option" where
  "strip_prefix prefix key =
     (let rest = drop (length prefix) key
      in if take (length prefix) key = prefix \<and> rest \<noteq> [] \<and> CHR 0x0A \<notin> set rest then Some rest else None)"

definition filterListedVdiskID :: "string \<Rightarrow> string option" where
  "filterListedVdiskID key =
     (case strip_prefix lbaStorageKeyPrefix key of
        Some vdiskID \<Rightarrow> Some vdiskID
      | None \<Rightarrow> strip_prefix nonDedupedStorageKeyPrefix key)"

definition list_filter :: "(string \<Rightarrow> bool) option \<Rightarrow> string \<Rightarrow> string option" where
  "list_filter pred str =
     (case pred of
        None \<Rightarrow> filterListedVdiskID str
      | Some p \<Rightarrow> (case filterListedVdiskID str of
                      None \<Rightarrow> None | Some vdiskID \<Rightarrow> if p vdiskID then Some vdiskID else None))"

section \<open>Scanning a server\<close>

text \<open>\<open>listVdisksAction.Do\<close>: a loop that ends with the start cursor or an empty one.\<close>

partial_function (option) listVdisks_loop ::
  "(string \<Rightarrow> string option) \<Rightarrow> 'w StorageServer \<Rightarrow> string \<Rightarrow> string list \<Rightarrow> 'w \<Rightarrow> (string list result \<times> 'w) option" where
  "listVdisks_loop keep server cursor vdisks w =
     (case Server_Do server (Command Scan [AStr cursor, AStr ''COUNT'', AStr ''5000'']) w of
        (res, w') \<Rightarrow>
          (case (case CursorAndValues res of
                   Inl e \<Rightarrow> map_sum id (Pair '''') (OptStrings (RNil, Some e))
                 | Inr (next, vals) \<Rightarrow> map_sum id (Pair next) (OptStrings (vals, None))) of
             Inl e \<Rightarrow> Some (Inl e, w')
           | Inr (next, output) \<Rightarrow>
               let vdisks' = vdisks @ List.map_filter keep output
               in if next = startCursor \<or> next = '''' then Some (Inr vdisks', w')
                  else listVdisks_loop keep server next vdisks' w'))"

declare listVdisks_loop.simps [code]

definition listVdisksAction_Do :: "(string \<Rightarrow> string option) \<Rightarrow> 'w StorageServer \<Rightarrow> 'w \<Rightarrow> (string list result \<times> 'w) option" where
  "listVdisksAction_Do keep server w = listVdisks_loop keep server startCursor [] w"

text \<open>
  The goroutines of \<open>ListVdisks\<close>, one per server. \<open>ListDo i\<close>: goroutine \<open>i\<close> has done its scan and writes the variable
  \<open>reply\<close>, which all goroutines share, and its own error. \<open>ListTake i\<close>: it reads \<open>reply\<close> into its result.
  \<open>ListSend i\<close>: its result is received. The steps of different goroutines interleave in any order. The test of \<open>reply\<close>
  for nil and the conversion are one read here.
\<close>

datatype list_event = ListDo nat | ListTake nat | ListSend nat

datatype lister = Listing | Listed "error option" | Taken "string list result" | Sent

record 'w list_state =
  shared_reply :: "string list option"
  listers :: "nat \<Rightarrow> lister"
  received :: "string list result list"
  list_world :: 'w

fun list_step :: "(string \<Rightarrow> string option) \<Rightarrow> 'w StorageServer list \<Rightarrow> list_event \<Rightarrow> 'w list_state \<Rightarrow> 'w list_state option" where
  "list_step keep ss (ListDo i) st =
     (if i < length ss \<and> listers st i = Listing then
        map_option (\<lambda>(r, w').
          (case r of
             Inl e \<Rightarrow> st\<lparr>shared_reply := None, listers := (listers st)(i := Listed (Some e)), list_world := w'\<rparr>
           | Inr ids \<Rightarrow> st\<lparr>shared_reply := Some ids, listers := (listers st)(i := Listed None), list_world := w'\<rparr>))
          (listVdisksAction_Do keep (ss ! i) (list_world st))
      else Some st)"
| "list_step keep ss (ListTake i) st =
     Some (case listers st i of
             Listed (Some e) \<Rightarrow> st\<lparr>listers := (listers st)(i := Taken (Inl e))\<rparr>
           | Listed None \<Rightarrow>
               st\<lparr>listers := (listers st)(i := Taken (Inr (case shared_reply st of None \<Rightarrow> [] | Some ids \<Rightarrow> ids)))\<rparr>
           | _ \<Rightarrow> st)"
| "list_step keep ss (ListSend i) st =
     Some (case listers st i of
             Taken r \<Rightarrow> st\<lparr>listers := (listers st)(i := Sent), received := received st @ [r]\<rparr>
           | _ \<Rightarrow> st)"

fun list_run :: "(string \<Rightarrow> string option) \<Rightarrow> 'w StorageServer list \<Rightarrow> list_event list \<Rightarrow> 'w list_state \<Rightarrow> 'w list_state option" where
  "list_run keep ss [] st = Some st"
| "list_run keep ss (e # es) st = Option.bind (list_step keep ss e st) (list_run keep ss es)"

text \<open>The results in the order in which they are received; the first error is returned at once.\<close>

fun list_collect :: "string list result list \<Rightarrow> string list \<Rightarrow> string list result" where
  "list_collect [] ids = Inr ids"
| "list_collect (Inl e # rs) ids = Inl e"
| "list_collect (Inr new # rs) ids = list_collect rs (ids @ new)"

text \<open>\<open>None\<close>: a scan or the schedule does not lead to the end.\<close>

definition ListVdisks :: "list_event list \<Rightarrow> 'w StorageCluster \<Rightarrow> (string \<Rightarrow> bool) option \<Rightarrow> 'w \<Rightarrow>
    (string list result \<times> 'w) option" where
  "ListVdisks es cluster pred w =
     (case ServerIterator cluster of
        Inl e \<Rightarrow> Some (Inl e, w)
      | Inr ss \<Rightarrow>
          Option.bind (list_run (list_filter pred) ss es
              \<lparr>shared_reply = None, listers = (\<lambda>_. Listing), received = [], list_world = w\<rparr>)
            (\<lambda>st. case list_collect (received st) [] of
                    Inl e \<Rightarrow> Some (Inl e, list_world st)
                  | Inr ids \<Rightarrow>
                      if list_all (\<lambda>i. listers st i = Sent) [0..<length ss]
                      then Some (Inr (if length ids \<le> 1 then ids else dedupStrings (sort ids)), list_world st)
                      else None))"

text \<open>
  A schedule of \<open>n\<close> goroutines: each does its steps once and in order. \<open>takes\<close> pairs every goroutine with the one
  that wrote \<open>reply\<close> last before it reads it; a schedule is without overlap when it is the goroutine itself.
\<close>

fun list_event_of :: "list_event \<Rightarrow> nat" where
  "list_event_of (ListDo i) = i"
| "list_event_of (ListTake i) = i"
| "list_event_of (ListSend i) = i"

definition list_schedule :: "nat \<Rightarrow> list_event list \<Rightarrow> bool" where
  "list_schedule n es \<longleftrightarrow> list_all (\<lambda>e. list_event_of e < n) es \<and>
     list_all (\<lambda>i. filter (\<lambda>e. list_event_of e = i) es = [ListDo i, ListTake i, ListSend i]) [0..<n]"

fun takes :: "nat option \<Rightarrow> list_event list \<Rightarrow> (nat \<times> nat option) list" where
  "takes l [] = []"
| "takes l (ListDo i # es) = takes (Some i) es"
| "takes l (ListTake i # es) = (i, l) # takes l es"
| "takes l (ListSend i # es) = takes l es"

section \<open>What is relied on\<close>

fun key_scans :: "'w servers \<Rightarrow> ('w \<Rightarrow> StorageServerConfig \<Rightarrow> string \<Rightarrow> rvalue option) \<Rightarrow> StorageServerConfig \<Rightarrow>
    (string \<Rightarrow> rvalue option) \<Rightarrow> string \<Rightarrow> (bytes \<times> string set) list \<Rightarrow> bool" where
  "key_scans srv view s m cursor [] \<longleftrightarrow> False"
| "key_scans srv view s m cursor ((next, ks) # pages) \<longleftrightarrow>
     (\<forall>w. view w s = m \<longrightarrow>
        (\<exists>bs w'. srv s ''SCAN'' [AStr cursor, AStr ''COUNT'', AStr ''5000''] w = ((RArr [RBulk next, RArr (map RBulk bs)], None), w') \<and>
                 string_of_bytes ` set bs = ks \<and> view w' = view w)) \<and>
     (if pages = [] then string_of_bytes next = startCursor
      else string_of_bytes next \<notin> {startCursor, ''''} \<and> key_scans srv view s m (string_of_bytes next) pages)"

locale ardb_scan = ardb +
  assumes scan: "up s \<Longrightarrow> finite (dom m) \<Longrightarrow> \<exists>pages. key_scans srv view s m startCursor pages \<and> \<Union> (snd ` set pages) = dom m"

text \<open>The server in memory with a scan that returns all keys at once.\<close>

definition mem_scan_srv :: "StorageServerConfig set \<Rightarrow> mem servers" where
  "mem_scan_srv failing s nm args w =
     (if s \<in> failing \<or> nm \<noteq> ''SCAN'' then mem_srv failing s nm args w
      else ((RArr [RBulk [48], RArr (map (RBulk \<circ> bytes_of_string) (sorted_list_of_set (dom (w s))))], None), w))"

lemma char_byte: "char_of (unat (of_char c :: byte)) = c"
proof -
  have "(of_char c :: byte) = of_nat (of_char c)" by (rule of_nat_of_char [symmetric])
  moreover have "(of_char c :: nat) < 256" using nat_of_char_less_256 by simp
  ultimately have "unat (of_char c :: byte) = of_char c"
    by (simp only: unsigned_of_nat) (simp add: take_bit_nat_eq_self)
  then show ?thesis by simp
qed

lemma string_of_bytes_of_string [simp]: "string_of_bytes (bytes_of_string s) = s"
  by (induction s) (simp_all add: string_of_bytes_def bytes_of_string_def char_byte)

lemma mem_scan_eq: "nm \<noteq> ''SCAN'' \<Longrightarrow> mem_scan_srv failing s nm args w = mem_srv failing s nm args w"
  by (simp add: mem_scan_srv_def)

lemma mem_view_dom: "dom (mem_view w s) = dom (w s)"
  by (auto simp: mem_view_def dom_def split: option.splits mem_value.splits)

interpretation mem_scan: ardb_scan "mem_scan_srv failing" mem_view "\<lambda>s. s \<notin> failing"
proof (unfold_locales, goal_cases)
  case (1 s nm args w) then show ?case by (simp add: mem_scan_srv_def mem_srv_def)
next
  case (2 s w k h i) then show ?case using mem.hget by (simp add: mem_scan_eq)
next
  case (3 s w k h i b) then show ?case using mem.hset by (simp add: mem_scan_eq)
next
  case (4 s w k h i) then show ?case using mem.hdel by (simp add: mem_scan_eq)
next
  case (5 s w k h) then show ?case using mem.hkeys by (simp add: mem_scan_eq)
next
  case (6 s w kb v) then show ?case using mem.get_bytes by (simp add: mem_scan_eq)
next
  case (7 s w kb b) then show ?case using mem.set_bytes by (simp add: mem_scan_eq)
next
  case (8 s w k v) then show ?case using mem.get_str by (simp add: mem_scan_eq)
next
  case (9 s w k b) then show ?case using mem.set_str by (simp add: mem_scan_eq)
next
  case (10 s w k) then show ?case using mem.del by (simp add: mem_scan_eq)
next
  case (11 s w k) then show ?case using mem.exists by (simp add: mem_scan_eq)
next
  case (12 s w k i) then show ?case using mem.hget_wrong by (simp add: mem_scan_eq)
next
  case (13 s w k i b) then show ?case using mem.hset_wrong by (simp add: mem_scan_eq)
next
  case (14 s w k i) then show ?case using mem.hdel_wrong by (simp add: mem_scan_eq)
next
  case (15 s m)
  have e: "string_of_bytes ` set (map bytes_of_string (sorted_list_of_set (dom (w s)))) = dom m" if "mem_view w s = m" for w
    using that 15(2) mem_view_dom[of w s] by (simp add: image_image)
  have c: "string_of_bytes [48] = startCursor" by code_simp
  have "mem_scan_srv failing s ''SCAN'' args w = ((RArr [RBulk [48], RArr (map RBulk (map bytes_of_string (sorted_list_of_set (dom (w s)))))], None), w)"
    for args w using 15(1) by (simp add: mem_scan_srv_def)
  note srv = this
  have "key_scans (mem_scan_srv failing) mem_view s m startCursor [([48], dom m)]"
    unfolding key_scans.simps
  proof (intro conjI allI impI)
    fix w assume "mem_view w s = m"
    from e[OF this] show "\<exists>bs w'. mem_scan_srv failing s ''SCAN''
        [AStr startCursor, AStr ''COUNT'', AStr ''5000''] w =
      ((RArr [RBulk [48], RArr (map RBulk bs)], None), w') \<and> string_of_bytes ` set bs = dom m \<and> mem_view w' = mem_view w"
      unfolding srv by blast
  qed (simp add: c)
  then show ?case by (intro exI[of _ "[([48], dom m)]"]) simp
qed

section \<open>Correctness\<close>

lemma strip_prefix_Some: "strip_prefix p key = Some i \<longleftrightarrow> key = p @ i \<and> i \<noteq> [] \<and> CHR 0x0A \<notin> set i"
  by (auto simp: strip_prefix_def Let_def) (metis append_take_drop_id)

lemma filterListedVdiskID_iff:
  "filterListedVdiskID key = Some i \<longleftrightarrow>
     (key = lbaStorageKey i \<or> key = nonDedupedStorageKey i) \<and> i \<noteq> [] \<and> CHR 0x0A \<notin> set i"
proof -
  have "lbaStorageKeyPrefix @ a \<noteq> nonDedupedStorageKeyPrefix @ b" for a b
    by (simp add: lbaStorageKeyPrefix_def nonDedupedStorageKeyPrefix_def)
  then show ?thesis
    by (auto simp: filterListedVdiskID_def strip_prefix_Some lbaStorageKey_def nonDedupedStorageKey_def split: option.splits)
      (metis option.distinct(1) strip_prefix_Some)+
qed

lemma set_map_filter: "set (List.map_filter f xs) = {y. \<exists>x \<in> set xs. f x = Some y}"
  by (induction xs) (auto simp: List.map_filter_simps split: option.splits)

context ardb_scan
begin

lemma scan_strings_bulk: "scan_strings (map RBulk bs) = Inr (map string_of_bytes bs)"
  by (induction bs) auto

lemma OptStrings_bulk: "OptStrings (RArr (map RBulk bs), None) = Inr (map string_of_bytes bs)"
  by (simp add: OptStrings_def Strings_def redis_Values_def scan_strings_bulk)

lemma listVdisks_loop_ok:
  assumes "key_scans srv view s m cursor pages" and "State s = Online" and "view w s = m"
  shows "\<exists>ids w'. listVdisks_loop keep (storageServer srv s) cursor acc w = Some (Inr (acc @ ids), w') \<and> view w' = view w \<and>
    set ids = {y. \<exists>k \<in> \<Union> (snd ` set pages). keep k = Some y}"
  using assms
proof (induction pages arbitrary: cursor acc w)
  case (Cons x pages)
  obtain nxt ks where x: "x = (nxt, ks)" by fastforce
  from Cons.prems x obtain bs w1 where
    b: "srv s ''SCAN'' [AStr cursor, AStr ''COUNT'', AStr ''5000''] w = ((RArr [RBulk nxt, RArr (map RBulk bs)], None), w1)"
    and ks: "string_of_bytes ` set bs = ks" and v: "view w1 = view w" by auto
  have d: "Server_Do (storageServer srv s) (Command Scan [AStr cursor, AStr ''COUNT'', AStr ''5000'']) w =
      ((RArr [RBulk nxt, RArr (map RBulk bs)], None), w1)"
    using b Cons.prems(2) by (simp add: storageServer_def server_Do_def Dial_def Scan_def)
  have f: "set (List.map_filter keep (map string_of_bytes bs)) = {y. \<exists>k \<in> ks. keep k = Some y}"
    using ks by (auto simp: set_map_filter)
  note step = listVdisks_loop.simps[of keep "storageServer srv s" cursor acc w]
  show ?case
  proof (cases "pages = []")
    case True
    with Cons.prems(1) have "string_of_bytes nxt = startCursor" by (simp add: x)
    with d f v True show ?thesis
      by (simp add: step CursorAndValues_def redis_Values_def redis_String_def OptStrings_bulk x)
  next
    case False
    with Cons.prems(1) have nz: "string_of_bytes nxt \<noteq> startCursor" "string_of_bytes nxt \<noteq> []"
      and sc: "key_scans srv view s m (string_of_bytes nxt) pages" by (simp_all add: x)
    from Cons.IH[OF sc Cons.prems(2), of w1 "acc @ List.map_filter keep (map string_of_bytes bs)"] v Cons.prems(3) obtain ids w' where
      ih: "listVdisks_loop keep (storageServer srv s) (string_of_bytes nxt) (acc @ List.map_filter keep (map string_of_bytes bs)) w1 =
        Some (Inr ((acc @ List.map_filter keep (map string_of_bytes bs)) @ ids), w')" "view w' = view w1"
      "set ids = {y. \<exists>k \<in> \<Union> (snd ` set pages). keep k = Some y}" by auto
    have "listVdisks_loop keep (storageServer srv s) cursor acc w =
        Some (Inr (acc @ (List.map_filter keep (map string_of_bytes bs) @ ids)), w')"
      using d ih(1) nz by (simp add: step CursorAndValues_def redis_Values_def redis_String_def OptStrings_bulk)
    then show ?thesis using ih(2,3) v f
      by (intro exI[of _ "List.map_filter keep (map string_of_bytes bs) @ ids"] exI[of _ w']) (auto simp: x)
  qed
qed simp

lemma list_server_ok:
  assumes "up s" and "State s = Online" and "finite (dom (view w s))"
  obtains ids w' where "listVdisksAction_Do keep (storageServer srv s) w = Some (Inr ids, w')" and "view w' = view w"
    and "set ids = {y. \<exists>k \<in> dom (view w s). keep k = Some y}"
proof -
  from scan[OF assms(1,3)] obtain pages where
    p: "key_scans srv view s (view w s) startCursor pages" "\<Union> (snd ` set pages) = dom (view w s)" by auto
  from listVdisks_loop_ok[OF p(1) assms(2) refl, of keep "[]"] that show thesis
    unfolding p(2) listVdisksAction_Do_def by auto
qed

end

text \<open>The steps that remain for a goroutine, and the identifiers it has taken.\<close>

fun list_remaining :: "nat \<Rightarrow> lister \<Rightarrow> list_event list" where
  "list_remaining i Listing = [ListDo i, ListTake i, ListSend i]"
| "list_remaining i (Listed e) = [ListTake i, ListSend i]"
| "list_remaining i (Taken r) = [ListSend i]"
| "list_remaining i Sent = []"

fun result_ids :: "string list result \<Rightarrow> string set" where
  "result_ids (Inr ids) = set ids"
| "result_ids (Inl e) = {}"

fun list_taken :: "lister \<Rightarrow> string set" where
  "list_taken (Taken r) = result_ids r"
| "list_taken _ = {}"

definition listers_ok :: "nat \<Rightarrow> list_event list \<Rightarrow> 'w list_state \<Rightarrow> bool" where
  "listers_ok n es st \<longleftrightarrow> (\<forall>e \<in> set es. list_event_of e < n) \<and>
     (\<forall>i<n. filter (\<lambda>e. list_event_of e = i) es = list_remaining i (listers st i)) \<and>
     (\<forall>i. \<nexists>e. listers st i = Listed (Some e) \<or> listers st i = Taken (Inl e)) \<and> (\<forall>r \<in> set (received st). \<exists>ids. r = Inr ids)"

definition list_all_ids :: "nat \<Rightarrow> 'w list_state \<Rightarrow> string set" where
  "list_all_ids n st = (\<Union>i<n. list_taken (listers st i)) \<union> (\<Union>r \<in> set (received st). result_ids r)"

lemma list_taken_upd:
  assumes "i < n"
  shows "(\<Union>j<n. list_taken ((f(i := l)) j)) \<union> list_taken (f i) = (\<Union>j<n. list_taken (f j)) \<union> list_taken l"
proof -
  have n: "{..<n} = insert i ({..<n} - {i})" using assms by blast
  have u: "(\<Union>j<n. list_taken (g j)) = list_taken (g i) \<union> (\<Union>j \<in> {..<n} - {i}. list_taken (g j))" for g
    by (subst n) (rule UN_insert)
  have "(\<Union>j \<in> {..<n} - {i}. list_taken ((f(i := l)) j)) = (\<Union>j \<in> {..<n} - {i}. list_taken (f j))"
    by (rule SUP_cong) simp_all
  then show ?thesis unfolding u[of f] u[of "f(i := l)"] by (simp add: Un_ac)
qed

lemma listers_ok_step:
  assumes "listers_ok n (e # es) st"
  shows "case e of ListDo i \<Rightarrow> i < n \<and> listers st i = Listing
         | ListTake i \<Rightarrow> i < n \<and> listers st i = Listed None
         | ListSend i \<Rightarrow> i < n \<and> (\<exists>ids. listers st i = Taken (Inr ids))"
proof -
  have r: "list_event_of e < n" "e # filter (\<lambda>x. list_event_of x = list_event_of e) es =
      list_remaining (list_event_of e) (listers st (list_event_of e))"
    and ok: "\<nexists>x. listers st (list_event_of e) = Listed (Some x) \<or> listers st (list_event_of e) = Taken (Inl x)"
    using assms by (auto simp: listers_ok_def)
  show ?thesis
    using r ok by (cases e; cases "listers st (list_event_of e)") (auto intro: sum.exhaust option.exhaust)
qed

lemma listers_ok_upd:
  assumes ok: "listers_ok n (e # es) st" and i: "list_event_of e = i" "list_remaining i (listers st i) = e # list_remaining i l"
    and l: "\<nexists>x. l = Listed (Some x) \<or> l = Taken (Inl x)" and r: "\<forall>r \<in> set rs. \<exists>ids. r = Inr ids"
  shows "listers_ok n es (st\<lparr>shared_reply := sh, listers := (listers st)(i := l), received := rs, list_world := w\<rparr>)"
proof -
  have "filter (\<lambda>x. list_event_of x = j) es = list_remaining j (((listers st)(i := l)) j)" if "j < n" for j
    using ok that i by (cases "j = i") (auto simp: listers_ok_def split: if_splits)
  then show ?thesis using ok l r by (auto simp: listers_ok_def)
qed

context ardb_scan
begin

lemma list_run_ok:
  assumes up: "\<forall>s \<in> set ss. up s \<and> State s = Online \<and> finite (dom (view w s))"
    and L: "\<And>i. i < length ss \<Longrightarrow> L (Some i) = {y. \<exists>k \<in> dom (view w (ss ! i)). keep k = Some y}" "L None = {}"
    and st: "listers_ok (length ss) es st" "view (list_world st) = view w"
    "set (case shared_reply st of None \<Rightarrow> [] | Some ids \<Rightarrow> ids) = L l"
  shows "\<exists>st'. list_run keep (map (storageServer srv) ss) es st = Some st' \<and> listers_ok (length ss) [] st' \<and>
    view (list_world st') = view w \<and>
    list_all_ids (length ss) st' = list_all_ids (length ss) st \<union> (\<Union>p \<in> set (takes l es). L (snd p))"
  using st
proof (induction es arbitrary: st l)
  case (Cons e es)
  show ?case
  proof (cases e)
    case (ListDo i)
    with listers_ok_step[OF Cons.prems(1)] have i: "i < length ss" "listers st i = Listing" by auto
    from up i(1) have s: "up (ss ! i)" "State (ss ! i) = Online" "finite (dom (view (list_world st) (ss ! i)))"
      using Cons.prems(2) by auto
    obtain ids w' where d: "listVdisksAction_Do keep (storageServer srv (ss ! i)) (list_world st) = Some (Inr ids, w')"
      "view w' = view w" "set ids = L (Some i)"
      by (rule list_server_ok[OF s]) (use Cons.prems(2) L(1)[OF i(1)] in simp)
    let ?st = "st\<lparr>shared_reply := Some ids, listers := (listers st)(i := Listed None), received := received st, list_world := w'\<rparr>"
    have ok: "listers_ok (length ss) es ?st"
      by (rule listers_ok_upd[OF Cons.prems(1)]) (use ListDo i Cons.prems(1) in \<open>auto simp: listers_ok_def\<close>)
    have "list_all_ids (length ss) ?st = list_all_ids (length ss) st"
      using i list_taken_upd[OF i(1), of "listers st" "Listed None"] by (simp add: list_all_ids_def)
    with Cons.IH[OF ok, of "Some i"] d i ListDo show ?thesis by simp
  next
    case (ListTake i)
    with listers_ok_step[OF Cons.prems(1)] have i: "i < length ss" "listers st i = Listed None" by auto
    let ?ids = "case shared_reply st of None \<Rightarrow> [] | Some ids \<Rightarrow> ids"
    let ?st = "st\<lparr>shared_reply := shared_reply st, listers := (listers st)(i := Taken (Inr ?ids)), received := received st, list_world := list_world st\<rparr>"
    have ok: "listers_ok (length ss) es ?st"
      by (rule listers_ok_upd[OF Cons.prems(1)]) (use ListTake i Cons.prems(1) in \<open>auto simp: listers_ok_def\<close>)
    have "list_all_ids (length ss) ?st = list_all_ids (length ss) st \<union> L l"
      using i Cons.prems(3) list_taken_upd[OF i(1), of "listers st" "Taken (Inr ?ids)"]
      by (simp add: list_all_ids_def Un_ac)
    with Cons.IH[OF ok, of l] Cons.prems(2,3) i ListTake show ?thesis by (auto simp: Un_assoc)
  next
    case (ListSend i)
    with listers_ok_step[OF Cons.prems(1)] obtain ids where i: "i < length ss" "listers st i = Taken (Inr ids)" by auto
    let ?st = "st\<lparr>shared_reply := shared_reply st, listers := (listers st)(i := Sent), received := received st @ [Inr ids], list_world := list_world st\<rparr>"
    have ok: "listers_ok (length ss) es ?st"
      by (rule listers_ok_upd[OF Cons.prems(1)]) (use ListSend i Cons.prems(1) in \<open>auto simp: listers_ok_def\<close>)
    have "list_all_ids (length ss) ?st = list_all_ids (length ss) st"
      using i list_taken_upd[OF i(1), of "listers st" Sent] by (auto simp: list_all_ids_def)
    with Cons.IH[OF ok, of l] Cons.prems(2,3) i ListSend show ?thesis by simp
  qed
qed simp

lemma list_collect_ok:
  assumes "\<forall>r \<in> set rs. \<exists>ids. r = Inr ids"
  shows "\<exists>ids. list_collect rs acc = Inr ids \<and> set ids = set acc \<union> (\<Union>r \<in> set rs. result_ids r)"
  using assms
proof (induction rs arbitrary: acc)
  case (Cons r rs)
  then obtain new where r: "r = Inr new" by auto
  have "\<forall>r \<in> set rs. \<exists>ids. r = Inr ids" using Cons.prems by simp
  from Cons.IH[OF this, of "acc @ new"] show ?case by (auto simp: r)
qed simp

end

text \<open>The identifiers that one server contributes, and those the goroutines take from \<open>reply\<close>.\<close>

definition vdisk_ids :: "('w \<Rightarrow> StorageServerConfig \<Rightarrow> string \<Rightarrow> rvalue option) \<Rightarrow> (string \<Rightarrow> bool) option \<Rightarrow> 'w \<Rightarrow>
    StorageServerConfig \<Rightarrow> string set" where
  "vdisk_ids view pred w s = {i. i \<noteq> [] \<and> CHR 0x0A \<notin> set i \<and> (\<forall>p. pred = Some p \<longrightarrow> p i) \<and>
     (view w s (lbaStorageKey i) \<noteq> None \<or> view w s (nonDedupedStorageKey i) \<noteq> None)}"

definition seen_ids :: "('w \<Rightarrow> StorageServerConfig \<Rightarrow> string \<Rightarrow> rvalue option) \<Rightarrow> (string \<Rightarrow> bool) option \<Rightarrow> 'w \<Rightarrow>
    StorageServerConfig list \<Rightarrow> nat option \<Rightarrow> string set" where
  "seen_ids view pred w ss l = (case l of None \<Rightarrow> {} | Some j \<Rightarrow> vdisk_ids view pred w (ss ! j))"

lemma list_filter_ids: "{y. \<exists>k \<in> dom (view w s). list_filter pred k = Some y} = vdisk_ids view pred w s"
proof -
  have "list_filter pred k = Some i \<longleftrightarrow> filterListedVdiskID k = Some i \<and> (\<forall>p. pred = Some p \<longrightarrow> p i)" for k i
    by (auto simp: list_filter_def split: option.splits if_splits)
  then show ?thesis by (auto simp: vdisk_ids_def filterListedVdiskID_iff dom_def)
qed

lemma takes_fst: "fst ` set (takes l es) = {i. ListTake i \<in> set es}"
  by (induction l es rule: takes.induct) auto

lemma takes_snd: "(i, Some j) \<in> set (takes l es) \<Longrightarrow> l = Some j \<or> ListDo j \<in> set es"
  by (induction l es rule: takes.induct) auto

lemma list_schedule_takes:
  assumes "list_schedule n es"
  shows "fst ` set (takes None es) = {..<n}" and "(i, Some j) \<in> set (takes None es) \<Longrightarrow> j < n"
proof -
  have lt: "list_event_of e < n" if "e \<in> set es" for e using assms that by (simp add: list_schedule_def list_all_iff)
  have "ListTake i \<in> set es" if "i < n" for i
  proof -
    have "ListTake i \<in> set (filter (\<lambda>e. list_event_of e = i) es)" using assms that by (simp add: list_schedule_def list_all_iff)
    then show ?thesis by simp
  qed
  with lt show "fst ` set (takes None es) = {..<n}" by (force simp: takes_fst)
  show "j < n" if "(i, Some j) \<in> set (takes None es)" using takes_snd[OF that] lt by fastforce
qed

context ardb_scan
begin

theorem ListVdisks_ok:
  assumes cl: "ardb_cluster srv view up cl route members" and up: "\<forall>s \<in> set members. up s \<and> finite (dom (view w s))"
    and sch: "list_schedule (length members) es"
  shows "\<exists>ids w'. ListVdisks es cl pred w = Some (Inr ids, w') \<and> view w' = view w \<and> sorted ids \<and> distinct ids \<and>
    set ids = (\<Union>p \<in> set (takes None es). seen_ids view pred w members (snd p))"
proof -
  let ?st = "\<lparr>shared_reply = None, listers = (\<lambda>_. Listing), received = [], list_world = w\<rparr>"
  have ok: "listers_ok (length members) es ?st" using sch by (auto simp: listers_ok_def list_schedule_def list_all_iff)
  have on: "\<forall>s \<in> set members. up s \<and> State s = Online \<and> finite (dom (view w s))" using up ardb_cluster.online[OF cl] by blast
  obtain st where st: "list_run (list_filter pred) (map (storageServer srv) members) es ?st = Some st"
    "listers_ok (length members) [] st" "view (list_world st) = view w"
    "list_all_ids (length members) st = (\<Union>p \<in> set (takes None es). seen_ids view pred w members (snd p))"
    using list_run_ok[where L = "seen_ids view pred w members" and l = None and keep = "list_filter pred", OF on _ _ ok]
    by (force simp: seen_ids_def list_filter_ids list_all_ids_def)
  have sent: "listers st i = Sent" if "i < length members" for i
    using st(2) that by (cases "listers st i") (auto simp: listers_ok_def)
  then have "(\<Union>i<length members. list_taken (listers st i)) = {}" by auto
  with st(4) list_collect_ok[of "received st" "[]"] st(2) obtain ids where
    ids: "list_collect (received st) [] = Inr ids" "set ids = (\<Union>p \<in> set (takes None es). seen_ids view pred w members (snd p))"
    by (auto simp: listers_ok_def list_all_ids_def)
  let ?r = "if length ids \<le> 1 then ids else dedupStrings (sort ids)"
  have "ListVdisks es cl pred w = Some (Inr ?r, list_world st)"
    using st(1) ids(1) sent by (simp add: ListVdisks_def ardb_cluster.iterator[OF cl] list_all_iff)
  moreover have "sorted ?r \<and> distinct ?r \<and> set ?r = set ids"
  proof (cases "length ids \<le> 1")
    case True
    then show ?thesis by (cases ids rule: remdups_adj.cases) auto
  next
    case False
    then show ?thesis by (simp add: dedupStrings_remdups sorted_distinct_remdups_adj sorted_remdups_adj)
  qed
  ultimately show ?thesis using st(3) ids(2) by (intro exI[of _ ?r] exI[of _ "list_world st"]) simp
qed

text \<open>Every list is sound; without overlap it is complete.\<close>

lemma seen_ids_sound:
  assumes "list_schedule (length members) es"
  shows "(\<Union>p \<in> set (takes None es). seen_ids view pred w members (snd p)) \<subseteq> (\<Union>s \<in> set members. vdisk_ids view pred w s)"
  using list_schedule_takes(2)[OF assms] by (fastforce simp: seen_ids_def split: option.splits)

lemma seen_ids_complete:
  assumes "list_schedule (length members) es" and "list_all (\<lambda>(i, l). l = Some i) (takes None es)"
  shows "(\<Union>p \<in> set (takes None es). seen_ids view pred w members (snd p)) = (\<Union>s \<in> set members. vdisk_ids view pred w s)"
proof -
  have "(\<Union>p \<in> set (takes None es). seen_ids view pred w members (snd p)) =
      (\<Union>i \<in> fst ` set (takes None es). vdisk_ids view pred w (members ! i))"
    using assms(2) by (force simp: list_all_iff seen_ids_def)
  also have "\<dots> = (\<Union>s \<in> set members. vdisk_ids view pred w s)"
    unfolding list_schedule_takes(1)[OF assms(1)] by (force simp: in_set_conv_nth)
  finally show ?thesis .
qed

end

end
