(* ===== verification/Copy_Examples.thy ===== *)
theory Copy_Examples
  imports Copy_Correct Vdisk_Clone Vdisk_List Examples
begin

text \<open>
  A vdisk \<open>v\<close> with two blocks and two sectors, on the two online servers of the primary cluster of
  \<open>Examples\<close>, and a cluster of two servers to copy it to.
\<close>

definition ex_cluster2 :: Cluster where
  "ex_cluster2 = \<lparr>servers = [ex_server ''c:6379'', ex_server ''d:6379''], serverCount = 2, availableServerCount = 2\<rparr>"

definition ex_part :: "StorageServerConfig \<Rightarrow> int option" where
  "ex_part s = (if Address s = ''a:6379'' then Some 0 else if Address s = ''b:6379'' then Some 2 else None)"

definition ex_sworld :: mem where
  "ex_sworld s k =
     (case ex_part s of
        None \<Rightarrow> None
      | Some i \<Rightarrow> if k = ''nondedup:v'' then Some (MHash [(itoa i, [7])])
                  else if k = ''lba:v'' then Some (MHash [(itoa i, replicate 4096 1)]) else None)"

definition sorted_enum :: page_enum where
  "sorted_enum d = map (\<lambda>i. (i, the (d i))) (sorted_list_of_set (dom d))"

lemma sorted_enum_good: "good_enum sorted_enum"
proof (unfold good_enum_def, intro allI impI conjI)
  fix d :: "int \<rightharpoonup> bytes" assume f: "finite (dom d)"
  show "distinct (map fst (sorted_enum d))" by (simp add: sorted_enum_def o_def)
  show "map_of (sorted_enum d) = d"
  proof
    fix i
    have "map_of (map (\<lambda>i. (i, the (d i))) (sorted_list_of_set (dom d))) i = (if i \<in> dom d then Some (the (d i)) else None)"
      using f by (simp add: map_of_map_restrict restrict_map_def)
    then show "map_of (sorted_enum d) i = d i" by (cases "d i") (auto simp: sorted_enum_def domIff)
  qed
qed

abbreviation "ex_ccl \<equiv> Cluster_cluster (mem_copy_srv {}) id ex_cluster"
abbreviation "ex_ctc \<equiv> Cluster_cluster (mem_copy_srv {}) id ex_tcluster"

lemma ex_copy_ardb: "ardb_copy (mem_copy_srv {}) mem_view ex_up"
  using mem_copy.ardb_copy_axioms[of "{}"] by (simp add: ex_up_def[abs_def])

lemma ex_scan_ardb: "ardb_scan (mem_scan_srv {}) mem_view ex_up"
  using mem_scan.ardb_scan_axioms[of "{}"] by (simp add: ex_up_def[abs_def])

lemma ex_copy_cluster: "ardb_cluster (mem_copy_srv {}) mem_view ex_up ex_ccl (Cluster_route ex_cluster) (Cluster_members ex_cluster)"
  by (rule Cluster_ardb_cluster[OF ardb_copy.axioms(1)[OF ex_copy_ardb] ex_cluster_wf])

lemma ex_copy_tcluster: "ardb_cluster (mem_copy_srv {}) mem_view ex_up ex_ctc (Cluster_route ex_tcluster) (Cluster_members ex_tcluster)"
  by (rule Cluster_ardb_cluster[OF ardb_copy.axioms(1)[OF ex_copy_ardb] ex_tcluster_wf])

lemma ex_scan_cluster: "ardb_cluster (mem_scan_srv {}) mem_view ex_up (Cluster_cluster (mem_scan_srv {}) id ex_cluster)
    (Cluster_route ex_cluster) (Cluster_members ex_cluster)"
  by (rule Cluster_ardb_cluster[OF ardb_scan.axioms(1)[OF ex_scan_ardb] ex_cluster_wf])

lemma ex_sview: "mem_view ex_sworld s k =
    (case ex_part s of
       None \<Rightarrow> None
     | Some i \<Rightarrow> if k = ''nondedup:v'' then Some (VHash [itoa i \<mapsto> [7]])
                 else if k = ''lba:v'' then Some (VHash [itoa i \<mapsto> replicate 4096 1]) else None)"
  by (simp add: mem_view_def ex_sworld_def split: option.splits)

text \<open>Servers of which the first holds the LBA of a vdisk and the second nothing.\<close>

definition ex_lworld :: mem where
  "ex_lworld s k = (if Address s = ''a:6379'' \<and> k = ''lba:w'' then Some (MHash []) else None)"

lemma ex_lview: "mem_view ex_lworld s k = (if Address s = ''a:6379'' \<and> k = ''lba:w'' then Some (VHash Map.empty) else None)"
  by (simp add: mem_view_def ex_lworld_def)

lemma ex_sroute:
  "Cluster_route ex_cluster 0 = Some (ex_server ''a:6379'')"
  "Cluster_route ex_cluster 2 = Some (ex_server ''b:6379'')"
  by code_simp+

lemma ex_members_list: "Cluster_members ex_cluster = [ex_server ''a:6379'', ex_server ''b:6379'']"
  "Cluster_members ex_tcluster = [ex_server ''t:6379'']"
  by (simp_all add: Cluster_members_def ex_cluster_defs)

lemma ex_index_fields: "0 \<le> i \<Longrightarrow> i < 2 ^ 63 \<Longrightarrow> index_fields [itoa i \<mapsto> v]"
  by (auto simp: index_fields_def split: if_splits)

lemma ex_placed:
  "placed mem_view (Cluster_route ex_cluster) (Cluster_members ex_cluster) (nonDedupedStorageKey ''v'') (\<lambda>v. \<not> all_zero v) ex_sworld"
  "placed mem_view (Cluster_route ex_cluster) (Cluster_members ex_cluster) (lbaStorageKey ''v'') (\<lambda>v. length v = 4096 \<and> \<not> all_zero v) ex_sworld"
  using ex_sroute
  by (auto simp: placed_def ex_members_list ex_sview ex_part_def ex_server_def nonDedupedStorageKey_def nonDedupedStorageKeyPrefix_def
      lbaStorageKey_def lbaStorageKeyPrefix_def hash_at_def ex_index_fields all_zero_iff itoa_inject split: if_splits)

lemma ex_shash:
  "route_hash mem_view (Cluster_route ex_cluster) (nonDedupedStorageKey ''v'') ex_sworld 0 = Some [7]"
  "route_hash mem_view (Cluster_route ex_cluster) (lbaStorageKey ''v'') ex_sworld 0 = Some (replicate 4096 1)"
  "hash_ok mem_view (Cluster_route ex_tcluster) ex_up k ex_sworld"
  using ex_sroute
  by (simp_all add: route_hash_def ex_sview ex_part_def ex_server_def nonDedupedStorageKey_def nonDedupedStorageKeyPrefix_def
      lbaStorageKey_def lbaStorageKeyPrefix_def hash_at_def hash_ok_def split: option.splits)

text \<open>The same number of available servers, but other indices on them.\<close>

definition ex_enum :: page_enum where
  "ex_enum d = map (\<lambda>i. (i, the (d i))) (filter (\<lambda>i. d i \<noteq> None) [0..5])"

definition ex_copied :: "(error option \<times> mem) option" where
  "ex_copied = copyNonDedupedData ex_enum id ''v'' ''x'' 1 1 ex_ccl (Some (Cluster_cluster (mem_copy_srv {}) id ex_cluster2)) ex_sworld"

definition ex_copied_block :: "int \<Rightarrow> bytes option result option" where
  "ex_copied_block i =
     map_option (\<lambda>(e, w). fst (nd_GetBlock \<lparr>nd_blockSize = 1, nd_storageKey = ''nondedup:x'', nd_templateStorageKey = [], nd_vdiskID = ''x'',
       nd_templateVdiskID = [], nd_cluster = Cluster_cluster (mem_copy_srv {}) id ex_cluster2, nd_templateCluster = None\<rparr> i w)) ex_copied"

definition ex_source_block :: "int \<Rightarrow> bytes option result" where
  "ex_source_block i = fst (nd_GetBlock \<lparr>nd_blockSize = 1, nd_storageKey = ''nondedup:v'', nd_templateStorageKey = [], nd_vdiskID = ''v'',
       nd_templateVdiskID = [], nd_cluster = ex_ccl, nd_templateCluster = None\<rparr> i ex_sworld)"

lemma ex_copied_eval:
  "map_option fst ex_copied = Some None" "ex_copied_block 2 = Some (Inr None)" "ex_source_block 2 = Inr (Some [7])"
  by code_simp+

lemma ex_copy_facts:
  "ServerCount ex_ccl \<noteq> ServerCount ex_ctc"
  "\<exists>i \<ge> 0. route_hash mem_view (Cluster_route ex_cluster) (nonDedupedStorageKey ''v'') ex_sworld i \<noteq> None"
  "\<exists>i \<ge> 0. route_hash mem_view (Cluster_route ex_cluster) (lbaStorageKey ''v'') ex_sworld i \<noteq> None"
  "\<forall>s \<in> set (Cluster_members ex_cluster). ex_up s"
  using ex_shash(1,2) by (auto simp: Cluster_cluster_def ex_cluster_defs)


end
