(* ===== verification/Seq_Cache.thy ===== *)
theory Seq_Cache
  imports Prelude
begin

text \<open>
  The sequence cache of the tlog storage (\<open>nbd/nbdserver/tlog/tlog.go\<close>): writes the tlog server has not stored yet, by
  sequence, with the versions of each block in a history. Nil contents are \<open>None\<close>. The indices of a history are 64-bit words,
  the first is the maximal word plus one.
\<close>

section \<open>Histories of a block\<close>

record dataHistory =
  dh_latest :: uint64
  dh_min :: uint64
  dh_max :: uint64
  dh_sequences :: "uint64 \<rightharpoonup> uint64"
  dh_values :: "uint64 \<rightharpoonup> bytes option"

definition MaxUint64 :: uint64 where "MaxUint64 = - 1"

definition newDataHistory :: dataHistory where
  "newDataHistory = \<lparr>dh_latest = MaxUint64, dh_min = MaxUint64, dh_max = MaxUint64, dh_sequences = Map.empty, dh_values = Map.empty\<rparr>"

definition dh_Empty :: "dataHistory \<Rightarrow> bool" where
  "dh_Empty dh \<longleftrightarrow> dh_max dh = MaxUint64"

text \<open>\<open>None\<close> is the error \<open>errOutdated\<close>.\<close>

definition dh_Add :: "uint64 \<Rightarrow> bytes option \<Rightarrow> dataHistory \<Rightarrow> dataHistory option" where
  "dh_Add sequenceIndex data dh =
     (if sequenceIndex > dh_latest dh \<or> dh_Empty dh
      then let mx = dh_max dh + 1
           in Some (dh\<lparr>dh_max := mx, dh_latest := sequenceIndex, dh_sequences := (dh_sequences dh)(sequenceIndex \<mapsto> mx),
                       dh_values := (dh_values dh)(mx \<mapsto> data)\<rparr>)
      else None)"

definition dh_Latest :: "dataHistory \<Rightarrow> bytes option option" where
  "dh_Latest dh = dh_values dh (dh_max dh)"

definition dh_LatestSequence :: "dataHistory \<Rightarrow> uint64 option" where
  "dh_LatestSequence dh = (if dh_latest dh \<noteq> MaxUint64 then Some (dh_latest dh) else None)"

text \<open>The loop that deletes the values from \<open>lo\<close> to \<open>hi\<close>.\<close>

definition delete_range :: "uint64 \<Rightarrow> uint64 \<Rightarrow> (uint64 \<rightharpoonup> 'v) \<Rightarrow> uint64 \<rightharpoonup> 'v" where
  "delete_range lo hi m = fold (\<lambda>i m. m(of_nat i := None)) [unat lo..<Suc (unat hi)] m"

definition dh_Trim :: "uint64 \<Rightarrow> dataHistory \<Rightarrow> bytes option option \<times> dataHistory" where
  "dh_Trim sequenceIndex dh =
     (case dh_sequences dh sequenceIndex of
        None \<Rightarrow> (None, dh)
      | Some index \<Rightarrow>
          let dh1 = dh\<lparr>dh_sequences := (dh_sequences dh)(sequenceIndex := None),
                       dh_min := if dh_min dh = MaxUint64 then 0 else dh_min dh\<rparr>
          in if index < dh_min dh1 then (None, dh1)
             else
               let value = (case dh_values dh1 index of None \<Rightarrow> None | Some v \<Rightarrow> v);
                   dh2 = dh1\<lparr>dh_values := delete_range (dh_min dh1) index (dh_values dh1)\<rparr>
               in (Some value,
                   if index < dh_max dh2 then dh2\<lparr>dh_min := index + 1\<rparr>
                   else dh2\<lparr>dh_sequences := Map.empty, dh_min := MaxUint64, dh_max := MaxUint64, dh_latest := MaxUint64\<rparr>))"

section \<open>The cache\<close>

record inMemorySequenceCache =
  sq_sequences :: "uint64 \<rightharpoonup> int"
  sq_values :: "int \<rightharpoonup> dataHistory"
  sq_size :: uint64

definition newInMemorySequenceCache :: inMemorySequenceCache where
  "newInMemorySequenceCache = \<lparr>sq_sequences = Map.empty, sq_values = Map.empty, sq_size = 0\<rparr>"

text \<open>\<open>Add\<close> returns nil also when the history refuses an outdated sequence.\<close>

definition sq_Add :: "uint64 \<Rightarrow> int \<Rightarrow> bytes option \<Rightarrow> inMemorySequenceCache \<Rightarrow> error option \<times> inMemorySequenceCache" where
  "sq_Add sequenceIndex blockIndex data sq =
     (let (dh, sq1) = (case sq_values sq blockIndex of
                         Some dh \<Rightarrow> (dh, sq)
                       | None \<Rightarrow> (newDataHistory,
                                  sq\<lparr>sq_values := (sq_values sq)(blockIndex \<mapsto> newDataHistory), sq_size := sq_size sq + 1\<rparr>))
      in case dh_Add sequenceIndex data dh of
           None \<Rightarrow> (None, sq1)
         | Some dh' \<Rightarrow>
             (None, sq1\<lparr>sq_values := (sq_values sq1)(blockIndex \<mapsto> dh'),
                        sq_sequences := (sq_sequences sq1)(sequenceIndex \<mapsto> blockIndex)\<rparr>))"

definition sq_Get :: "int \<Rightarrow> inMemorySequenceCache \<Rightarrow> bytes option option" where
  "sq_Get blockIndex sq = (case sq_values sq blockIndex of None \<Rightarrow> None | Some dh \<Rightarrow> dh_Latest dh)"

text \<open>One round of the loop of \<open>Evict\<close>; the elements are a map from block indices to contents.\<close>

definition evict_one :: "uint64 \<Rightarrow> inMemorySequenceCache \<times> (int \<rightharpoonup> bytes option) \<Rightarrow> inMemorySequenceCache \<times> (int \<rightharpoonup> bytes option)" where
  "evict_one sequenceIndex st =
     (let (sq, elements) = st
      in case sq_sequences sq sequenceIndex of
           None \<Rightarrow> (sq, elements)
         | Some blockIndex \<Rightarrow>
             let sq1 = sq\<lparr>sq_sequences := (sq_sequences sq)(sequenceIndex := None)\<rparr>
             in case sq_values sq1 blockIndex of
                  None \<Rightarrow> (sq1, elements)
                | Some dh \<Rightarrow>
                    (case dh_Trim sequenceIndex dh of
                       (None, dh') \<Rightarrow> (sq1\<lparr>sq_values := (sq_values sq1)(blockIndex \<mapsto> dh')\<rparr>, elements)
                     | (Some element, dh') \<Rightarrow>
                         let elements' = elements(blockIndex \<mapsto> element)
                         in if dh_Empty dh'
                            then let sq2 = sq1\<lparr>sq_values := (sq_values sq1)(blockIndex := None), sq_size := sq_size sq1 - 1\<rparr>
                                 in (if sq_size sq2 = 0 then sq2\<lparr>sq_sequences := Map.empty\<rparr> else sq2, elements')
                            else (sq1\<lparr>sq_values := (sq_values sq1)(blockIndex \<mapsto> dh')\<rparr>, elements')))"

definition sq_Evict :: "uint64 list \<Rightarrow> inMemorySequenceCache \<Rightarrow> (int \<rightharpoonup> bytes option) \<times> inMemorySequenceCache" where
  "sq_Evict sequences sq = (let (sq', elements) = fold evict_one sequences (sq, Map.empty) in (elements, sq'))"

definition sq_Empty :: "inMemorySequenceCache \<Rightarrow> bool" where
  "sq_Empty sq \<longleftrightarrow> sq_size sq = 0"

section \<open>What a history holds\<close>

text \<open>
  The versions of a block that are pending, oldest first. \<open>base\<close> is the index of the oldest; sequences of older versions
  may still be in the map, with lower indices. An index never exceeds its sequence, so indices do not wrap around as long as
  sequences do not.
\<close>

type_synonym version = "uint64 \<times> bytes option"

definition hist_rel :: "dataHistory \<Rightarrow> nat \<Rightarrow> version list \<Rightarrow> bool" where
  "hist_rel dh base es \<longleftrightarrow>
     es \<noteq> [] \<and> sorted_wrt (<) (map (unat \<circ> fst) es) \<and>
     (\<forall>k < length es. base + k \<le> unat (fst (es ! k))) \<and> base + length es < 2 ^ 64 \<and>
     unat (dh_max dh) + 1 = base + length es \<and> dh_latest dh = fst (last es) \<and>
     (if dh_min dh = MaxUint64 then base = 0 else unat (dh_min dh) = base) \<and>
     (\<forall>k < length es. dh_sequences dh (fst (es ! k)) = Some (of_nat (base + k))) \<and>
     (\<forall>s index. dh_sequences dh s = Some index \<longrightarrow> unat index < base \<or> s \<in> fst ` set es) \<and>
     (\<forall>i. dh_values dh i = (if base \<le> unat i \<and> unat i < base + length es then Some (snd (es ! (unat i - base))) else None))"

lemma unat_MaxUint64: "unat MaxUint64 = 2 ^ 64 - 1"
  by (simp add: MaxUint64_def unsigned_minus_1_eq_mask mask_eq_exp_minus_1)

lemma MaxUint64_iff: "x = MaxUint64 \<longleftrightarrow> unat x = 2 ^ 64 - 1"
  using unat_MaxUint64 by (metis word_unat_eq_iff)

lemma unat_of_nat_small: "n < 2 ^ 64 \<Longrightarrow> unat (of_nat n :: uint64) = n"
  by (simp add: unat_of_nat take_bit_nat_eq_self)

lemma unat_succ: "unat x + 1 < 2 ^ 64 \<Longrightarrow> unat (x + 1) = unat x + 1" for x :: uint64
  using unat_of_nat_small[of "unat x + 1"] by (simp only: of_nat_add of_nat_unat of_nat_1) (simp add: word_unat_eq_iff)

lemma delete_range_apply:
  "delete_range lo hi m i = (if unat lo \<le> unat i \<and> unat i \<le> unat hi then None else m i)"
proof -
  have "fold (\<lambda>i m. m(of_nat i := None)) [a..<b] m i = (if a \<le> unat i \<and> unat i < b then None else m i)" if "b \<le> 2 ^ 64" for a b
    using that
  proof (induction b)
    case (Suc b)
    then have "unat (of_nat b :: uint64) = b" by (intro unat_of_nat_small) simp
    then have "i = of_nat b \<longleftrightarrow> unat i = b" by (metis word_unat_eq_iff)
    with Suc show ?case by (cases "a \<le> b") (auto simp: less_Suc_eq)
  qed simp
  note * = this
  have "Suc (unat hi) \<le> 2 ^ 64" using unsigned_less[of hi, where 'a = nat] by simp
  from *[OF this] show ?thesis by (simp only: delete_range_def less_Suc_eq_le)
qed

lemma hist_maxD:
  assumes "hist_rel dh base es"
  shows "dh_max dh \<noteq> MaxUint64" and "unat (dh_max dh + 1) = base + length es" and "unat (dh_max dh) = base + (length es - 1)"
    and "base + length es \<le> unat (fst (last es)) + 1"
proof -
  have ne: "es \<noteq> []" and m: "unat (dh_max dh) + 1 = base + length es" and b: "base + length es < 2 ^ 64"
    and k: "\<forall>k < length es. base + k \<le> unat (fst (es ! k))" using assms by (simp_all add: hist_rel_def)
  show nm: "dh_max dh \<noteq> MaxUint64" using m b by (auto simp: MaxUint64_iff)
  show "unat (dh_max dh + 1) = base + length es" using m b unat_succ[of "dh_max dh"] by simp
  show "unat (dh_max dh) = base + (length es - 1)" using m ne by (cases es) auto
  show "base + length es \<le> unat (fst (last es)) + 1" using k ne by (cases "length es") (auto simp: last_conv_nth)
qed

lemma hist_Add:
  assumes r: "hist_rel dh base es" and s: "unat (fst (last es)) < unat s" "s \<noteq> MaxUint64"
  shows "\<exists>dh'. dh_Add s d dh = Some dh' \<and> hist_rel dh' base (es @ [(s, d)])"
proof -
  note m = hist_maxD[OF r]
  let ?mx = "dh_max dh + 1"
  let ?dh = "dh\<lparr>dh_max := ?mx, dh_latest := s, dh_sequences := (dh_sequences dh)(s \<mapsto> ?mx), dh_values := (dh_values dh)(?mx \<mapsto> d)\<rparr>"
  have "dh_latest dh = fst (last es)" using r by (simp add: hist_rel_def)
  then have add: "dh_Add s d dh = Some ?dh" using s(1) by (simp add: dh_Add_def word_less_nat_alt Let_def)
  have le: "base + length es \<le> unat s" using m(4) s(1) by simp
  have s64: "unat s < 2 ^ 64 - 1" using s(2) unsigned_less[of s, where 'a = nat] by (auto simp: MaxUint64_iff)
  have mx: "?mx = of_nat (base + length es)" using m(2) r unat_of_nat_small[of "base + length es"] by (simp only: word_unat_eq_iff hist_rel_def)
  have ne: "es \<noteq> []" and srt: "sorted_wrt (<) (map (unat \<circ> fst) es)" using r by (simp_all add: hist_rel_def)
  have below: "unat (fst x) < unat s" if "x \<in> set es" for x
  proof -
    from that obtain k where k: "k < length es" "x = es ! k" by (auto simp: in_set_conv_nth)
    have "unat (fst (es ! k)) \<le> unat (fst (last es))"
      using srt k(1) ne by (cases "k = length es - 1") (auto simp: last_conv_nth sorted_wrt_iff_nth_less intro!: less_imp_le)
    then show ?thesis using k s(1) by simp
  qed
  have idx: "i = ?mx \<longleftrightarrow> unat i = base + length es" for i using m(2) by (metis word_unat_eq_iff)
  have seqs: "(dh_sequences ?dh) (fst ((es @ [(s, d)]) ! k)) = Some (of_nat (base + k))" if "k < length (es @ [(s, d)])" for k
    using that r below[of "es ! k"] mx by (auto simp: hist_rel_def nth_append less_Suc_eq)
  have "hist_rel ?dh base (es @ [(s, d)])"
    unfolding hist_rel_def
  proof (intro conjI, goal_cases)
    case 1 show ?case by simp
  next
    case 2 show ?case using srt below by (auto simp: sorted_wrt_append)
  next
    case 3 show ?case using r le by (auto simp: hist_rel_def nth_append less_Suc_eq)
  next
    case 4 show ?case using le s64 by simp
  next
    case 5 show ?case using m(2) by simp
  next
    case 6 show ?case by simp
  next
    case 7 show ?case using r by (simp add: hist_rel_def)
  next
    case 8 show ?case using seqs by blast
  next
    case 9 show ?case using r by (auto simp: hist_rel_def)
  next
    case 10 show ?case using r idx by (auto simp: hist_rel_def nth_append)
  qed
  with add show ?thesis by blast
qed

lemma hist_new:
  assumes "s \<noteq> MaxUint64"
  shows "\<exists>dh'. dh_Add s d newDataHistory = Some dh' \<and> hist_rel dh' 0 [(s, d)]"
proof -
  have "unat i = 0 \<longleftrightarrow> i = 0" for i :: uint64 by (simp add: unsigned_eq_0_iff)
  then show ?thesis by (auto simp: dh_Add_def dh_Empty_def newDataHistory_def Let_def MaxUint64_def hist_rel_def)
qed

lemma hist_Latest:
  assumes r: "hist_rel dh base es"
  shows "dh_Latest dh = Some (snd (last es))" and "\<not> dh_Empty dh"
proof -
  note m = hist_maxD[OF r]
  have "es \<noteq> []" using r by (simp add: hist_rel_def)
  then show "dh_Latest dh = Some (snd (last es))" using r m(3) by (simp add: hist_rel_def dh_Latest_def last_conv_nth)
  show "\<not> dh_Empty dh" using m(1) by (simp add: dh_Empty_def)
qed

lemma hist_Trim_stale:
  assumes r: "hist_rel dh base es" and s: "s \<notin> fst ` set es"
  shows "\<exists>dh'. dh_Trim s dh = (None, dh') \<and> hist_rel dh' base es"
proof (cases "dh_sequences dh s")
  case None
  then show ?thesis using r by (simp add: dh_Trim_def)
next
  case (Some index)
  then have i: "unat index < base" using r s unfolding hist_rel_def by blast
  then have mn: "dh_min dh \<noteq> MaxUint64" "unat (dh_min dh) = base" using r by (auto simp: hist_rel_def split: if_splits)
  let ?dh = "dh\<lparr>dh_sequences := (dh_sequences dh)(s := None), dh_min := dh_min dh\<rparr>"
  have "dh_Trim s dh = (None, ?dh)" using Some i mn by (simp add: dh_Trim_def word_less_nat_alt)
  moreover have "fst (es ! k) \<noteq> s" if "k < length es" for k using s that by force
  then have "hist_rel ?dh base es" using r mn by (simp add: hist_rel_def)
  ultimately show ?thesis by blast
qed

lemma hist_Trim_found:
  assumes r: "hist_rel dh base es" and k: "k < length es" "s = fst (es ! k)"
  shows "\<exists>dh'. dh_Trim s dh = (Some (snd (es ! k)), dh') \<and>
    (if Suc k < length es then hist_rel dh' (base + Suc k) (drop (Suc k) es) else dh_Empty dh')"
proof -
  note m = hist_maxD[OF r]
  let ?i = "of_nat (base + k) :: uint64"
  have b: "base + length es < 2 ^ 64" using r by (simp add: hist_rel_def)
  then have i: "unat ?i = base + k" using k(1) by (intro unat_of_nat_small) simp
  have seq: "dh_sequences dh s = Some ?i" using r k by (simp add: hist_rel_def)
  let ?mn = "if dh_min dh = MaxUint64 then 0 else dh_min dh"
  have mn: "unat ?mn = base" using r by (auto simp: hist_rel_def)
  have val: "dh_values dh ?i = Some (snd (es ! k))" using r i k(1) by (simp add: hist_rel_def)
  let ?dh = "dh\<lparr>dh_sequences := (dh_sequences dh)(s := None), dh_min := ?mn, dh_values := delete_range ?mn ?i (dh_values dh)\<rparr>"
  have lt: "?i < dh_max dh \<longleftrightarrow> Suc k < length es" using i m(3) k(1) by (auto simp: word_less_nat_alt)
  have ge: "\<not> ?i < ?mn" using i mn by (simp add: word_less_nat_alt)
  have trim: "dh_Trim s dh = (Some (snd (es ! k)),
      if Suc k < length es then ?dh\<lparr>dh_min := ?i + 1\<rparr>
      else ?dh\<lparr>dh_sequences := Map.empty, dh_min := MaxUint64, dh_max := MaxUint64, dh_latest := MaxUint64\<rparr>)"
    unfolding dh_Trim_def using seq val lt ge by (simp add: Let_def)
  show ?thesis
  proof (cases "Suc k < length es")
    case False
    with trim show ?thesis by (simp add: dh_Empty_def)
  next
    case True
    have si: "unat (?i + 1) = base + Suc k" using i b True unat_succ[of ?i] by simp
    have ne: "?i + 1 \<noteq> MaxUint64" using si b True by (simp add: MaxUint64_iff)
    have srt: "sorted_wrt (<) (map (unat \<circ> fst) es)" using r by (simp add: hist_rel_def)
    have other: "fst (es ! (Suc k + j)) \<noteq> s" if "Suc k + j < length es" for j
      using srt k that unfolding sorted_wrt_iff_nth_less by (metis (no_types, lifting) length_map less_add_Suc1 add_Suc nat_less_le nth_map o_apply order_less_trans k(1))
    have "hist_rel (?dh\<lparr>dh_min := ?i + 1\<rparr>) (base + Suc k) (drop (Suc k) es)"
      unfolding hist_rel_def
    proof (intro conjI, goal_cases)
      case 1 show ?case using True by simp
    next
      case 2 show ?case using sorted_wrt_drop[OF srt, of "Suc k"] by (simp add: drop_map)
    next
      case 3
      have le: "\<forall>k < length es. base + k \<le> unat (fst (es ! k))" using r by (simp add: hist_rel_def)
      have "base + Suc k + j \<le> unat (fst (es ! (Suc k + j)))" if "Suc k + j < length es" for j
        using le[rule_format, OF that] by simp
      then show ?case by simp
    next
      case 4 show ?case using b True by simp
    next
      case 5 show ?case using r True by (simp add: hist_rel_def)
    next
      case 6 show ?case using r True by (simp add: hist_rel_def)
    next
      case 7 show ?case using ne si by simp
    next
      case 8 show ?case using r other by (auto simp: hist_rel_def add.assoc)
    next
      case 9
      have "unat index < base + Suc k \<or> s' \<in> fst ` set (drop (Suc k) es)" if "s' \<noteq> s" "dh_sequences dh s' = Some index" for s' index
      proof (cases "s' \<in> fst ` set es")
        case True
        then obtain j where j: "j < length es" "s' = fst (es ! j)" by (auto simp: in_set_conv_nth)
        then have "index = of_nat (base + j)" using r that(2) by (simp add: hist_rel_def)
        then have "unat index = base + j" using j b unat_of_nat_small[of "base + j"] by (simp del: of_nat_add)
        moreover have "es ! j \<in> set (drop (Suc k) es)" if "\<not> j \<le> k"
          using that j nth_mem[of "j - Suc k" "drop (Suc k) es"] by simp
        ultimately show ?thesis using j by (cases "j \<le> k") auto
      next
        case False
        then show ?thesis using r that(2) unfolding hist_rel_def by fastforce
      qed
      then show ?case by auto
    next
      case 10
      have v: "dh_values dh j = (if base \<le> unat j \<and> unat j < base + length es then Some (snd (es ! (unat j - base))) else None)" for j
        using r by (simp add: hist_rel_def)
      have "delete_range ?mn ?i (dh_values dh) j =
        (if base + Suc k \<le> unat j \<and> unat j < base + Suc k + length (drop (Suc k) es)
         then Some (snd (drop (Suc k) es ! (unat j - (base + Suc k)))) else None)" for j
        unfolding delete_range_apply v mn i using True by (auto simp: Suc_diff_Suc)
      then show ?case by simp
    qed
    with trim True show ?thesis by simp
  qed
qed

section \<open>What the cache holds\<close>

text \<open>The pending versions of every block, oldest first; sequences are below \<open>bound\<close>.\<close>

type_synonym pending = "int \<Rightarrow> version list"

definition slot_rel :: "dataHistory option \<Rightarrow> version list \<Rightarrow> bool" where
  "slot_rel slot es \<longleftrightarrow> (case slot of None \<Rightarrow> es = [] | Some dh \<Rightarrow> \<exists>base. hist_rel dh base es)"

definition cache_rel :: "inMemorySequenceCache \<Rightarrow> nat \<Rightarrow> pending \<Rightarrow> bool" where
  "cache_rel sq bound P \<longleftrightarrow>
     (\<forall>b. slot_rel (sq_values sq b) (P b)) \<and>
     (\<forall>b. \<forall>v \<in> set (P b). sq_sequences sq (fst v) = Some b \<and> unat (fst v) < bound) \<and>
     finite (dom (sq_values sq)) \<and> sq_size sq = of_nat (card (dom (sq_values sq))) \<and> bound < 2 ^ 64"

lemma cache_values:
  assumes "cache_rel sq bound P"
  shows "sq_values sq b = None \<longleftrightarrow> P b = []" and "sq_values sq b = Some dh \<Longrightarrow> \<exists>base. hist_rel dh base (P b)"
proof -
  have c: "slot_rel (sq_values sq b) (P b)" using assms by (simp add: cache_rel_def)
  then show "sq_values sq b = Some dh \<Longrightarrow> \<exists>base. hist_rel dh base (P b)" by (simp add: slot_rel_def)
  from c show "sq_values sq b = None \<longleftrightarrow> P b = []" by (auto simp: slot_rel_def hist_rel_def split: option.splits)
qed

text \<open>Every block has a sequence of its own, so the number of blocks does not wrap around.\<close>

lemma cache_card:
  assumes "cache_rel sq bound P"
  shows "card (dom (sq_values sq)) \<le> bound" and "unat (sq_size sq) = card (dom (sq_values sq))"
proof -
  let ?f = "\<lambda>b. unat (fst (hd (P b)))"
  have hd: "hd (P b) \<in> set (P b)" if "b \<in> dom (sq_values sq)" for b using that cache_values(1)[OF assms, of b] by auto
  have "inj_on ?f (dom (sq_values sq))"
  proof (rule inj_onI)
    fix b c assume "b \<in> dom (sq_values sq)" "c \<in> dom (sq_values sq)" and eq: "?f b = ?f c"
    then have "sq_sequences sq (fst (hd (P b))) = Some b" "sq_sequences sq (fst (hd (P c))) = Some c"
      using hd assms by (auto simp: cache_rel_def)
    moreover have "fst (hd (P b)) = fst (hd (P c))" using eq by (simp only: word_unat_eq_iff)
    ultimately show "b = c" by (metis option.inject)
  qed
  moreover have "?f ` dom (sq_values sq) \<subseteq> {..<bound}" using hd assms by (auto simp: cache_rel_def)
  ultimately show le: "card (dom (sq_values sq)) \<le> bound" using card_inj_on_le[of ?f "dom (sq_values sq)" "{..<bound}"] by simp
  have "bound < 2 ^ 64" and sz: "sq_size sq = of_nat (card (dom (sq_values sq)))" using assms by (simp_all add: cache_rel_def)
  then show "unat (sq_size sq) = card (dom (sq_values sq))" using le by (simp only: sz) (rule unat_of_nat_small, simp)
qed

lemma cache_new: "bound < 2 ^ 64 \<Longrightarrow> cache_rel newInMemorySequenceCache bound (\<lambda>_. [])"
  by (simp add: cache_rel_def newInMemorySequenceCache_def slot_rel_def)

lemma cache_Get:
  assumes "cache_rel sq bound P"
  shows "sq_Get b sq = (if P b = [] then None else Some (snd (last (P b))))"
  using cache_values[OF assms, of b] hist_Latest(1) by (cases "sq_values sq b") (auto simp: sq_Get_def)

lemma cache_Empty: "cache_rel sq bound P \<Longrightarrow> sq_Empty sq \<longleftrightarrow> (\<forall>b. P b = [])"
proof -
  assume r: "cache_rel sq bound P"
  have "sq_Empty sq \<longleftrightarrow> unat (sq_size sq) = 0" by (simp add: sq_Empty_def unsigned_eq_0_iff)
  also have "\<dots> \<longleftrightarrow> (\<forall>b. sq_values sq b = None)" using r cache_card(2)[OF r] by (auto simp: cache_rel_def)
  also have "\<dots> \<longleftrightarrow> (\<forall>b. P b = [])" using cache_values(1)[OF r] by simp
  finally show ?thesis .
qed

lemma cache_Add:
  assumes r: "cache_rel sq bound P" and s: "bound \<le> unat s" "s \<noteq> MaxUint64"
  shows "\<exists>sq'. sq_Add s b d sq = (None, sq') \<and> cache_rel sq' (Suc (unat s)) (P(b := P b @ [(s, d)]))"
proof -
  have below: "unat (fst v) < bound" "sq_sequences sq (fst v) = Some c" if "v \<in> set (P c)" for v c using r that by (auto simp: cache_rel_def)
  have s64: "Suc (unat s) < 2 ^ 64" using s(2) unsigned_less[of s, where 'a = nat] by (auto simp: MaxUint64_iff)
  have "\<exists>dh' sz base. sq_Add s b d sq = (None, \<lparr>sq_sequences = (sq_sequences sq)(s \<mapsto> b), sq_values = (sq_values sq)(b \<mapsto> dh'), sq_size = sz\<rparr>) \<and>
      hist_rel dh' base (P b @ [(s, d)]) \<and> sz = of_nat (card (insert b (dom (sq_values sq))))"
  proof (cases "sq_values sq b")
    case None
    then have "P b = []" using cache_values(1)[OF r] by simp
    moreover from hist_new[OF s(2), of d] obtain dh' where "dh_Add s d newDataHistory = Some dh'" "hist_rel dh' 0 [(s, d)]" by blast
    moreover have "sq_size sq + 1 = of_nat (card (insert b (dom (sq_values sq))))"
      using r None by (simp add: cache_rel_def card_insert_if domIff)
    ultimately show ?thesis using None by (auto simp: sq_Add_def intro!: exI[of _ dh'] exI[of _ 0])
  next
    case (Some dh)
    then obtain base where h: "hist_rel dh base (P b)" using cache_values(2)[OF r] by blast
    then have "last (P b) \<in> set (P b)" by (simp add: hist_rel_def)
    then have "unat (fst (last (P b))) < unat s" using below(1) s(1) by fastforce
    from hist_Add[OF h this s(2), of d] obtain dh' where "dh_Add s d dh = Some dh'" "hist_rel dh' base (P b @ [(s, d)])" by blast
    moreover have "sq_size sq = of_nat (card (insert b (dom (sq_values sq))))" using r Some by (simp add: cache_rel_def insert_absorb domI)
    ultimately show ?thesis using Some by (auto simp: sq_Add_def intro!: exI[of _ dh'] exI[of _ base])
  qed
  then obtain dh' sz base where a: "sq_Add s b d sq = (None, \<lparr>sq_sequences = (sq_sequences sq)(s \<mapsto> b), sq_values = (sq_values sq)(b \<mapsto> dh'), sq_size = sz\<rparr>)"
    and h: "hist_rel dh' base (P b @ [(s, d)])" and sz: "sz = of_nat (card (insert b (dom (sq_values sq))))" by (elim exE conjE) (rule that)
  have "cache_rel \<lparr>sq_sequences = (sq_sequences sq)(s \<mapsto> b), sq_values = (sq_values sq)(b \<mapsto> dh'), sq_size = sz\<rparr> (Suc (unat s)) (P(b := P b @ [(s, d)]))"
    unfolding cache_rel_def
  proof (intro conjI, goal_cases)
    case 1
    have "slot_rel (Some dh') (P b @ [(s, d)])" using h by (auto simp: slot_rel_def)
    then show ?case using r by (simp add: cache_rel_def)
  next
    case 2
    have "fst v \<noteq> s" if "v \<in> set (P c)" for v c using below(1)[OF that] s(1) by auto
    moreover have "unat (fst v) < Suc (unat s)" if "v \<in> set (P c)" for v c using below(1)[OF that] s(1) by simp
    ultimately show ?case using below(2) by auto
  next
    case 3 show ?case using r by (simp add: cache_rel_def)
  next
    case 4 show ?case by (simp add: sz)
  next
    case 5 show ?case by (rule s64)
  qed
  with a show ?thesis by blast
qed

lemma cache_unsequence:
  assumes "cache_rel sq bound P" and "\<forall>b. s \<notin> fst ` set (P b)"
  shows "cache_rel (sq\<lparr>sq_sequences := (sq_sequences sq)(s := None)\<rparr>) bound P"
proof -
  have "fst v \<noteq> s" if "v \<in> set (P b)" for v b using assms(2) that by force
  then show ?thesis using assms(1) by (simp add: cache_rel_def)
qed

lemma cache_update:
  assumes r: "cache_rel sq bound P" and h: "hist_rel dh base es" and b: "sq_values sq b \<noteq> None" and es: "set es \<subseteq> set (P b)"
  shows "cache_rel (sq\<lparr>sq_values := (sq_values sq)(b \<mapsto> dh)\<rparr>) bound (P(b := es))"
proof -
  have "insert b (dom (sq_values sq)) = dom (sq_values sq)" using b by auto
  moreover have "slot_rel (Some dh) es" using h by (auto simp: slot_rel_def)
  moreover have "\<forall>v \<in> set es. sq_sequences sq (fst v) = Some b \<and> unat (fst v) < bound" using r es unfolding cache_rel_def by blast
  ultimately show ?thesis using r by (simp add: cache_rel_def)
qed

lemma cache_remove:
  assumes r: "cache_rel sq bound P" and b: "sq_values sq b \<noteq> None"
  shows "cache_rel (sq\<lparr>sq_values := (sq_values sq)(b := None), sq_size := sq_size sq - 1\<rparr>) bound (P(b := []))"
proof -
  have f: "finite (dom (sq_values sq))" using r by (simp add: cache_rel_def)
  have "slot_rel None []" by (simp add: slot_rel_def)
  moreover have "b \<in> dom (sq_values sq)" using b by auto
  then have "card (dom (sq_values sq)) = Suc (card (dom (sq_values sq) - {b}))" by (rule card.remove[OF f])
  then have "sq_size sq - 1 = of_nat (card (dom (sq_values sq) - {b}))" using r by (simp add: cache_rel_def)
  ultimately show ?thesis using r f by (simp add: cache_rel_def)
qed

lemma cache_reset:
  assumes "cache_rel sq bound P" and "sq_size sq = 0"
  shows "cache_rel (sq\<lparr>sq_sequences := Map.empty\<rparr>) bound P"
proof -
  have "P b = []" for b using cache_Empty[OF assms(1)] assms(2) by (simp add: sq_Empty_def)
  then show ?thesis using assms(1) by (simp add: cache_rel_def)
qed

lemma evict_one_cases:
  assumes r: "cache_rel sq bound P"
  obtains (stale) sq' where "evict_one s (sq, el) = (sq', el)" and "cache_rel sq' bound P" and "\<forall>b. s \<notin> fst ` set (P b)"
    | (found) sq' b k where "evict_one s (sq, el) = (sq', el(b \<mapsto> snd (P b ! k)))" and "k < length (P b)" and "s = fst (P b ! k)"
        and "cache_rel sq' bound (P(b := drop (Suc k) (P b)))" and "\<forall>c. s \<notin> fst ` set ((P(b := drop (Suc k) (P b))) c)"
proof (cases "\<exists>b. s \<in> fst ` set (P b)")
  case False
  then have no: "\<forall>b. s \<notin> fst ` set (P b)" by blast
  note u = cache_unsequence[OF r no]
  show thesis
  proof (cases "sq_sequences sq s")
    case None
    then show thesis using stale[of sq] r no by (simp add: evict_one_def)
  next
    case (Some b)
    show thesis
    proof (cases "sq_values sq b")
      case None
      then show thesis using stale[OF _ u no] Some by (simp add: evict_one_def)
    next
      case (Some dh)
      then obtain base where "hist_rel dh base (P b)" using cache_values(2)[OF r] by blast
      from hist_Trim_stale[OF this] no obtain dh' where t: "dh_Trim s dh = (None, dh')" "hist_rel dh' base (P b)" by blast
      have "cache_rel (sq\<lparr>sq_sequences := (sq_sequences sq)(s := None), sq_values := (sq_values sq)(b \<mapsto> dh')\<rparr>) bound P"
        using cache_update[OF u t(2), of b] Some by simp
      then show thesis using stale[OF _ _ no] \<open>sq_sequences sq s = Some b\<close> Some t(1) by (simp add: evict_one_def)
    qed
  qed
next
  case True
  then obtain b k where k: "k < length (P b)" "s = fst (P b ! k)" by (auto simp: in_set_conv_nth)
  then have sb: "sq_sequences sq s = Some b" using r by (auto simp: cache_rel_def)
  from k obtain dh where dh: "sq_values sq b = Some dh" using cache_values(1)[OF r, of b] by (cases "sq_values sq b") auto
  then obtain base where h: "hist_rel dh base (P b)" using cache_values(2)[OF r] by blast
  from hist_Trim_found[OF h k] obtain dh' where t: "dh_Trim s dh = (Some (snd (P b ! k)), dh')"
    "if Suc k < length (P b) then hist_rel dh' (base + Suc k) (drop (Suc k) (P b)) else dh_Empty dh'" by blast
  let ?P = "P(b := drop (Suc k) (P b))" and ?sq1 = "sq\<lparr>sq_sequences := (sq_sequences sq)(s := None)\<rparr>"
  have srt: "sorted_wrt (<) (map (unat \<circ> fst) (P b))" using h by (simp add: hist_rel_def)
  have no: "\<forall>c. s \<notin> fst ` set (?P c)"
  proof
    fix c
    have "s \<noteq> fst v" if "v \<in> set (drop (Suc k) (P b))" for v
    proof -
      from that obtain j where "j < length (drop (Suc k) (P b))" "v = drop (Suc k) (P b) ! j" by (auto simp: in_set_conv_nth simp del: nth_drop)
      then have v: "Suc k + j < length (P b)" "v = P b ! (Suc k + j)" by simp_all
      have "unat (fst (P b ! k)) < unat (fst (P b ! (Suc k + j)))" using srt v(1) by (simp add: sorted_wrt_iff_nth_less)
      then show ?thesis using v(2) k(2) by auto
    qed
    moreover have "s \<noteq> fst v" if "v \<in> set (P c)" "c \<noteq> b" for v using r that sb by (auto simp: cache_rel_def)
    ultimately show "s \<notin> fst ` set (?P c)" by (cases "c = b") auto
  qed
  show thesis
  proof (cases "Suc k < length (P b)")
    case True
    then have h': "hist_rel dh' (base + Suc k) (drop (Suc k) (P b))" using t(2) by simp
    have "cache_rel (sq\<lparr>sq_values := (sq_values sq)(b \<mapsto> dh')\<rparr>) bound ?P"
      using cache_update[OF r h'] dh set_drop_subset[of "Suc k" "P b"] by simp
    from cache_unsequence[of _ _ ?P, OF this no]
    have "cache_rel (sq\<lparr>sq_sequences := (sq_sequences sq)(s := None), sq_values := (sq_values sq)(b \<mapsto> dh')\<rparr>) bound ?P"
      by (cases sq) simp
    then show thesis using found[OF _ k _ no] sb dh t(1) hist_Latest(2)[OF h'] by (simp add: evict_one_def)
  next
    case False
    then have e: "dh_Empty dh'" and P: "?P = P(b := [])" using t(2) by simp_all
    let ?sq2 = "?sq1\<lparr>sq_values := (sq_values sq)(b := None), sq_size := sq_size sq - 1\<rparr>"
    have "cache_rel (sq\<lparr>sq_values := (sq_values sq)(b := None), sq_size := sq_size sq - 1\<rparr>) bound ?P"
      using cache_remove[OF r] dh unfolding P by simp
    from cache_unsequence[of _ _ ?P, OF this no] have c: "cache_rel ?sq2 bound ?P" by (cases sq) simp
    have "evict_one s (sq, el) = (if sq_size ?sq2 = 0 then ?sq2\<lparr>sq_sequences := Map.empty\<rparr> else ?sq2, el(b \<mapsto> snd (P b ! k)))"
      using sb dh t(1) e by (simp add: evict_one_def Let_def)
    moreover have "cache_rel (if sq_size ?sq2 = 0 then ?sq2\<lparr>sq_sequences := Map.empty\<rparr> else ?sq2) bound ?P"
      using c cache_reset[OF c] by simp
    ultimately show thesis using found[OF _ k _ no] by blast
  qed
qed

text \<open>
  What an eviction takes: for some blocks the oldest pending versions, of which the last is the element returned for the block.
\<close>

definition taken :: "version list \<Rightarrow> bytes option option \<Rightarrow> version list \<Rightarrow> bool" where
  "taken es e es' \<longleftrightarrow>
     (case e of None \<Rightarrow> es' = es | Some d \<Rightarrow> \<exists>pre. es = pre @ es' \<and> pre \<noteq> [] \<and> snd (last pre) = d)"

definition evicted :: "pending \<Rightarrow> (int \<rightharpoonup> bytes option) \<Rightarrow> pending \<Rightarrow> bool" where
  "evicted P el P' \<longleftrightarrow> (\<forall>b. taken (P b) (el b) (P' b))"

lemma taken_more:
  assumes "taken es0 e es" and "k < length es"
  shows "taken es0 (Some (snd (es ! k))) (drop (Suc k) es)"
proof -
  from assms(1) obtain pre where "es0 = pre @ es" unfolding taken_def by (cases e) auto
  then have "es0 = (pre @ take (Suc k) es) @ drop (Suc k) es" by simp
  moreover have "last (pre @ take (Suc k) es) = es ! k" using assms(2) by (simp add: take_Suc_conv_app_nth)
  ultimately show ?thesis using assms(2) by (auto simp: taken_def intro!: exI[of _ "pre @ take (Suc k) es"])
qed

lemma disjoint_insert: "A \<subseteq> B \<Longrightarrow> B \<inter> S = {} \<Longrightarrow> s \<notin> A \<Longrightarrow> A \<inter> insert s S = {}"
  by blast

theorem cache_Evict:
  assumes "cache_rel sq bound P"
  shows "\<exists>el sq' P'. sq_Evict ss sq = (el, sq') \<and> cache_rel sq' bound P' \<and> evicted P el P' \<and>
    (\<forall>b. fst ` set (P' b) \<inter> set ss = {})"
proof -
  have "\<exists>el sq' P'. fold evict_one ss (sq, el0) = (sq', el) \<and> cache_rel sq' bound P' \<and> evicted P0 el P' \<and> (\<forall>b. fst ` set (P' b) \<inter> (set ss \<union> S) = {})"
    if "cache_rel sq bound P" and "evicted P0 el0 P" and "\<forall>b. fst ` set (P b) \<inter> S = {}" for P0 el0 S sq P
    using that
  proof (induction ss arbitrary: sq el0 P S)
    case Nil
    then show ?case by auto
  next
    case (Cons s ss)
    from Cons.prems(1) show ?case
    proof (cases rule: evict_one_cases[of _ _ _ s el0])
      case (stale sq')
      from stale(3) Cons.prems(3) have "\<forall>b. fst ` set (P b) \<inter> insert s S = {}" by blast
      from Cons.IH[OF stale(2) Cons.prems(2) this] stale(1) show ?thesis by simp
    next
      case (found sq' b k)
      let ?P = "P(b := drop (Suc k) (P b))" and ?el = "el0(b \<mapsto> snd (P b ! k))"
      have ev: "evicted P0 ?el ?P"
        using Cons.prems(2) taken_more[of "P0 b" "el0 b" "P b" k] found(2) by (simp add: evicted_def)
      have "fst ` set (?P c) \<subseteq> fst ` set (P c)" for c by (cases "c = b") (auto dest: in_set_dropD)
      then have "fst ` set (?P c) \<inter> insert s S = {}" for c
        by (rule disjoint_insert) (use Cons.prems(3) found(5) in simp_all)
      then have "\<forall>c. fst ` set (?P c) \<inter> insert s S = {}" by (rule allI)
      note ih = Cons.IH[OF found(4), of ?el "insert s S", OF ev this]
      have "fold evict_one (s # ss) (sq, el0) = fold evict_one ss (sq', ?el)" by (simp only: fold_simps found(1))
      with ih show ?thesis by (simp only: list.set Un_insert_left Un_insert_right)
    qed
  qed
  from this[OF assms, of P Map.empty "{}"] show ?thesis by (auto simp: sq_Evict_def evicted_def taken_def)
qed

end
