(* ===== verification/Tlog_Storage.thy ===== *)
theory Tlog_Storage
  imports Seq_Cache Histories Vdisk_Clone
begin

text \<open>
  The tlog storage (\<open>nbd/nbdserver/tlog/tlog.go\<close>): a block storage around another one that sends every write to the tlog
  server and keeps it in a sequence cache until the server has stored it. The channels are lists; the goroutines that
  send transactions, receive responses and flush the cache are functions of their own, which may run between any two operations.
  \<open>enum\<close> lists a Go map in the order it is ranged over.
\<close>

section \<open>State\<close>

definition OpSet :: "8 word" where "OpSet = 1"
definition OpDelete :: "8 word" where "OpDelete = 2"

record transaction =
  t_Operation :: "8 word"
  t_Sequence :: uint64
  t_Content :: bytes
  t_Index :: int
  t_Timestamp :: int

record writeOp =
  wo_sequence :: uint64
  wo_blockIndex :: int
  wo_content :: bytes

record tlogStorage =
  tls_metadata :: TlogMetadata
  tls_cache :: inMemorySequenceCache
  tls_sequence :: uint64
  tls_transactionCh :: "transaction list"
  tls_toFlushCh :: "uint64 list list"
  tls_tlogReady :: bool
  tls_tlogNotReadyBuff :: "writeOp list"

type_synonym element_enum = "(int \<rightharpoonup> bytes option) \<Rightarrow> (int \<times> bytes option) list"

section \<open>Operations\<close>

definition getNextSequenceIndex :: "tlogStorage \<Rightarrow> uint64 \<times> tlogStorage" where
  "getNextSequenceIndex tls = (tls_sequence tls, tls\<lparr>tls_sequence := tls_sequence tls + 1\<rparr>)"

definition getLatestSequence :: "tlogStorage \<Rightarrow> uint64" where
  "getLatestSequence tls = tls_sequence tls - 1"

definition isZeroContent :: "bytes \<Rightarrow> bool" where
  "isZeroContent content \<longleftrightarrow> (\<forall>c \<in> set content. c = 0)"

definition tls_set :: "int \<Rightarrow> int \<Rightarrow> bytes option \<Rightarrow> tlogStorage \<Rightarrow> error option \<times> tlogStorage" where
  "tls_set now blockIndex content tls =
     (let (op, content1) = (case content of
                              None \<Rightarrow> (OpDelete, None)
                            | Some c \<Rightarrow> if isZeroContent c then (OpDelete, None) else (OpSet, Some c));
          (sequence, tls1) = getNextSequenceIndex tls
      in case sq_Add sequence blockIndex content1 (tls_cache tls1) of
           (Some err, cache1) \<Rightarrow> (Some err, tls1\<lparr>tls_cache := cache1\<rparr>)
         | (None, cache1) \<Rightarrow>
             let tls2 = tls1\<lparr>tls_cache := cache1\<rparr>;
                 transactionContent = (case content1 of None \<Rightarrow> [] | Some c \<Rightarrow> c)
             in (None,
                 if tls_tlogReady tls2
                 then tls2\<lparr>tls_transactionCh := tls_transactionCh tls2 @
                        [\<lparr>t_Operation = op, t_Sequence = sequence, t_Content = transactionContent, t_Index = blockIndex, t_Timestamp = now\<rparr>]\<rparr>
                 else tls2\<lparr>tls_tlogNotReadyBuff := tls_tlogNotReadyBuff tls2 @
                        [\<lparr>wo_sequence = sequence, wo_blockIndex = blockIndex, wo_content = transactionContent\<rparr>]\<rparr>))"

definition tls_SetBlock :: "int \<Rightarrow> int \<Rightarrow> bytes \<Rightarrow> tlogStorage \<times> 's \<Rightarrow> error option \<times> tlogStorage \<times> 's" where
  "tls_SetBlock now blockIndex content st =
     (let (tls, s) = st; (e, tls1) = tls_set now blockIndex (Some content) tls in (e, tls1, s))"

definition tls_DeleteBlock :: "int \<Rightarrow> int \<Rightarrow> tlogStorage \<times> 's \<Rightarrow> error option \<times> tlogStorage \<times> 's" where
  "tls_DeleteBlock now blockIndex st =
     (let (tls, s) = st; (e, tls1) = tls_set now blockIndex None tls in (e, tls1, s))"

definition tls_get :: "'s BlockStorage \<Rightarrow> int \<Rightarrow> tlogStorage \<times> 's \<Rightarrow> bytes option result \<times> tlogStorage \<times> 's" where
  "tls_get bs blockIndex st =
     (let (tls, s) = st
      in case sq_Get blockIndex (tls_cache tls) of
           Some content \<Rightarrow> (Inr content, tls, s)
         | None \<Rightarrow> (let (r, s1) = GetBlock bs blockIndex s in (r, tls, s1)))"

definition tls_GetBlock :: "'s BlockStorage \<Rightarrow> int \<Rightarrow> tlogStorage \<times> 's \<Rightarrow> bytes option result \<times> tlogStorage \<times> 's" where
  "tls_GetBlock bs blockIndex st = tls_get bs blockIndex st"

subsection \<open>Flushing the cache\<close>

definition flushAContent :: "'s BlockStorage \<Rightarrow> int \<Rightarrow> bytes option \<Rightarrow> 's \<Rightarrow> error option \<times> 's" where
  "flushAContent bs blockIndex data s =
     (case data of None \<Rightarrow> DeleteBlock bs blockIndex s | Some d \<Rightarrow> SetBlock bs blockIndex d s)"

fun flush_elements :: "'s BlockStorage \<Rightarrow> (int \<times> bytes option) list \<Rightarrow> error list \<Rightarrow> 's \<Rightarrow> error list \<times> 's" where
  "flush_elements bs [] errs s = (errs, s)"
| "flush_elements bs ((blockIndex, data) # es) errs s =
     (let (e, s1) = flushAContent bs blockIndex data s in flush_elements bs es (ErrorSlice_Add errs e) s1)"

definition flushCachedContent :: "element_enum \<Rightarrow> 's BlockStorage \<Rightarrow> uint64 list \<Rightarrow> tlogStorage \<times> 's \<Rightarrow> error option \<times> tlogStorage \<times> 's" where
  "flushCachedContent enum bs sequences st =
     (let (tls, s) = st
      in if length sequences = 0 then (None, tls, s)
         else
           let (elements, cache1) = sq_Evict sequences (tls_cache tls);
               tls1 = tls\<lparr>tls_cache := cache1\<rparr>;
               (errs, s1) = flush_elements bs (enum elements) [] s
           in if length errs > 0 then (Some (ErrSlice errs), tls1, s1)
              else (None, tls1\<lparr>tls_metadata := (tls_metadata tls1)\<lparr>LastFlushedSequence := last sequences\<rparr>\<rparr>, s1))"

subsection \<open>Goroutines\<close>

text \<open>Responses of the tlog server; an error and an unknown status panic.\<close>

datatype tlog_status = RecvOK | FlushOK | ForceFlushReceived | WaitNbdSlaveSyncReceived | FlushFailed | RecvFailed | Disconnected | Ready | OtherStatus

datatype tlog_result = RecvError error | NilResponse | Response tlog_status "uint64 list"

definition tls_receive :: "tlog_result \<Rightarrow> tlogStorage \<Rightarrow> tlogStorage result" where
  "tls_receive res tls =
     (case res of
        RecvError e \<Rightarrow> Inl (Panic ''tlog server resulted in error'')
      | NilResponse \<Rightarrow> Inr tls
      | Response st sequences \<Rightarrow>
          (case st of
             FlushOK \<Rightarrow> Inr (tls\<lparr>tls_toFlushCh := tls_toFlushCh tls @ [sequences]\<rparr>)
           | RecvFailed \<Rightarrow> Inl (Panic ''tlog server had fatal failure'')
           | OtherStatus \<Rightarrow> Inl (Panic ''tlog server had fatal failure'')
           | _ \<Rightarrow> Inr tls))"

definition tls_flusher :: "element_enum \<Rightarrow> 's BlockStorage \<Rightarrow> tlogStorage \<times> 's \<Rightarrow> (tlogStorage \<times> 's) result" where
  "tls_flusher enum bs st =
     (let (tls, s) = st
      in case tls_toFlushCh tls of
           [] \<Rightarrow> Inr st
         | seqs # rest \<Rightarrow>
             (case flushCachedContent enum bs seqs (tls\<lparr>tls_toFlushCh := rest\<rparr>, s) of
                (Some err, st1) \<Rightarrow> Inl (Panic ''failed to write cached content into storage'')
              | (None, st1) \<Rightarrow> Inr st1))"

text \<open>The sender takes the oldest transaction; \<open>send\<close> is the tlog client, which may have been closed.\<close>

datatype send_result = SendOK | SendClientClosed | SendFailed

datatype sender_step = SenderIdle | Sent transaction | SenderStopped

definition transactionSender :: "(transaction \<Rightarrow> send_result) \<Rightarrow> tlogStorage \<Rightarrow> (sender_step \<times> tlogStorage) result" where
  "transactionSender send tls =
     (case tls_transactionCh tls of
        [] \<Rightarrow> Inr (SenderIdle, tls)
      | t # rest \<Rightarrow>
          let tls1 = tls\<lparr>tls_transactionCh := rest\<rparr>
          in case send t of
               SendOK \<Rightarrow> Inr (Sent t, tls1)
             | SendClientClosed \<Rightarrow> Inr (SenderStopped, tls1)
             | SendFailed \<Rightarrow> Inl (Panic ''tlogStorage could not send block''))"

fun resume_ops :: "int \<Rightarrow> writeOp list \<Rightarrow> tlogStorage \<Rightarrow> tlogStorage" where
  "resume_ops now [] tls = tls"
| "resume_ops now (op # ops) tls = resume_ops now ops (snd (tls_set now (wo_blockIndex op) (Some (wo_content op)) tls))"

definition waitTlogServerReady :: "int \<Rightarrow> uint64 \<Rightarrow> tlogStorage \<Rightarrow> tlogStorage" where
  "waitTlogServerReady now lastFlushedSequence tls =
     (let tls1 = tls\<lparr>tls_tlogReady := True, tls_sequence := lastFlushedSequence + 1\<rparr>;
          buff = tls_tlogNotReadyBuff tls1;
          cache1 = fold (\<lambda>op cache. snd (sq_Evict [wo_sequence op] cache)) buff (tls_cache tls1)
      in (resume_ops now buff (tls1\<lparr>tls_cache := cache1\<rparr>))\<lparr>tls_tlogNotReadyBuff := []\<rparr>)"

subsection \<open>Flush\<close>

text \<open>
  \<open>Flush\<close> holds the lock of the storage while it waits for the cache to become empty: no client operation runs, but the goroutines
  do. What happens while it waits is a list of rounds, a response and a run of the flusher or a timeout, after which it asks
  the server again; \<open>None\<close> is a \<open>Flush\<close> that still waits. \<open>store_md\<close> stands for \<open>StoreTlogMetadata\<close>.
\<close>

datatype flush_round = Received tlog_result | FlusherRuns | RetryTimeout

definition FlushWaitRetryNum :: nat where "FlushWaitRetryNum = 4"

definition errFlushTimeout :: error where "errFlushTimeout = ErrOther ''flush timeout''"

fun flush_wait :: "element_enum \<Rightarrow> 's BlockStorage \<Rightarrow> flush_round list \<Rightarrow> nat \<Rightarrow> tlogStorage \<times> 's \<Rightarrow> (error option \<times> tlogStorage \<times> 's) option" where
  "flush_wait enum bs rounds forceFlushNum (tls, s) =
     (if sq_Empty (tls_cache tls) then Some (None, tls, s)
      else case rounds of
             [] \<Rightarrow> None
           | Received res # rounds' \<Rightarrow>
               (case tls_receive res tls of
                  Inl panic \<Rightarrow> Some (Some panic, tls, s)
                | Inr tls1 \<Rightarrow> flush_wait enum bs rounds' forceFlushNum (tls1, s))
           | FlusherRuns # rounds' \<Rightarrow>
               (case tls_flusher enum bs (tls, s) of
                  Inl panic \<Rightarrow> Some (Some panic, tls, s)
                | Inr st1 \<Rightarrow> flush_wait enum bs rounds' forceFlushNum st1)
           | RetryTimeout # rounds' \<Rightarrow>
               if Suc forceFlushNum \<ge> FlushWaitRetryNum then Some (Some errFlushTimeout, tls, s)
               else flush_wait enum bs rounds' (Suc forceFlushNum) (tls, s))"

text \<open>While the tlog server is not ready \<open>Flush\<close> waits for it, for a limited time: \<open>ready\<close> says whether it becomes ready, when and with which last sequence.\<close>

definition tls_Flush :: "element_enum \<Rightarrow> 's BlockStorage \<Rightarrow> (TlogMetadata \<Rightarrow> 's \<Rightarrow> error option \<times> 's) \<Rightarrow> (int \<times> uint64) option \<Rightarrow>
    flush_round list \<Rightarrow> tlogStorage \<times> 's \<Rightarrow> (error option \<times> tlogStorage \<times> 's) option" where
  "tls_Flush enum bs store_md ready rounds st =
     (let (tls0, s0) = st;
          waited = (if tls_tlogReady tls0 then Some tls0
                    else map_option (\<lambda>(now, lastSeq). waitTlogServerReady now lastSeq tls0) ready)
      in case waited of
           None \<Rightarrow> Some (Some errFlushTimeout, tls0, s0)
         | Some tls1 \<Rightarrow>
             map_option (\<lambda>(e, tls, s).
               case e of
                 Some err \<Rightarrow> (Some err, tls, s)
               | None \<Rightarrow>
                   (case Flush bs s of
                      (Some err, s1) \<Rightarrow> (Some err, tls, s1)
                    | (None, s1) \<Rightarrow> (let (e1, s2) = store_md (tls_metadata tls) s1 in (e1, tls, s2))))
               (flush_wait enum bs rounds 0 (tls1, s0)))"

definition tls_Close :: "'s BlockStorage \<Rightarrow> error option \<Rightarrow> tlogStorage \<times> 's \<Rightarrow> error option \<times> tlogStorage \<times> 's" where
  "tls_Close bs client_Close st = (let (tls, s) = st; (e, s1) = Close bs s in (client_Close, tls, s1))"

text \<open>
  The constructor \<open>Storage\<close>, with what it reads: the metadata of the cluster, the last sequence the tlog server has flushed and
  whether it is ready; \<open>replay\<close> is the tlog player, which brings the storage up to date from a sequence on.
\<close>

definition tlog_Storage :: "TlogMetadata result \<Rightarrow> uint64 \<Rightarrow> bool \<Rightarrow> (uint64 \<Rightarrow> 's \<Rightarrow> uint64 result \<times> 's) \<Rightarrow> 's \<Rightarrow> tlogStorage result \<times> 's" where
  "tlog_Storage load clientLast clientReady replay s =
     (case load of
        Inl err \<Rightarrow> (Inl err, s)
      | Inr metadata \<Rightarrow>
          let new = (\<lambda>md. \<lparr>tls_metadata = md, tls_cache = newInMemorySequenceCache, tls_sequence = clientLast + 1,
                            tls_transactionCh = [], tls_toFlushCh = [], tls_tlogReady = clientReady, tls_tlogNotReadyBuff = []\<rparr>)
          in if LastFlushedSequence metadata < clientLast
             then (case replay (LastFlushedSequence metadata + 1) s of
                     (Inl err, s1) \<Rightarrow> (Inl err, s1)
                   | (Inr lastSeq, s1) \<Rightarrow>
                       if lastSeq \<noteq> clientLast then (Inl (ErrOther ''syncer failed to sync with tlog''), s1)
                       else (Inr (new (metadata\<lparr>LastFlushedSequence := lastSeq\<rparr>)), s1))
             else (Inr (new metadata), s))"

section \<open>The storage with its cache is a block storage\<close>

lemma isZeroContent_all_zero: "isZeroContent c \<longleftrightarrow> all_zero c"
  by (induction c) (auto simp: isZeroContent_def all_zero_iff)

text \<open>What a transaction does to the contents of a vdisk.\<close>

definition apply_transaction :: "transaction \<Rightarrow> (int \<Rightarrow> bytes option) \<Rightarrow> int \<Rightarrow> bytes option" where
  "apply_transaction t m = m(t_Index t := if t_Operation t = OpSet then Some (t_Content t) else None)"

definition version_ok :: "int \<Rightarrow> (bytes \<Rightarrow> bool) \<Rightarrow> int \<Rightarrow> bytes option \<Rightarrow> bool" where
  "version_ok blockSize valid b d \<longleftrightarrow> 0 \<le> b \<and> (\<forall>c. d = Some c \<longrightarrow> int (length c) = blockSize \<and> valid c \<and> \<not> all_zero c)"

text \<open>The transactions a storage sends.\<close>

definition transaction_ok :: "int \<Rightarrow> (bytes \<Rightarrow> bool) \<Rightarrow> transaction \<Rightarrow> bool" where
  "transaction_ok blockSize valid t \<longleftrightarrow> 0 \<le> t_Index t \<and>
     (t_Operation t = OpSet \<and> int (length (t_Content t)) = blockSize \<and> valid (t_Content t) \<and> \<not> all_zero (t_Content t) \<or> t_Operation t = OpDelete)"

definition tls_ok :: "int \<Rightarrow> (bytes \<Rightarrow> bool) \<Rightarrow> tlogStorage \<Rightarrow> bool" where
  "tls_ok blockSize valid tls \<longleftrightarrow>
     (\<exists>P. cache_rel (tls_cache tls) (unat (tls_sequence tls)) P \<and> (\<forall>b. \<forall>v \<in> set (P b). version_ok blockSize valid b (snd v)))"

text \<open>The contents a client sees: those pending in the cache before those of the storage.\<close>

definition tls_content :: "('s \<Rightarrow> int \<Rightarrow> bytes option) \<Rightarrow> tlogStorage \<times> 's \<Rightarrow> int \<Rightarrow> bytes option" where
  "tls_content content st b = (case sq_Get b (tls_cache (fst st)) of Some d \<Rightarrow> d | None \<Rightarrow> content (snd st) b)"

lemma tls_content_cong:
  "tls_cache a = tls_cache b \<Longrightarrow> content s = content s' \<Longrightarrow> tls_content content (a, s) = tls_content content (b, s')"
  by (intro ext) (auto simp: tls_content_def split: option.splits)

lemma tls_ok_cong:
  "tls_cache a = tls_cache b \<Longrightarrow> tls_sequence a = tls_sequence b \<Longrightarrow> tls_ok blockSize valid a \<longleftrightarrow> tls_ok blockSize valid b"
  by (simp add: tls_ok_def)

definition norm :: "bytes option \<Rightarrow> bytes option" where
  "norm d = (case d of None \<Rightarrow> None | Some c \<Rightarrow> stored c)"

lemma tls_set_eq:
  "tls_set now i d tls =
     (let (e, cache1) = sq_Add (tls_sequence tls) i (norm d) (tls_cache tls);
          tls1 = tls\<lparr>tls_sequence := tls_sequence tls + 1, tls_cache := cache1\<rparr>;
          c = (case norm d of None \<Rightarrow> [] | Some c \<Rightarrow> c)
      in (e, if e \<noteq> None then tls1
             else if tls_tlogReady tls
             then tls1\<lparr>tls_transactionCh := tls_transactionCh tls @
                    [\<lparr>t_Operation = if norm d = None then OpDelete else OpSet, t_Sequence = tls_sequence tls, t_Content = c, t_Index = i, t_Timestamp = now\<rparr>]\<rparr>
             else tls1\<lparr>tls_tlogNotReadyBuff := tls_tlogNotReadyBuff tls @ [\<lparr>wo_sequence = tls_sequence tls, wo_blockIndex = i, wo_content = c\<rparr>]\<rparr>))"
  by (auto simp: tls_set_def getNextSequenceIndex_def norm_def stored_def isZeroContent_all_zero Let_def split: option.splits prod.splits if_splits)

section \<open>Histories\<close>

text \<open>
  What happens to a tlog storage that is ready: operations of the client, responses of the server, runs of the flusher and of the sender,
  in any order. A step returns the replies to the client and the transactions sent. A \<open>Flush\<close> is stated on its own.
\<close>

datatype tls_client = TSet int bytes | TGet int | TDelete int

datatype tls_event = TlsClient tls_client | TlsReceive tlog_result | TlsFlusher | TlsSender

fun client_op :: "tls_client \<Rightarrow> block_op" where
  "client_op (TSet i c) = SetOp i c"
| "client_op (TGet i) = GetOp i"
| "client_op (TDelete i) = DeleteOp i"

fun tls_step :: "element_enum \<Rightarrow> 's BlockStorage \<Rightarrow> (transaction \<Rightarrow> send_result) \<Rightarrow> int \<Rightarrow> tls_event \<Rightarrow> tlogStorage \<times> 's \<Rightarrow>
    (block_reply list \<times> transaction list \<times> tlogStorage \<times> 's) result" where
  "tls_step enum bs send now (TlsClient (TSet i c)) st = (let (e, st1) = tls_SetBlock now i c st in Inr ([Status e], [], st1))"
| "tls_step enum bs send now (TlsClient (TGet i)) st = (let (r, st1) = tls_GetBlock bs i st in Inr ([Content r], [], st1))"
| "tls_step enum bs send now (TlsClient (TDelete i)) st = (let (e, st1) = tls_DeleteBlock now i st in Inr ([Status e], [], st1))"
| "tls_step enum bs send now (TlsReceive res) st = (let (tls, s) = st in map_sum id (\<lambda>tls1. ([], [], tls1, s)) (tls_receive res tls))"
| "tls_step enum bs send now TlsFlusher st = map_sum id (\<lambda>st1. ([], [], st1)) (tls_flusher enum bs st)"
| "tls_step enum bs send now TlsSender st =
     (let (tls, s) = st
      in map_sum id (\<lambda>(r, tls1). ([], case r of Sent t \<Rightarrow> [t] | _ \<Rightarrow> [], tls1, s)) (transactionSender send tls))"

fun tls_run :: "element_enum \<Rightarrow> 's BlockStorage \<Rightarrow> (transaction \<Rightarrow> send_result) \<Rightarrow> int \<Rightarrow> tls_event list \<Rightarrow> tlogStorage \<times> 's \<Rightarrow>
    (block_reply list \<times> transaction list \<times> tlogStorage \<times> 's) result" where
  "tls_run enum bs send now [] st = Inr ([], [], st)"
| "tls_run enum bs send now (ev # evs) st =
     (case tls_step enum bs send now ev st of
        Inl e \<Rightarrow> Inl e
      | Inr (rs1, ts1, st1) \<Rightarrow>
          (case tls_run enum bs send (now + 1) evs st1 of
             Inl e \<Rightarrow> Inl e
           | Inr (rs2, ts2, st2) \<Rightarrow> Inr (rs1 @ rs2, ts1 @ ts2, st2)))"

fun client_ops_of :: "tls_event list \<Rightarrow> block_op list" where
  "client_ops_of [] = []"
| "client_ops_of (TlsClient c # evs) = client_op c # client_ops_of evs"
| "client_ops_of (ev # evs) = client_ops_of evs"

fun is_write :: "tls_event \<Rightarrow> bool" where
  "is_write (TlsClient (TSet i c)) \<longleftrightarrow> True"
| "is_write (TlsClient (TDelete i)) \<longleftrightarrow> True"
| "is_write ev \<longleftrightarrow> False"

text \<open>The server reports no errors and no unknown states.\<close>

fun event_ok :: "int \<Rightarrow> (bytes \<Rightarrow> bool) \<Rightarrow> tls_event \<Rightarrow> bool" where
  "event_ok blockSize valid (TlsClient c) \<longleftrightarrow> op_ok blockSize valid (client_op c)"
| "event_ok blockSize valid (TlsReceive (RecvError e)) \<longleftrightarrow> False"
| "event_ok blockSize valid (TlsReceive (Response st seqs)) \<longleftrightarrow> st \<noteq> RecvFailed \<and> st \<noteq> OtherStatus"
| "event_ok blockSize valid ev \<longleftrightarrow> True"

definition sequences_from :: "uint64 \<Rightarrow> nat \<Rightarrow> uint64 list" where
  "sequences_from q n = map (\<lambda>k. q + of_nat k) [0..<n]"

lemma sequences_from_Suc: "sequences_from q (Suc n) = q # sequences_from (q + 1) n"
  by (simp add: sequences_from_def upt_conv_Cons map_Suc_upt[symmetric] del: upt_Suc)

locale tlog_storage = block_storage bs blockSize valid inv content
  for bs :: "'s BlockStorage" and blockSize valid inv content +
  fixes enum :: element_enum
  assumes enum: "finite (dom d) \<Longrightarrow> distinct (map fst (enum d)) \<and> map_of (enum d) = d"
begin

lemma tls_set_ok:
  assumes ok: "tls_ok blockSize valid tls" and seq: "tls_sequence tls \<noteq> MaxUint64" and c: "version_ok blockSize valid i (norm d)"
  shows "\<exists>cache'. tls_set now i d tls = (None, if tls_tlogReady tls
        then tls\<lparr>tls_sequence := tls_sequence tls + 1, tls_cache := cache', tls_transactionCh := tls_transactionCh tls @
               [\<lparr>t_Operation = if norm d = None then OpDelete else OpSet, t_Sequence = tls_sequence tls,
                 t_Content = case norm d of None \<Rightarrow> [] | Some c \<Rightarrow> c, t_Index = i, t_Timestamp = now\<rparr>]\<rparr>
        else tls\<lparr>tls_sequence := tls_sequence tls + 1, tls_cache := cache', tls_tlogNotReadyBuff := tls_tlogNotReadyBuff tls @
               [\<lparr>wo_sequence = tls_sequence tls, wo_blockIndex = i, wo_content = case norm d of None \<Rightarrow> [] | Some c \<Rightarrow> c\<rparr>]\<rparr>) \<and>
    tls_ok blockSize valid (tls\<lparr>tls_sequence := tls_sequence tls + 1, tls_cache := cache'\<rparr>) \<and>
    (\<forall>b. sq_Get b cache' = (if b = i then Some (norm d) else sq_Get b (tls_cache tls)))"
proof -
  from ok obtain P where P: "cache_rel (tls_cache tls) (unat (tls_sequence tls)) P"
    and v: "\<forall>b. \<forall>v \<in> set (P b). version_ok blockSize valid b (snd v)" by (auto simp: tls_ok_def)
  from cache_Add[OF P order_refl seq, of i "norm d"] obtain cache' where
    a: "sq_Add (tls_sequence tls) i (norm d) (tls_cache tls) = (None, cache')"
    and r: "cache_rel cache' (Suc (unat (tls_sequence tls))) (P(i := P i @ [(tls_sequence tls, norm d)]))" by blast
  have s1: "Suc (unat (tls_sequence tls)) = unat (tls_sequence tls + 1)"
    using seq unsigned_less[of "tls_sequence tls", where 'a = nat] unat_succ[of "tls_sequence tls"] by (auto simp: MaxUint64_iff)
  have "\<forall>b. \<forall>v \<in> set ((P(i := P i @ [(tls_sequence tls, norm d)])) b). version_ok blockSize valid b (snd v)" using v c by auto
  then have "tls_ok blockSize valid (tls\<lparr>tls_sequence := tls_sequence tls + 1, tls_cache := cache'\<rparr>)"
    using r s1 unfolding tls_ok_def by (intro exI[of _ "P(i := P i @ [(tls_sequence tls, norm d)])"]) simp
  moreover have "\<forall>b. sq_Get b cache' = (if b = i then Some (norm d) else sq_Get b (tls_cache tls))"
    by (simp add: cache_Get[OF P] cache_Get[OF r])
  ultimately show ?thesis using a by (intro exI[of _ cache']) (simp add: tls_set_eq Let_def)
qed

lemma flush_elements_ok:
  assumes "inv s" and "\<forall>(b, d) \<in> set es. version_ok blockSize valid b d" and "distinct (map fst es)"
  shows "\<exists>s'. flush_elements bs es [] s = ([], s') \<and> inv s' \<and>
    content s' = (\<lambda>b. case map_of es b of None \<Rightarrow> content s b | Some d \<Rightarrow> d)"
  using assms
proof (induction es arbitrary: s)
  case (Cons e es)
  obtain b d where e: "e = (b, d)" by fastforce
  have v: "version_ok blockSize valid b d" using Cons.prems(2) e by simp
  have "\<exists>s1. flushAContent bs b d s = (None, s1) \<and> inv s1 \<and> content s1 = (content s)(b := d)"
  proof (cases d)
    case None
    then show ?thesis using delete_block[OF Cons.prems(1), of b] v by (simp add: flushAContent_def version_ok_def)
  next
    case (Some a)
    then show ?thesis using set_block[OF Cons.prems(1), of b a] v by (simp add: flushAContent_def version_ok_def stored_def)
  qed
  then obtain s1 where s1: "flushAContent bs b d s = (None, s1)" "inv s1" "content s1 = (content s)(b := d)" by blast
  from Cons.IH[OF s1(2)] Cons.prems obtain s' where "flush_elements bs es [] s1 = ([], s')" "inv s'"
    "content s' = (\<lambda>b. case map_of es b of None \<Rightarrow> content s1 b | Some d \<Rightarrow> d)" by auto
  moreover have "b \<notin> fst ` set es" using Cons.prems(3) by (simp add: e)
  then have "map_of es b = None" by (simp add: map_of_eq_None_iff)
  ultimately show ?case using s1 by (auto simp: e ErrorSlice_Add_def split: option.splits)
qed auto

text \<open>Flushing evicts versions from the cache and writes the last of each block; what a client sees does not change.\<close>

theorem flushCachedContent_ok:
  assumes "inv s" and "tls_ok blockSize valid tls"
  shows "\<exists>cache' s'. flushCachedContent enum bs sequences (tls, s) =
      (None, tls\<lparr>tls_cache := cache', tls_metadata := if sequences = [] then tls_metadata tls else (tls_metadata tls)\<lparr>LastFlushedSequence := last sequences\<rparr>\<rparr>, s') \<and>
    inv s' \<and> tls_ok blockSize valid (tls\<lparr>tls_cache := cache'\<rparr>) \<and>
    tls_content content (tls\<lparr>tls_cache := cache'\<rparr>, s') = tls_content content (tls, s)"
proof (cases "sequences = []")
  case True
  then show ?thesis using assms by (intro exI[of _ "tls_cache tls"] exI[of _ s]) (simp add: flushCachedContent_def)
next
  case False
  from assms(2) obtain P where P: "cache_rel (tls_cache tls) (unat (tls_sequence tls)) P"
    and v: "\<forall>b. \<forall>v \<in> set (P b). version_ok blockSize valid b (snd v)" by (auto simp: tls_ok_def)
  from cache_Evict[OF P, of sequences] obtain el cache' P' where e: "sq_Evict sequences (tls_cache tls) = (el, cache')"
    and P': "cache_rel cache' (unat (tls_sequence tls)) P'" and ev: "evicted P el P'" by blast
  have t: "taken (P b) (el b) (P' b)" for b using ev by (simp add: evicted_def)
  have "P b \<noteq> []" if "el b \<noteq> None" for b using t[of b] that by (auto simp: taken_def)
  then have "dom el \<subseteq> dom (sq_values (tls_cache tls))" using cache_values(1)[OF P] by auto
  moreover have "finite (dom (sq_values (tls_cache tls)))" using P by (simp add: cache_rel_def)
  ultimately have fin: "finite (dom el)" by (rule finite_subset)
  have sub: "set (P' b) \<subseteq> set (P b)" for b using t[of b] by (auto simp: taken_def split: option.splits)
  have "version_ok blockSize valid b d" if "el b = Some d" for b d
  proof -
    from t[of b] that obtain pre where pre: "P b = pre @ P' b" "pre \<noteq> []" "snd (last pre) = d" by (auto simp: taken_def)
    then have "last pre \<in> set (P b)" by simp
    with v have "version_ok blockSize valid b (snd (last pre))" by blast
    then show ?thesis by (simp add: pre(3))
  qed
  then have "\<forall>(b, d) \<in> set (enum el). version_ok blockSize valid b d"
    using enum[OF fin] by (auto dest!: map_of_is_SomeI)
  from flush_elements_ok[OF assms(1) this] enum[OF fin] obtain s' where
    s': "flush_elements bs (enum el) [] s = ([], s')" "inv s'" "content s' = (\<lambda>b. case el b of None \<Rightarrow> content s b | Some d \<Rightarrow> d)" by auto
  have "tls_ok blockSize valid (tls\<lparr>tls_cache := cache'\<rparr>)" using P' v sub unfolding tls_ok_def by (intro exI[of _ P']) auto
  moreover have "tls_content content (tls\<lparr>tls_cache := cache'\<rparr>, s') b = tls_content content (tls, s) b" for b
    using t[of b] by (auto simp: tls_content_def cache_Get[OF P] cache_Get[OF P'] s'(3) taken_def split: option.splits)
  then have "tls_content content (tls\<lparr>tls_cache := cache'\<rparr>, s') = tls_content content (tls, s)" by (rule ext)
  ultimately show ?thesis using False e s' by (intro exI[of _ cache'] exI[of _ s']) (simp add: flushCachedContent_def)
qed

text \<open>Reading a block.\<close>

lemma tls_GetBlock_ok:
  assumes "inv s" and "0 \<le> i"
  shows "\<exists>s'. tls_GetBlock bs i (tls, s) = (Inr (tls_content content (tls, s) i), tls, s') \<and> inv s' \<and>
    tls_content content (tls, s') = tls_content content (tls, s)"
proof (cases "sq_Get i (tls_cache tls)")
  case None
  from get_block[OF assms] obtain s' where "GetBlock bs i s = (Inr (content s i), s')" "inv s'" "content s' = content s" by blast
  note s' = this
  have "tls_content content (tls, s') = tls_content content (tls, s)" by (rule tls_content_cong[OF refl s'(3)])
  moreover have "tls_content content (tls, s) i = content s i" using None by (simp add: tls_content_def)
  ultimately show ?thesis using s'(1,2) None by (intro exI[of _ s']) (simp add: tls_GetBlock_def tls_get_def)
next
  case (Some d)
  with assms show ?thesis by (simp add: tls_GetBlock_def tls_get_def tls_content_def)
qed

text \<open>A run of the flusher, and a wait of \<open>Flush\<close>: it keeps what a client sees, and ends with an empty cache, a panic or a timeout.\<close>

lemma tls_flusher_ok:
  assumes "inv s" and "tls_ok blockSize valid tls"
  shows "\<exists>tls' s'. tls_flusher enum bs (tls, s) = Inr (tls', s') \<and> inv s' \<and> tls_ok blockSize valid tls' \<and>
    tls_content content (tls', s') = tls_content content (tls, s) \<and> tls_sequence tls' = tls_sequence tls \<and>
    tls_tlogReady tls' = tls_tlogReady tls \<and> tls_transactionCh tls' = tls_transactionCh tls"
proof (cases "tls_toFlushCh tls")
  case Nil
  then show ?thesis using assms by (simp add: tls_flusher_def)
next
  case (Cons seqs rest)
  let ?tls = "tls\<lparr>tls_toFlushCh := rest\<rparr>"
  have "tls_ok blockSize valid ?tls" using assms(2) by (simp add: tls_ok_def)
  from flushCachedContent_ok[OF assms(1) this, of seqs] obtain cache' s' where
    f: "flushCachedContent enum bs seqs (?tls, s) =
      (None, ?tls\<lparr>tls_cache := cache', tls_metadata := if seqs = [] then tls_metadata ?tls else (tls_metadata ?tls)\<lparr>LastFlushedSequence := last seqs\<rparr>\<rparr>, s')"
    "inv s'" "tls_ok blockSize valid (?tls\<lparr>tls_cache := cache'\<rparr>)"
    "tls_content content (?tls\<lparr>tls_cache := cache'\<rparr>, s') = tls_content content (?tls, s)" by (elim exE conjE) (rule that)
  let ?tls' = "?tls\<lparr>tls_cache := cache', tls_metadata := if seqs = [] then tls_metadata ?tls else (tls_metadata ?tls)\<lparr>LastFlushedSequence := last seqs\<rparr>\<rparr>"
  have "tls_ok blockSize valid ?tls'" using f(3) by (simp add: tls_ok_def)
  moreover have "tls_content content (?tls', s') = tls_content content (tls, s)"
    using f(4) tls_content_cong[of ?tls' "?tls\<lparr>tls_cache := cache'\<rparr>" content s' s'] tls_content_cong[of ?tls tls content s s] by simp
  moreover have "tls_flusher enum bs (tls, s) = Inr (?tls', s')" using Cons f(1) by (simp add: tls_flusher_def)
  ultimately show ?thesis using f(2) by (intro exI[of _ ?tls'] exI[of _ s']) simp
qed

lemma tls_receive_ok:
  assumes "tls_ok blockSize valid tls" and "tls_receive res tls = Inr tls'"
  shows "tls_ok blockSize valid tls'" and "tls_content content (tls', s) = tls_content content (tls, s)"
    and "tls_sequence tls' = tls_sequence tls" and "tls_tlogReady tls' = tls_tlogReady tls" and "tls_transactionCh tls' = tls_transactionCh tls"
proof -
  have "tls' = tls \<or> (\<exists>seqs. tls' = tls\<lparr>tls_toFlushCh := seqs\<rparr>)"
    using assms(2) by (auto simp: tls_receive_def split: tlog_result.splits tlog_status.splits)
  then have k: "tls_cache tls' = tls_cache tls" "tls_sequence tls' = tls_sequence tls" "tls_tlogReady tls' = tls_tlogReady tls"
    "tls_transactionCh tls' = tls_transactionCh tls" by auto
  then show "tls_sequence tls' = tls_sequence tls" "tls_tlogReady tls' = tls_tlogReady tls" "tls_transactionCh tls' = tls_transactionCh tls" by simp_all
  show "tls_ok blockSize valid tls'" using assms(1) k by (simp add: tls_ok_def)
  show "tls_content content (tls', s) = tls_content content (tls, s)" using k by (intro tls_content_cong) simp_all
qed

lemma flush_wait_ok:
  assumes "inv s" and "tls_ok blockSize valid tls" and "flush_wait enum bs rounds n (tls, s) = Some (e, tls', s')"
  shows "inv s' \<and> tls_ok blockSize valid tls' \<and> tls_content content (tls', s') = tls_content content (tls, s) \<and>
    (e = None \<longrightarrow> sq_Empty (tls_cache tls'))"
  using assms
proof (induction rounds arbitrary: n tls s)
  case Nil
  then show ?case by (simp split: if_splits)
next
  case (Cons r rounds)
  show ?case
  proof (cases "sq_Empty (tls_cache tls)")
    case True
    then show ?thesis using Cons.prems by simp
  next
    case False
    show ?thesis
    proof (cases r)
      case (Received res)
      show ?thesis
      proof (cases "tls_receive res tls")
        case (Inl panic)
        then show ?thesis using Cons.prems False Received by auto
      next
        case (Inr tls1)
        then have "flush_wait enum bs rounds n (tls1, s) = Some (e, tls', s')" using Cons.prems(3) False Received by simp
        from Cons.IH[OF Cons.prems(1) tls_receive_ok(1)[OF Cons.prems(2) Inr] this] tls_receive_ok(2)[OF Cons.prems(2) Inr, of s] show ?thesis by simp
      qed
    next
      case FlusherRuns
      from tls_flusher_ok[OF Cons.prems(1,2)] obtain tls1 s1 where
        f: "tls_flusher enum bs (tls, s) = Inr (tls1, s1)" "inv s1" "tls_ok blockSize valid tls1" "tls_content content (tls1, s1) = tls_content content (tls, s)" by blast
      then have "flush_wait enum bs rounds n (tls1, s1) = Some (e, tls', s')" using Cons.prems(3) False FlusherRuns by simp
      from Cons.IH[OF f(2,3) this] f(4) show ?thesis by simp
    next
      case RetryTimeout
      show ?thesis
      proof (cases "Suc n \<ge> FlushWaitRetryNum")
        case True
        then show ?thesis using Cons.prems False RetryTimeout by auto
      next
        case nlt: False
        then have "flush_wait enum bs rounds (Suc n) (tls, s) = Some (e, tls', s')" using Cons.prems(3) False RetryTimeout by simp
        from Cons.IH[OF Cons.prems(1,2) this] show ?thesis .
      qed
    qed
  qed
qed

text \<open>After a successful \<open>Flush\<close> everything a client sees is in the storage below, and the metadata is stored.\<close>

theorem tls_Flush_ok:
  assumes "inv s" and "tls_ok blockSize valid tls" and "tls_tlogReady tls"
    and md: "\<And>m s. inv s \<Longrightarrow> \<exists>s'. store_md m s = (None, s') \<and> inv s' \<and> content s' = content s"
    and "tls_Flush enum bs store_md ready rounds (tls, s) = Some (None, tls', s')"
  shows "inv s' \<and> tls_ok blockSize valid tls' \<and> content s' = tls_content content (tls, s) \<and>
    tls_content content (tls', s') = tls_content content (tls, s) \<and> (\<exists>s1. store_md (tls_metadata tls') s1 = (None, s'))"
proof -
  from assms(3,5) obtain e s1 where w: "flush_wait enum bs rounds 0 (tls, s) = Some (e, tls', s1)"
    by (auto simp: tls_Flush_def split: option.splits prod.splits)
  have e: "e = None" using assms(3,5) w by (cases e) (auto simp: tls_Flush_def)
  from flush_wait_ok[OF assms(1,2) w] e have k: "inv s1" "tls_ok blockSize valid tls'" "tls_content content (tls', s1) = tls_content content (tls, s)"
    "sq_Empty (tls_cache tls')" by auto
  from flush[OF k(1)] obtain s2 where f: "Flush bs s1 = (None, s2)" "inv s2" "content s2 = content s1" by blast
  from md[OF f(2), of "tls_metadata tls'"] obtain s3 where m: "store_md (tls_metadata tls') s2 = (None, s3)" "inv s3" "content s3 = content s2" by blast
  have s': "s' = s3" using assms(3,5) w f(1) m(1) e by (simp add: tls_Flush_def)
  from k(2) obtain P where P: "cache_rel (tls_cache tls') (unat (tls_sequence tls')) P" by (auto simp: tls_ok_def)
  have "sq_Get b (tls_cache tls') = None" for b using cache_Get[OF P] cache_Empty[OF P] k(4) by simp
  then have all: "tls_content content (tls', x) = content x" for x by (simp add: tls_content_def fun_eq_iff)
  then show ?thesis using k m f s' by auto
qed

lemma tls_write_ok:
  assumes ok: "tls_ok blockSize valid tls" and rd: "tls_tlogReady tls" and seq: "tls_sequence tls \<noteq> MaxUint64"
    and c: "version_ok blockSize valid i (norm d)"
  shows "\<exists>tls' t. tls_set now i d tls = (None, tls') \<and> tls_ok blockSize valid tls' \<and> tls_tlogReady tls' \<and>
    tls_transactionCh tls' = tls_transactionCh tls @ [t] \<and> t_Sequence t = tls_sequence tls \<and> tls_sequence tls' = tls_sequence tls + 1 \<and>
    tls_content content (tls', s) = (tls_content content (tls, s))(i := norm d) \<and>
    apply_transaction t (tls_content content (tls, s)) = tls_content content (tls', s) \<and> transaction_ok blockSize valid t"
proof -
  let ?t = "\<lparr>t_Operation = if norm d = None then OpDelete else OpSet, t_Sequence = tls_sequence tls,
                 t_Content = case norm d of None \<Rightarrow> [] | Some c \<Rightarrow> c, t_Index = i, t_Timestamp = now\<rparr>"
  from tls_set_ok[OF ok seq c, of now] rd obtain cache' where
    e: "tls_set now i d tls = (None, tls\<lparr>tls_sequence := tls_sequence tls + 1, tls_cache := cache', tls_transactionCh := tls_transactionCh tls @ [?t]\<rparr>)"
    and ok': "tls_ok blockSize valid (tls\<lparr>tls_sequence := tls_sequence tls + 1, tls_cache := cache'\<rparr>)"
    and g: "\<forall>b. sq_Get b cache' = (if b = i then Some (norm d) else sq_Get b (tls_cache tls))" by auto
  let ?tls = "tls\<lparr>tls_sequence := tls_sequence tls + 1, tls_cache := cache', tls_transactionCh := tls_transactionCh tls @ [?t]\<rparr>"
  have "tls_ok blockSize valid ?tls" using ok' by (simp add: tls_ok_def)
  moreover have cc: "tls_content content (?tls, s) = (tls_content content (tls, s))(i := norm d)"
    using g by (intro ext) (simp add: tls_content_def split: option.splits)
  moreover have "apply_transaction ?t m = m(i := norm d)" for m
    by (cases "norm d") (simp_all add: apply_transaction_def OpSet_def OpDelete_def)
  moreover have "transaction_ok blockSize valid ?t" using c by (cases "norm d") (auto simp: transaction_ok_def version_ok_def)
  ultimately show ?thesis using e rd by (intro exI[of _ ?tls] exI[of _ ?t]) simp
qed

lemma tls_step_ok:
  assumes s: "inv s" and ok: "tls_ok blockSize valid tls" and rd: "tls_tlogReady tls" and ev: "event_ok blockSize valid ev"
    and seq: "is_write ev \<longrightarrow> tls_sequence tls \<noteq> MaxUint64" and send: "\<forall>t. send t = SendOK"
  shows "\<exists>sent new tls' s'. tls_step enum bs send now ev (tls, s) =
      Inr (fst (spec_ops (client_ops_of [ev]) (tls_content content (tls, s))), sent, tls', s') \<and>
    inv s' \<and> tls_ok blockSize valid tls' \<and> tls_tlogReady tls' \<and>
    tls_content content (tls', s') = snd (spec_ops (client_ops_of [ev]) (tls_content content (tls, s))) \<and>
    sent @ tls_transactionCh tls' = tls_transactionCh tls @ new \<and> fold apply_transaction new (tls_content content (tls, s)) = tls_content content (tls', s') \<and>
    map t_Sequence new = sequences_from (tls_sequence tls) (if is_write ev then 1 else 0) \<and>
    tls_sequence tls' = tls_sequence tls + (if is_write ev then 1 else 0) \<and> (\<forall>t \<in> set new. transaction_ok blockSize valid t)"
proof (cases ev)
  case (TlsClient c)
  show ?thesis
  proof (cases c)
    case (TSet i b)
    have n: "norm (Some b) = stored b" by (simp add: norm_def)
    have "version_ok blockSize valid i (norm (Some b))" using ev TlsClient TSet by (auto simp: version_ok_def norm_def stored_def)
    with tls_write_ok[OF ok rd, of i "Some b" now s] seq TlsClient TSet obtain tls' t where
      "tls_set now i (Some b) tls = (None, tls')" "tls_ok blockSize valid tls'" "tls_tlogReady tls'"
      "tls_transactionCh tls' = tls_transactionCh tls @ [t]" "t_Sequence t = tls_sequence tls" "tls_sequence tls' = tls_sequence tls + 1"
      "tls_content content (tls', s) = (tls_content content (tls, s))(i := norm (Some b))"
      "apply_transaction t (tls_content content (tls, s)) = tls_content content (tls', s)" "transaction_ok blockSize valid t" by auto
    then show ?thesis using TlsClient TSet s n
      by (intro exI[of _ "[]"] exI[of _ "[t]"] exI[of _ tls'] exI[of _ s]) (simp add: tls_SetBlock_def sequences_from_def)
  next
    case (TDelete i)
    have n: "norm None = None" by (simp add: norm_def)
    have "version_ok blockSize valid i (norm None)" using ev TlsClient TDelete by (simp add: version_ok_def norm_def)
    with tls_write_ok[OF ok rd, of i None now s] seq TlsClient TDelete obtain tls' t where
      "tls_set now i None tls = (None, tls')" "tls_ok blockSize valid tls'" "tls_tlogReady tls'"
      "tls_transactionCh tls' = tls_transactionCh tls @ [t]" "t_Sequence t = tls_sequence tls" "tls_sequence tls' = tls_sequence tls + 1"
      "tls_content content (tls', s) = (tls_content content (tls, s))(i := norm None)"
      "apply_transaction t (tls_content content (tls, s)) = tls_content content (tls', s)" "transaction_ok blockSize valid t" by auto
    then show ?thesis using TlsClient TDelete s n
      by (intro exI[of _ "[]"] exI[of _ "[t]"] exI[of _ tls'] exI[of _ s]) (simp add: tls_DeleteBlock_def sequences_from_def)
  next
    case (TGet i)
    from tls_GetBlock_ok[OF s, of i tls] ev TlsClient TGet obtain s' where
      "tls_GetBlock bs i (tls, s) = (Inr (tls_content content (tls, s) i), tls, s')" "inv s'"
      "tls_content content (tls, s') = tls_content content (tls, s)" by auto
    then show ?thesis using TlsClient TGet ok rd
      by (intro exI[of _ "[]"] exI[of _ "[]"] exI[of _ tls] exI[of _ s']) (simp add: sequences_from_def)
  qed
next
  case (TlsReceive res)
  then have "\<exists>tls'. tls_receive res tls = Inr tls'"
    using ev by (cases res) (auto simp: tls_receive_def split: tlog_status.splits)
  then obtain tls' where r: "tls_receive res tls = Inr tls'" by blast
  from tls_receive_ok[OF ok r] show ?thesis using TlsReceive r s rd
    by (intro exI[of _ "[]"] exI[of _ "[]"] exI[of _ tls'] exI[of _ s]) (simp add: sequences_from_def)
next
  case TlsFlusher
  from tls_flusher_ok[OF s ok] obtain tls' s' where
    "tls_flusher enum bs (tls, s) = Inr (tls', s')" "inv s'" "tls_ok blockSize valid tls'" "tls_content content (tls', s') = tls_content content (tls, s)"
    "tls_sequence tls' = tls_sequence tls" "tls_tlogReady tls' = tls_tlogReady tls" "tls_transactionCh tls' = tls_transactionCh tls" by blast
  then show ?thesis using TlsFlusher rd
    by (intro exI[of _ "[]"] exI[of _ "[]"] exI[of _ tls'] exI[of _ s']) (simp add: sequences_from_def)
next
  case TlsSender
  show ?thesis
  proof (cases "tls_transactionCh tls")
    case Nil
    then show ?thesis using TlsSender s ok rd
      by (intro exI[of _ "[]"] exI[of _ "[]"] exI[of _ tls] exI[of _ s]) (simp add: transactionSender_def sequences_from_def)
  next
    case (Cons t rest)
    let ?tls = "tls\<lparr>tls_transactionCh := rest\<rparr>"
    have "tls_ok blockSize valid ?tls" using ok by (simp add: tls_ok_def)
    moreover have "tls_content content (?tls, s) = tls_content content (tls, s)" by (rule tls_content_cong) simp_all
    ultimately show ?thesis using TlsSender Cons s rd send[rule_format, of t]
      by (intro exI[of _ "[t]"] exI[of _ "[]"] exI[of _ ?tls] exI[of _ s]) (simp add: transactionSender_def sequences_from_def)
  qed
qed

lemma spec_ops_append: "spec_ops (xs @ ys) m = (let (r1, m1) = spec_ops xs m; (r2, m2) = spec_ops ys m1 in (r1 @ r2, m2))"
  by (induction xs arbitrary: m) (auto simp: Let_def split: prod.splits)

lemma client_ops_of_Cons: "client_ops_of (ev # evs) = client_ops_of [ev] @ client_ops_of evs"
  by (cases ev) auto

theorem tls_run_ok:
  assumes "inv s" and "tls_ok blockSize valid tls" and "tls_tlogReady tls" and "list_all (event_ok blockSize valid) evs"
    and "unat (tls_sequence tls) + length (filter is_write evs) < 2 ^ 64" and send: "\<forall>t. send t = SendOK"
  shows "\<exists>sent new tls' s'. tls_run enum bs send now evs (tls, s) =
      Inr (fst (spec_ops (client_ops_of evs) (tls_content content (tls, s))), sent, tls', s') \<and>
    inv s' \<and> tls_ok blockSize valid tls' \<and> tls_tlogReady tls' \<and>
    tls_content content (tls', s') = snd (spec_ops (client_ops_of evs) (tls_content content (tls, s))) \<and>
    sent @ tls_transactionCh tls' = tls_transactionCh tls @ new \<and> fold apply_transaction new (tls_content content (tls, s)) = tls_content content (tls', s') \<and>
    map t_Sequence new = sequences_from (tls_sequence tls) (length (filter is_write evs)) \<and> (\<forall>t \<in> set new. transaction_ok blockSize valid t)"
  using assms(1-5)
proof (induction evs arbitrary: now tls s)
  case Nil
  then show ?case by (auto simp: sequences_from_def)
next
  case (Cons ev evs)
  have nm: "is_write ev \<longrightarrow> tls_sequence tls \<noteq> MaxUint64" using Cons.prems(5) by (auto simp: MaxUint64_iff)
  from tls_step_ok[where now = now, OF Cons.prems(1-3) _ nm send] Cons.prems(4) obtain sent1 new1 tls1 s1 where
    st: "tls_step enum bs send now ev (tls, s) = Inr (fst (spec_ops (client_ops_of [ev]) (tls_content content (tls, s))), sent1, tls1, s1)"
    "inv s1" "tls_ok blockSize valid tls1" "tls_tlogReady tls1"
    "tls_content content (tls1, s1) = snd (spec_ops (client_ops_of [ev]) (tls_content content (tls, s)))"
    "sent1 @ tls_transactionCh tls1 = tls_transactionCh tls @ new1"
    "fold apply_transaction new1 (tls_content content (tls, s)) = tls_content content (tls1, s1)"
    "map t_Sequence new1 = sequences_from (tls_sequence tls) (if is_write ev then 1 else 0)"
    "tls_sequence tls1 = tls_sequence tls + (if is_write ev then 1 else 0)" "\<forall>t \<in> set new1. transaction_ok blockSize valid t" by auto
  have "unat (tls_sequence tls1) + length (filter is_write evs) < 2 ^ 64"
    using Cons.prems(5) st(9) unat_succ[of "tls_sequence tls"] by (cases "is_write ev") auto
  from Cons.IH[OF st(2-4) _ this, of "now + 1"] Cons.prems(4) obtain sent2 new2 tls2 s2 where
    ih: "tls_run enum bs send (now + 1) evs (tls1, s1) = Inr (fst (spec_ops (client_ops_of evs) (tls_content content (tls1, s1))), sent2, tls2, s2)"
    "inv s2" "tls_ok blockSize valid tls2" "tls_tlogReady tls2"
    "tls_content content (tls2, s2) = snd (spec_ops (client_ops_of evs) (tls_content content (tls1, s1)))"
    "sent2 @ tls_transactionCh tls2 = tls_transactionCh tls1 @ new2"
    "fold apply_transaction new2 (tls_content content (tls1, s1)) = tls_content content (tls2, s2)"
    "map t_Sequence new2 = sequences_from (tls_sequence tls1) (length (filter is_write evs))" "\<forall>t \<in> set new2. transaction_ok blockSize valid t" by auto
  have ops: "spec_ops (client_ops_of (ev # evs)) m =
      (fst (spec_ops (client_ops_of [ev]) m) @ fst (spec_ops (client_ops_of evs) (snd (spec_ops (client_ops_of [ev]) m))),
       snd (spec_ops (client_ops_of evs) (snd (spec_ops (client_ops_of [ev]) m))))" for m
    unfolding client_ops_of_Cons[of ev evs] spec_ops_append by (simp add: case_prod_unfold Let_def)
  have seqs: "map t_Sequence (new1 @ new2) = sequences_from (tls_sequence tls) (length (filter is_write (ev # evs)))"
    using st(8,9) ih(8) by (cases "is_write ev") (simp_all add: sequences_from_Suc[unfolded One_nat_def[symmetric]] sequences_from_Suc, simp_all add: sequences_from_def)
  have "(sent1 @ sent2) @ tls_transactionCh tls2 = tls_transactionCh tls @ (new1 @ new2)"
    by (simp add: ih(6)) (simp add: st(6) flip: append_assoc)
  moreover have "tls_run enum bs send now (ev # evs) (tls, s) =
      Inr (fst (spec_ops (client_ops_of (ev # evs)) (tls_content content (tls, s))), sent1 @ sent2, tls2, s2)"
    unfolding ops using st(1,5) ih(1) by simp
  moreover have "tls_content content (tls2, s2) = snd (spec_ops (client_ops_of (ev # evs)) (tls_content content (tls, s)))"
    unfolding ops using st(5) ih(5) by simp
  moreover have "fold apply_transaction (new1 @ new2) (tls_content content (tls, s)) = tls_content content (tls2, s2)"
    using st(7) ih(7) by simp
  ultimately show ?case using ih(2-4,9) st(10) seqs by (intro exI[of _ "sent1 @ sent2"] exI[of _ "new1 @ new2"] exI[of _ tls2] exI[of _ s2]) auto
qed

end

definition apply_held :: "writeOp \<Rightarrow> (int \<Rightarrow> bytes option) \<Rightarrow> int \<Rightarrow> bytes option" where
  "apply_held op m = m(wo_blockIndex op := norm (Some (wo_content op)))"

context tlog_storage
begin

text \<open>Getting ready: the writes held back are evicted from the cache and written again with sequences of the server.\<close>

lemma evict_buffer:
  assumes "cache_rel cache bound P" and "\<forall>b. fst ` set (P b) \<subseteq> S \<union> wo_sequence ` set buff" and "\<forall>b. fst ` set (P b) \<inter> S = {}"
  shows "cache_rel (fold (\<lambda>op cache. snd (sq_Evict [wo_sequence op] cache)) buff cache) bound (\<lambda>_. [])"
  using assms
proof (induction buff arbitrary: cache P S)
  case Nil
  have "P b = []" for b using Nil.prems(2)[rule_format, of b] Nil.prems(3)[rule_format, of b] by (cases "P b") auto
  then have "P = (\<lambda>_. [])" by (rule ext)
  then show ?case using Nil by simp
next
  case (Cons op buff)
  from cache_Evict[OF Cons.prems(1), of "[wo_sequence op]"] obtain el cache' P' where
    e: "sq_Evict [wo_sequence op] cache = (el, cache')" "cache_rel cache' bound P'" "evicted P el P'"
    "\<forall>b. fst ` set (P' b) \<inter> set [wo_sequence op] = {}" by blast
  have sub: "set (P' b) \<subseteq> set (P b)" for b
    using e(3)[unfolded evicted_def, rule_format, of b] by (auto simp: taken_def split: option.splits)
  have "fst ` set (P' b) \<subseteq> insert (wo_sequence op) S \<union> wo_sequence ` set buff" for b
    using image_mono[OF sub[of b], of fst] Cons.prems(2)[rule_format, of b] by auto
  moreover have "fst ` set (P' b) \<inter> insert (wo_sequence op) S = {}" for b
    using image_mono[OF sub[of b], of fst] Cons.prems(3)[rule_format, of b] e(4)[rule_format, of b] by auto
  ultimately have "cache_rel (fold (\<lambda>op cache. snd (sq_Evict [wo_sequence op] cache)) buff cache') bound (\<lambda>_. [])"
    using Cons.IH[OF e(2), of "insert (wo_sequence op) S"] by blast
  then show ?case using e(1) by simp
qed

lemma resume_ops_ok:
  assumes "tls_ok blockSize valid tls" and "tls_tlogReady tls" and "unat (tls_sequence tls) + length buff < 2 ^ 64"
    and "\<forall>op \<in> set buff. version_ok blockSize valid (wo_blockIndex op) (norm (Some (wo_content op)))"
  shows "\<exists>new. tls_ok blockSize valid (resume_ops now buff tls) \<and> tls_tlogReady (resume_ops now buff tls) \<and>
    tls_content content (resume_ops now buff tls, s) =
      fold apply_held buff (tls_content content (tls, s)) \<and>
    tls_transactionCh (resume_ops now buff tls) = tls_transactionCh tls @ new \<and>
    fold apply_transaction new (tls_content content (tls, s)) = tls_content content (resume_ops now buff tls, s) \<and>
    map t_Sequence new = sequences_from (tls_sequence tls) (length buff)"
  using assms
proof (induction buff arbitrary: tls)
  case Nil
  then show ?case by (simp add: sequences_from_def)
next
  case (Cons op buff)
  have "tls_sequence tls \<noteq> MaxUint64" using Cons.prems(3) by (auto simp: MaxUint64_iff)
  from tls_write_ok[OF Cons.prems(1,2) this, of "wo_blockIndex op" "Some (wo_content op)" now s] Cons.prems(4) obtain tls1 t where
    w: "tls_set now (wo_blockIndex op) (Some (wo_content op)) tls = (None, tls1)" "tls_ok blockSize valid tls1" "tls_tlogReady tls1"
    "tls_transactionCh tls1 = tls_transactionCh tls @ [t]" "t_Sequence t = tls_sequence tls" "tls_sequence tls1 = tls_sequence tls + 1"
    "tls_content content (tls1, s) = (tls_content content (tls, s))(wo_blockIndex op := norm (Some (wo_content op)))"
    "apply_transaction t (tls_content content (tls, s)) = tls_content content (tls1, s)" by auto
  have "unat (tls_sequence tls1) + length buff < 2 ^ 64" using Cons.prems(3) w(6) unat_succ[of "tls_sequence tls"] by simp
  from Cons.IH[OF w(2,3) this] Cons.prems(4) obtain new where
    "tls_ok blockSize valid (resume_ops now buff tls1)" "tls_tlogReady (resume_ops now buff tls1)"
    "tls_content content (resume_ops now buff tls1, s) = fold apply_held buff (tls_content content (tls1, s))"
    "tls_transactionCh (resume_ops now buff tls1) = tls_transactionCh tls1 @ new"
    "fold apply_transaction new (tls_content content (tls1, s)) = tls_content content (resume_ops now buff tls1, s)"
    "map t_Sequence new = sequences_from (tls_sequence tls1) (length buff)" by auto
  moreover have "apply_held op (tls_content content (tls, s)) = tls_content content (tls1, s)" by (simp add: apply_held_def w(7))
  ultimately show ?case using w(1,4-6,8) by (intro exI[of _ "t # new"]) (simp add: sequences_from_Suc)
qed

end

text \<open>A storage whose tlog server is not ready: the cache holds exactly the writes held back.\<close>

definition held_back :: "writeOp list \<Rightarrow> pending" where
  "held_back buff b = map (\<lambda>op. (wo_sequence op, norm (Some (wo_content op)))) (filter (\<lambda>op. wo_blockIndex op = b) buff)"

definition waiting_ok :: "int \<Rightarrow> (bytes \<Rightarrow> bool) \<Rightarrow> tlogStorage \<Rightarrow> bool" where
  "waiting_ok blockSize valid tls \<longleftrightarrow>
     \<not> tls_tlogReady tls \<and> tls_transactionCh tls = [] \<and>
     cache_rel (tls_cache tls) (unat (tls_sequence tls)) (held_back (tls_tlogNotReadyBuff tls)) \<and>
     (\<forall>op \<in> set (tls_tlogNotReadyBuff tls). version_ok blockSize valid (wo_blockIndex op) (norm (Some (wo_content op))))"

lemma held_back_fold:
  "(if held_back buff b = [] then m b else snd (last (held_back buff b))) =
   fold apply_held buff m b"
  by (induction buff rule: rev_induct) (auto simp: held_back_def apply_held_def)

lemma norm_normed: "norm (Some (case norm d of None \<Rightarrow> [] | Some c \<Rightarrow> c)) = norm d"
  by (cases d) (auto simp: norm_def stored_def all_zero_iff)

context tlog_storage
begin

lemma waiting_content:
  assumes "waiting_ok blockSize valid tls"
  shows "tls_content content (tls, s) = fold apply_held (tls_tlogNotReadyBuff tls) (content s)"
proof -
  have r: "cache_rel (tls_cache tls) (unat (tls_sequence tls)) (held_back (tls_tlogNotReadyBuff tls))" using assms by (simp add: waiting_ok_def)
  show ?thesis by (intro ext) (simp add: tls_content_def cache_Get[OF r] flip: held_back_fold)
qed

lemma waiting_write:
  assumes w: "waiting_ok blockSize valid tls" and seq: "tls_sequence tls \<noteq> MaxUint64" and c: "version_ok blockSize valid i (norm d)"
  shows "\<exists>tls'. tls_set now i d tls = (None, tls') \<and> waiting_ok blockSize valid tls' \<and>
    tls_content content (tls', s) = (tls_content content (tls, s))(i := norm d)"
proof -
  let ?buff = "tls_tlogNotReadyBuff tls" and ?op = "\<lparr>wo_sequence = tls_sequence tls, wo_blockIndex = i, wo_content = case norm d of None \<Rightarrow> [] | Some c \<Rightarrow> c\<rparr>"
  have r: "cache_rel (tls_cache tls) (unat (tls_sequence tls)) (held_back ?buff)" using w by (simp add: waiting_ok_def)
  from cache_Add[OF r order_refl seq, of i "norm d"] obtain cache' where
    a: "sq_Add (tls_sequence tls) i (norm d) (tls_cache tls) = (None, cache')"
    and r': "cache_rel cache' (Suc (unat (tls_sequence tls))) ((held_back ?buff)(i := held_back ?buff i @ [(tls_sequence tls, norm d)]))" by blast
  have s1: "Suc (unat (tls_sequence tls)) = unat (tls_sequence tls + 1)"
    using seq unsigned_less[of "tls_sequence tls", where 'a = nat] unat_succ[of "tls_sequence tls"] by (auto simp: MaxUint64_iff)
  have hb: "(held_back ?buff)(i := held_back ?buff i @ [(tls_sequence tls, norm d)]) = held_back (?buff @ [?op])"
    by (intro ext) (auto simp: held_back_def norm_normed)
  let ?tls = "tls\<lparr>tls_sequence := tls_sequence tls + 1, tls_cache := cache', tls_tlogNotReadyBuff := ?buff @ [?op]\<rparr>"
  have t: "tls_set now i d tls = (None, ?tls)" using a w by (simp add: tls_set_eq Let_def waiting_ok_def)
  have ok: "waiting_ok blockSize valid ?tls" using w r' c by (simp add: waiting_ok_def s1 hb norm_normed)
  have "tls_content content (?tls, s) = (tls_content content (tls, s))(i := norm d)"
    unfolding waiting_content[OF ok] waiting_content[OF w] by (simp add: apply_held_def norm_normed)
  with t ok show ?thesis by blast
qed

theorem waitTlogServerReady_ok:
  assumes w: "waiting_ok blockSize valid tls" and n: "unat (lastFlushed + 1) + length (tls_tlogNotReadyBuff tls) < 2 ^ 64"
  shows "\<exists>tls'. waitTlogServerReady now lastFlushed tls = tls' \<and> tls_ok blockSize valid tls' \<and> tls_tlogReady tls' \<and> tls_tlogNotReadyBuff tls' = [] \<and>
    tls_content content (tls', s) = tls_content content (tls, s) \<and>
    fold apply_transaction (tls_transactionCh tls') (content s) = tls_content content (tls', s) \<and>
    map t_Sequence (tls_transactionCh tls') = sequences_from (lastFlushed + 1) (length (tls_tlogNotReadyBuff tls))"
proof -
  let ?buff = "tls_tlogNotReadyBuff tls"
  let ?cache = "fold (\<lambda>op cache. snd (sq_Evict [wo_sequence op] cache)) ?buff (tls_cache tls)"
  let ?tls = "tls\<lparr>tls_tlogReady := True, tls_sequence := lastFlushed + 1, tls_cache := ?cache\<rparr>"
  have r: "cache_rel (tls_cache tls) (unat (tls_sequence tls)) (held_back ?buff)" and ch: "tls_transactionCh tls = []"
    and v: "\<forall>op \<in> set ?buff. version_ok blockSize valid (wo_blockIndex op) (norm (Some (wo_content op)))" using w by (simp_all add: waiting_ok_def)
  have "cache_rel ?cache (unat (tls_sequence tls)) (\<lambda>_. [])"
    by (rule evict_buffer[OF r, of "{}"]) (auto simp: held_back_def)
  then have e: "cache_rel ?cache (unat (lastFlushed + 1)) (\<lambda>_. [])" using n by (simp add: cache_rel_def)
  have ok: "tls_ok blockSize valid ?tls" unfolding tls_ok_def using e by (intro exI[of _ "\<lambda>_. []"]) simp
  have base: "tls_content content (?tls, s) = content s" by (intro ext) (simp add: tls_content_def cache_Get[OF e])
  from resume_ops_ok[OF ok _ _ v, of now s] n ch base obtain new where
    k: "tls_ok blockSize valid (resume_ops now ?buff ?tls)" "tls_tlogReady (resume_ops now ?buff ?tls)"
    "tls_content content (resume_ops now ?buff ?tls, s) = fold apply_held ?buff (content s)"
    "tls_transactionCh (resume_ops now ?buff ?tls) = new"
    "fold apply_transaction new (content s) = tls_content content (resume_ops now ?buff ?tls, s)"
    "map t_Sequence new = sequences_from (lastFlushed + 1) (length ?buff)" by auto
  let ?r = "(resume_ops now ?buff ?tls)\<lparr>tls_tlogNotReadyBuff := []\<rparr>"
  have "waitTlogServerReady now lastFlushed tls = ?r" by (simp add: waitTlogServerReady_def Let_def)
  moreover have "tls_ok blockSize valid ?r" using k(1) by (simp add: tls_ok_def)
  moreover have "tls_content content (?r, s) = tls_content content (resume_ops now ?buff ?tls, s)" by (rule tls_content_cong) simp_all
  ultimately show ?thesis using k waiting_content[OF w, of s] by simp
qed

end


section \<open>Flush returns\<close>

text \<open>After enough timeouts \<open>Flush\<close> stops waiting, whatever else happens.\<close>

lemma flush_wait_gives_up:
  "FlushWaitRetryNum \<le> n + length (filter ((=) RetryTimeout) rounds) \<Longrightarrow> n < FlushWaitRetryNum \<Longrightarrow>
   \<exists>r. flush_wait enum bs rounds n (tls, s) = Some r"
proof (induction rounds arbitrary: n tls s)
  case (Cons r rounds)
  note flush_wait.simps [simp del]
  have "\<exists>x. flush_wait enum bs rounds n st = Some x" if "r \<noteq> RetryTimeout" for st
    using Cons.IH[of n "fst st" "snd st"] Cons.prems that by simp
  moreover have "\<exists>x. flush_wait enum bs rounds (Suc n) (tls, s) = Some x" if "r = RetryTimeout" "Suc n < FlushWaitRetryNum"
    using Cons.IH[of "Suc n" tls s] Cons.prems that by simp
  ultimately show ?case
    by (subst flush_wait.simps) (auto split: sum.splits flush_round.splits)
qed simp

context tlog_storage
begin

text \<open>When the server has stored everything the cache holds, one run of the flusher is enough.\<close>

lemma flush_answered:
  assumes s: "inv s" and ok: "tls_ok blockSize valid tls" and ch: "tls_toFlushCh tls = []"
    and seqs: "dom (sq_sequences (tls_cache tls)) \<subseteq> set seqs" and e: "\<not> sq_Empty (tls_cache tls)"
  shows "\<exists>tls' s'. flush_wait enum bs [Received (Response FlushOK seqs), FlusherRuns] n (tls, s) = Some (None, tls', s')"
proof -
  from ok obtain P where P: "cache_rel (tls_cache tls) (unat (tls_sequence tls)) P"
    and v: "\<forall>b. \<forall>v \<in> set (P b). version_ok blockSize valid b (snd v)" by (auto simp: tls_ok_def)
  from cache_Evict[OF P, of seqs] obtain el cache' P' where ev: "sq_Evict seqs (tls_cache tls) = (el, cache')"
    "cache_rel cache' (unat (tls_sequence tls)) P'" "evicted P el P'" "\<forall>b. fst ` set (P' b) \<inter> set seqs = {}" by blast
  have d: "fst ` set (P b) \<subseteq> set seqs" for b
  proof -
    have "fst ` set (P b) \<subseteq> dom (sq_sequences (tls_cache tls))" using P by (force simp: cache_rel_def)
    with seqs show ?thesis by blast
  qed
  have "P' b = []" for b
  proof -
    have "set (P' b) \<subseteq> set (P b)"
      using ev(3)[unfolded evicted_def, rule_format, of b] by (auto simp: taken_def split: option.splits)
    then have "fst ` set (P' b) \<subseteq> set seqs" using d[of b] by blast
    with ev(4)[rule_format, of b] show ?thesis by (cases "P' b") auto
  qed
  then have empty: "sq_Empty cache'" using cache_Empty[OF ev(2)] by simp
  let ?tls = "tls\<lparr>tls_toFlushCh := []\<rparr>"
  have ok': "tls_ok blockSize valid ?tls" using ok by (simp add: tls_ok_def)
  have ne: "seqs \<noteq> []"
  proof
    assume "seqs = []"
    then have "P b = []" for b using d[of b] by simp
    then show False using cache_Empty[OF P] e by simp
  qed
  from flushCachedContent_ok[OF s ok', of seqs] obtain tls' s' where
    f: "flushCachedContent enum bs seqs (?tls, s) = (None, tls', s')" and c: "tls_cache tls' = cache'"
    using ev(1) ne by (auto simp: flushCachedContent_def Let_def split: prod.splits if_splits)
  have "tls_flusher enum bs (tls\<lparr>tls_toFlushCh := [seqs]\<rparr>, s) = Inr (tls', s')" using f by (simp add: tls_flusher_def)
  then show ?thesis using e empty c ch by (simp add: tls_receive_def)
qed

end

section \<open>Over the storages of the server\<close>

text \<open>One order in which a map may be ranged over: by increasing block index.\<close>

definition sorted_elements :: element_enum where
  "sorted_elements d = map (\<lambda>i. (i, the (d i))) (sorted_list_of_set (dom d))"

lemma sorted_elements_good:
  assumes f: "finite (dom d)"
  shows "distinct (map fst (sorted_elements d)) \<and> map_of (sorted_elements d) = d"
proof
  show "distinct (map fst (sorted_elements d))" by (simp add: sorted_elements_def o_def)
  show "map_of (sorted_elements d) = d"
  proof
    fix i
    have "map_of (map (\<lambda>i. (i, the (d i))) (sorted_list_of_set (dom d))) i = (if i \<in> dom d then Some (the (d i)) else None)"
      using f by (simp add: map_of_map_restrict restrict_map_def)
    then show "map_of (sorted_elements d) i = d i" by (cases "d i") (auto simp: sorted_elements_def domIff)
  qed
qed

interpretation tlog_memory: tlog_storage inMemory blockSize "\<lambda>_. True" "inMemory_inv blockSize" vdisk sorted_elements
  by unfold_locales (rule sorted_elements_good)

sublocale dedup \<subseteq> tlog_deduped: tlog_storage "dedupedStorage H order" bsize "\<lambda>c. c \<in> C"
    "ds_inv view route troute up H C vd bsize cl tc" "ds_content view route H C vd" sorted_elements
  by unfold_locales (rule sorted_elements_good)

sublocale semidedup \<subseteq> tlog_semideduped: tlog_storage "semiDedupedStorage gz order" bsize "\<lambda>_. True"
    "sd_inv view route troute up H C vd bsize cl tc" "sd_content view route H C vd" sorted_elements
  by unfold_locales (rule sorted_elements_good)


end
