(* ===== verification/Tlog_Aggregation.thy ===== *)
theory Tlog_Aggregation
  imports Tlog_Storage
begin

text \<open>
  Aggregations of transactions (\<open>tlog/aggregation.go\<close>, \<open>tlog/schema/util.go\<close>) and the flusher of the tlog server
  that fills them (\<open>tlog/flusher/flusher.go\<close>). A Cap'n Proto structure is a record; reading a pointer field may fail, so these fields
  are results. \<open>alloc\<close> gives the error with which Cap'n Proto refuses to allocate bytes in a message, \<open>enc\<close> its encoder.
  Cap'n Proto zeroes what it allocates, so the unused blocks of an aggregation are zero.
\<close>

section \<open>Blocks\<close>

record TlogBlock =
  tb_Sequence :: uint64
  tb_Index :: int
  tb_Hash :: "bytes result"
  tb_Data :: "bytes result"
  tb_Timestamp :: int
  tb_Operation :: "8 word"

definition zero_block :: TlogBlock where
  "zero_block = \<lparr>tb_Sequence = 0, tb_Index = 0, tb_Hash = Inr [], tb_Data = Inr [], tb_Timestamp = 0, tb_Operation = 0\<rparr>"

definition block_SetHash :: "(bytes \<Rightarrow> error option) \<Rightarrow> bytes \<Rightarrow> TlogBlock \<Rightarrow> error option \<times> TlogBlock" where
  "block_SetHash alloc h b = (case alloc h of None \<Rightarrow> (None, b\<lparr>tb_Hash := Inr h\<rparr>) | Some e \<Rightarrow> (Some e, b))"

definition block_SetData :: "(bytes \<Rightarrow> error option) \<Rightarrow> bytes \<Rightarrow> TlogBlock \<Rightarrow> error option \<times> TlogBlock" where
  "block_SetData alloc d b = (case alloc d of None \<Rightarrow> (None, b\<lparr>tb_Data := Inr d\<rparr>) | Some e \<Rightarrow> (Some e, b))"

text \<open>The errors of the setters are dropped.\<close>

definition CopyBlock :: "(bytes \<Rightarrow> error option) \<Rightarrow> TlogBlock \<Rightarrow> TlogBlock \<Rightarrow> error option \<times> TlogBlock" where
  "CopyBlock alloc dst src =
     (let dst1 = dst\<lparr>tb_Sequence := tb_Sequence src, tb_Index := tb_Index src\<rparr>
      in case tb_Hash src of
           Inl e \<Rightarrow> (Some e, dst1)
         | Inr hash \<Rightarrow>
             let dst2 = snd (block_SetHash alloc hash dst1)
             in case tb_Data src of
                  Inl e \<Rightarrow> (Some e, dst2)
                | Inr data \<Rightarrow>
                    let dst3 = snd (block_SetData alloc data dst2)
                    in (None, dst3\<lparr>tb_Timestamp := tb_Timestamp src, tb_Operation := tb_Operation src\<rparr>))"

section \<open>Aggregations\<close>

record TlogAggregation =
  ta_Size :: uint64
  ta_Timestamp :: int
  ta_Blocks :: "TlogBlock list"

record Aggregation =
  ag_agg :: TlogAggregation
  ag_lastSequence :: uint64
  ag_size :: nat
  ag_maxBlockNum :: nat

abbreviation ag_blockList :: "Aggregation \<Rightarrow> TlogBlock list" where
  "ag_blockList a \<equiv> ta_Blocks (ag_agg a)"

definition set_blockList :: "TlogBlock list \<Rightarrow> Aggregation \<Rightarrow> Aggregation" where
  "set_blockList bl a = a\<lparr>ag_agg := (ag_agg a)\<lparr>ta_Blocks := bl\<rparr>\<rparr>"

definition ErrExceedBlockNumber :: error where "ErrExceedBlockNumber = ErrOther ''exceed blocks number''"

text \<open>\<open>msgErr\<close> is the error of creating the message, if it fails.\<close>

definition NewAggregation :: "error option \<Rightarrow> nat \<Rightarrow> Aggregation result" where
  "NewAggregation msgErr maxBlockNum =
     (case msgErr of
        Some e \<Rightarrow> Inl e
      | None \<Rightarrow> Inr \<lparr>ag_agg = \<lparr>ta_Size = 0, ta_Timestamp = 0, ta_Blocks = replicate maxBlockNum zero_block\<rparr>,
                     ag_lastSequence = 0, ag_size = 0, ag_maxBlockNum = maxBlockNum\<rparr>)"

definition agg_Empty :: "Aggregation \<Rightarrow> bool" where "agg_Empty a \<longleftrightarrow> ag_size a = 0"

definition agg_Full :: "Aggregation \<Rightarrow> bool" where "agg_Full a \<longleftrightarrow> ag_size a = ag_maxBlockNum a"

definition LastSequence :: "Aggregation \<Rightarrow> uint64" where "LastSequence a = ag_lastSequence a"

definition Sequences :: "Aggregation \<Rightarrow> uint64 list" where
  "Sequences a = (if ag_size a = 0 then [] else map (\<lambda>i. tb_Sequence (ag_blockList a ! i)) [0..<ag_size a])"

text \<open>A transaction of \<open>tlog/transaction.go\<close> has a hash.\<close>

record Transaction = transaction +
  t_Hash :: bytes

definition agg_AddTransaction :: "(bytes \<Rightarrow> error option) \<Rightarrow> Transaction \<Rightarrow> Aggregation \<Rightarrow> error option \<times> Aggregation" where
  "agg_AddTransaction alloc t a =
     (if ag_size a = ag_maxBlockNum a then (Some ErrExceedBlockNumber, a)
      else
        let i = ag_size a;
            block = (ag_blockList a ! i)\<lparr>tb_Operation := t_Operation t, tb_Sequence := t_Sequence t\<rparr>
        in case block_SetData alloc (t_Content t) block of
             (Some e, b1) \<Rightarrow> (Some e, set_blockList ((ag_blockList a)[i := b1]) a)
           | (None, b1) \<Rightarrow>
               (case block_SetHash alloc (t_Hash t) b1 of
                  (Some e, b2) \<Rightarrow> (Some e, set_blockList ((ag_blockList a)[i := b2]) a)
                | (None, b2) \<Rightarrow>
                    (None, (set_blockList ((ag_blockList a)[i := b2\<lparr>tb_Index := t_Index t, tb_Timestamp := t_Timestamp t\<rparr>]) a)
                       \<lparr>ag_lastSequence := t_Sequence t, ag_size := ag_size a + 1\<rparr>)))"

definition agg_AddBlock :: "(bytes \<Rightarrow> error option) \<Rightarrow> TlogBlock \<Rightarrow> Aggregation \<Rightarrow> error option \<times> Aggregation" where
  "agg_AddBlock alloc block a =
     (if ag_size a = ag_maxBlockNum a then (Some ErrExceedBlockNumber, a)
      else
        let i = ag_size a
        in case CopyBlock alloc (ag_blockList a ! i) block of
             (Some e, b) \<Rightarrow> (Some e, set_blockList ((ag_blockList a)[i := b]) a)
           | (None, b) \<Rightarrow> (None, (set_blockList ((ag_blockList a)[i := b]) a)\<lparr>ag_lastSequence := tb_Sequence block, ag_size := ag_size a + 1\<rparr>))"

text \<open>The two loops of \<open>IgnoreSeqBefore\<close>; reading past the end of a Cap'n Proto list panics.\<close>

fun last_before :: "uint64 \<Rightarrow> TlogBlock list \<Rightarrow> int \<Rightarrow> int \<Rightarrow> int" where
  "last_before seq [] i idx = idx"
| "last_before seq (b # bs) i idx = (if tb_Sequence b \<ge> seq then idx else last_before seq bs (i + 1) i)"

fun shift_blocks :: "nat \<Rightarrow> nat \<Rightarrow> nat \<Rightarrow> TlogBlock list \<Rightarrow> TlogBlock list result" where
  "shift_blocks 0 i idx bl = Inr bl"
| "shift_blocks (Suc n) i idx bl =
     (if i + idx + 1 < length bl then shift_blocks n (Suc i) idx (bl[i := bl ! (i + idx + 1)])
      else Inl (Panic ''list index out of bounds''))"

definition agg_IgnoreSeqBefore :: "uint64 \<Rightarrow> Aggregation \<Rightarrow> Aggregation result" where
  "agg_IgnoreSeqBefore seq a =
     (let idx = last_before seq (take (ag_size a) (ag_blockList a)) 0 (-1)
      in if idx < 0 then Inr a
         else
           let a1 = a\<lparr>ag_size := ag_size a - (nat idx + 1)\<rparr>
           in if ag_size a1 = 0 then Inr a1
              else map_sum id (\<lambda>bl. set_blockList bl a1) (shift_blocks (nat idx) 0 (nat idx) (ag_blockList a1)))"

definition agg_SetTimestamp :: "int \<Rightarrow> Aggregation \<Rightarrow> Aggregation" where
  "agg_SetTimestamp timestamp a = a\<lparr>ag_agg := (ag_agg a)\<lparr>ta_Timestamp := timestamp\<rparr>\<rparr>"

definition agg_Encode :: "(TlogAggregation \<Rightarrow> bytes result) \<Rightarrow> Aggregation \<Rightarrow> bytes result \<times> Aggregation" where
  "agg_Encode enc a =
     (let a1 = a\<lparr>ag_agg := (ag_agg a)\<lparr>ta_Size := of_nat (ag_size a)\<rparr>\<rparr> in (enc (ag_agg a1), a1))"

section \<open>The flusher\<close>

record Flusher =
  fl_flushSize :: nat
  fl_curAgg :: "Aggregation option"

definition DefaultFlushSize :: nat where "DefaultFlushSize = 25"

definition NewWithStorClient :: "nat \<Rightarrow> Flusher" where
  "NewWithStorClient flushSize = \<lparr>fl_flushSize = if flushSize = 0 then DefaultFlushSize else flushSize, fl_curAgg = None\<rparr>"

definition initAggregation :: "error option \<Rightarrow> Flusher \<Rightarrow> error option \<times> Flusher" where
  "initAggregation msgErr f =
     (case NewAggregation msgErr (fl_flushSize f) of
        Inl e \<Rightarrow> (Some e, f)
      | Inr agg \<Rightarrow> (None, f\<lparr>fl_curAgg := Some agg\<rparr>))"

text \<open>What \<open>AddTransaction\<close> and \<open>AddBlock\<close> share: a new aggregation if there is none.\<close>

definition with_curAgg :: "error option \<Rightarrow> (Aggregation \<Rightarrow> error option \<times> Aggregation) \<Rightarrow> Flusher \<Rightarrow> error option \<times> Flusher" where
  "with_curAgg msgErr add f =
     (case (if fl_curAgg f = None then initAggregation msgErr f else (None, f)) of
        (Some e, f1) \<Rightarrow> (Some e, f1)
      | (None, f1) \<Rightarrow>
          (case fl_curAgg f1 of
             None \<Rightarrow> (Some (Panic ''nil pointer''), f1)
           | Some agg \<Rightarrow> (let (e, agg1) = add agg in (e, f1\<lparr>fl_curAgg := Some agg1\<rparr>))))"

definition fl_AddTransaction :: "(bytes \<Rightarrow> error option) \<Rightarrow> error option \<Rightarrow> Transaction \<Rightarrow> Flusher \<Rightarrow> error option \<times> Flusher" where
  "fl_AddTransaction alloc msgErr t f = with_curAgg msgErr (agg_AddTransaction alloc t) f"

definition fl_AddBlock :: "(bytes \<Rightarrow> error option) \<Rightarrow> error option \<Rightarrow> TlogBlock \<Rightarrow> Flusher \<Rightarrow> error option \<times> Flusher" where
  "fl_AddBlock alloc msgErr block f = with_curAgg msgErr (agg_AddBlock alloc block) f"

definition fl_Full :: "Flusher \<Rightarrow> bool" where
  "fl_Full f = (case fl_curAgg f of None \<Rightarrow> False | Some a \<Rightarrow> agg_Full a)"

definition fl_Empty :: "Flusher \<Rightarrow> bool" where
  "fl_Empty f = (case fl_curAgg f of None \<Rightarrow> True | Some a \<Rightarrow> agg_Empty a)"

definition fl_IgnoreSeqBefore :: "uint64 \<Rightarrow> Flusher \<Rightarrow> Flusher result" where
  "fl_IgnoreSeqBefore seq f =
     (case fl_curAgg f of
        None \<Rightarrow> Inr f
      | Some a \<Rightarrow> map_sum id (\<lambda>a1. f\<lparr>fl_curAgg := Some a1\<rparr>) (agg_IgnoreSeqBefore seq a))"

text \<open>\<open>store\<close> is \<open>ProcessStoreAgg\<close> of the 0-stor client, which returns the encoded aggregation.\<close>

definition fl_flush :: "(Aggregation \<Rightarrow> 'w \<Rightarrow> bytes result \<times> Aggregation \<times> 'w) \<Rightarrow> Flusher \<Rightarrow> 'w \<Rightarrow>
    (bytes \<times> uint64 list) result \<times> Flusher \<times> 'w" where
  "fl_flush store f w =
     (case fl_curAgg f of
        None \<Rightarrow> (Inr ([], []), f, w)
      | Some a \<Rightarrow>
          if agg_Empty a then (Inr ([], []), f, w)
          else case store a w of
                 (Inl e, a1, w1) \<Rightarrow> (Inl e, f\<lparr>fl_curAgg := Some a1\<rparr>, w1)
               | (Inr data, a1, w1) \<Rightarrow> (Inr (data, Sequences a1), f\<lparr>fl_curAgg := None\<rparr>, w1))"


section \<open>Adding blocks\<close>

text \<open>The blocks an aggregation holds are the first \<open>size\<close> of its list.\<close>

definition agg_blocks :: "Aggregation \<Rightarrow> TlogBlock list" where
  "agg_blocks a = take (ag_size a) (ag_blockList a)"

definition agg_ok :: "Aggregation \<Rightarrow> bool" where
  "agg_ok a \<longleftrightarrow> length (ag_blockList a) = ag_maxBlockNum a \<and> ag_size a \<le> ag_maxBlockNum a"

definition readable :: "(bytes \<Rightarrow> error option) \<Rightarrow> TlogBlock \<Rightarrow> bool" where
  "readable alloc b \<longleftrightarrow> (\<exists>h d. tb_Hash b = Inr h \<and> tb_Data b = Inr d \<and> alloc h = None \<and> alloc d = None)"

lemma CopyBlock_readable: "readable alloc src \<Longrightarrow> CopyBlock alloc dst src = (None, src)"
  by (auto simp: readable_def CopyBlock_def block_SetHash_def block_SetData_def)

lemma set_blockList_simps [simp]:
  "ta_Blocks (ag_agg (set_blockList bl a)) = bl" "ag_size (set_blockList bl a) = ag_size a"
  "ag_maxBlockNum (set_blockList bl a) = ag_maxBlockNum a" "ag_lastSequence (set_blockList bl a) = ag_lastSequence a"
  by (simp_all add: set_blockList_def)

lemma NewAggregation_ok: "NewAggregation None n = Inr a \<Longrightarrow> agg_ok a \<and> agg_blocks a = [] \<and> ag_maxBlockNum a = n"
  by (auto simp: NewAggregation_def agg_ok_def agg_blocks_def)

lemma Sequences_blocks: "agg_ok a \<Longrightarrow> Sequences a = map tb_Sequence (agg_blocks a)"
  by (intro nth_equalityI) (auto simp: Sequences_def agg_blocks_def agg_ok_def)

lemma agg_Empty_blocks: "agg_ok a \<Longrightarrow> agg_Empty a \<longleftrightarrow> agg_blocks a = []"
  by (auto simp: agg_Empty_def agg_blocks_def agg_ok_def)

lemma length_agg_blocks: "agg_ok a \<Longrightarrow> length (agg_blocks a) = ag_size a"
  by (simp add: agg_blocks_def agg_ok_def)

lemma agg_AddBlock_ok:
  assumes ok: "agg_ok a" and room: "\<not> agg_Full a" and r: "readable alloc b"
  shows "\<exists>a'. agg_AddBlock alloc b a = (None, a') \<and> agg_ok a' \<and> agg_blocks a' = agg_blocks a @ [b] \<and>
    ag_maxBlockNum a' = ag_maxBlockNum a \<and> LastSequence a' = tb_Sequence b"
proof -
  have lt: "ag_size a < length (ag_blockList a)" using ok room by (auto simp: agg_ok_def agg_Full_def)
  let ?a = "(set_blockList ((ag_blockList a)[ag_size a := b]) a)\<lparr>ag_lastSequence := tb_Sequence b, ag_size := ag_size a + 1\<rparr>"
  have "agg_AddBlock alloc b a = (None, ?a)" using room by (simp add: agg_AddBlock_def agg_Full_def CopyBlock_readable[OF r])
  moreover have "agg_blocks ?a = agg_blocks a @ [b]" using lt by (simp add: agg_blocks_def take_Suc_conv_app_nth)
  ultimately show ?thesis using ok lt by (intro exI[of _ ?a]) (simp add: agg_ok_def LastSequence_def)
qed

lemma agg_AddBlock_full: "agg_Full a \<Longrightarrow> agg_AddBlock alloc b a = (Some ErrExceedBlockNumber, a)"
  by (simp add: agg_AddBlock_def agg_Full_def)

section \<open>Ignoring blocks\<close>

abbreviation ignored :: "uint64 \<Rightarrow> Aggregation \<Rightarrow> nat" where
  "ignored seq a \<equiv> length (takeWhile (\<lambda>b. tb_Sequence b < seq) (agg_blocks a))"

lemma last_before_eq:
  "last_before seq bs i idx =
     (if takeWhile (\<lambda>b. tb_Sequence b < seq) bs = [] then idx else i + int (length (takeWhile (\<lambda>b. tb_Sequence b < seq) bs)) - 1)"
  by (induction bs arbitrary: i idx) auto

lemma shift_blocks_ok:
  "i + n + idx < length bl \<or> n = 0 \<Longrightarrow>
   \<exists>bl'. shift_blocks n i idx bl = Inr bl' \<and> length bl' = length bl \<and>
     (\<forall>j < length bl. bl' ! j = (if i \<le> j \<and> j < i + n then bl ! (j + idx + 1) else bl ! j))"
proof (induction n arbitrary: i bl)
  case (Suc n)
  let ?bl = "bl[i := bl ! (i + idx + 1)]"
  from Suc.IH[of "Suc i" ?bl] Suc.prems obtain bl' where
    "shift_blocks n (Suc i) idx ?bl = Inr bl'" "length bl' = length bl"
    "\<forall>j < length bl. bl' ! j = (if Suc i \<le> j \<and> j < Suc i + n then ?bl ! (j + idx + 1) else ?bl ! j)" by auto
  then show ?case using Suc.prems by (auto simp: nth_list_update)
qed auto

lemma shift_blocks_panic:
  "length bl \<le> i + n + idx \<Longrightarrow> 0 < n \<Longrightarrow> \<exists>p. shift_blocks n i idx bl = Inl (Panic p)"
proof (induction n arbitrary: i bl)
  case (Suc n)
  show ?case
  proof (cases "i + idx + 1 < length bl")
    case True
    then have "0 < n" using Suc.prems by (cases n) auto
    with Suc.IH[of "bl[i := bl ! (i + idx + 1)]" "Suc i"] Suc.prems True show ?thesis by simp
  qed simp
qed simp

text \<open>
  What \<open>IgnoreSeqBefore\<close> does to an aggregation whose first \<open>k\<close> blocks are to be ignored: it is right when nothing or everything is, and when more
  than half of the blocks are and the list is long enough. Otherwise an ignored block stays in place of the last one, or the list
  is read out of range.
\<close>

theorem agg_IgnoreSeqBefore_ok:
  assumes ok: "agg_ok a" and k: "ignored seq a = k"
  shows "k = 0 \<Longrightarrow> agg_IgnoreSeqBefore seq a = Inr a"
    and "k = ag_size a \<Longrightarrow> \<exists>a'. agg_IgnoreSeqBefore seq a = Inr a' \<and> agg_ok a' \<and> agg_blocks a' = []"
    and "k < ag_size a \<Longrightarrow> ag_size a < 2 * k \<Longrightarrow> 2 * k - 1 \<le> ag_maxBlockNum a \<Longrightarrow>
      \<exists>a'. agg_IgnoreSeqBefore seq a = Inr a' \<and> agg_ok a' \<and> agg_blocks a' = drop k (agg_blocks a)"
    and "0 < k \<Longrightarrow> 2 * k \<le> ag_size a \<Longrightarrow>
      \<exists>a'. agg_IgnoreSeqBefore seq a = Inr a' \<and> length (agg_blocks a') = ag_size a - k \<and>
        agg_blocks a' ! (k - 1) = agg_blocks a ! (k - 1) \<and> tb_Sequence (agg_blocks a' ! (k - 1)) < seq"
    and "k < ag_size a \<Longrightarrow> ag_maxBlockNum a < 2 * k - 1 \<Longrightarrow> \<exists>p. agg_IgnoreSeqBefore seq a = Inl (Panic p)"
proof -
  have len: "length (agg_blocks a) = ag_size a" by (rule length_agg_blocks[OF ok])
  have sz: "ag_size a \<le> length (ag_blockList a)" and mx: "length (ag_blockList a) = ag_maxBlockNum a" using ok by (simp_all add: agg_ok_def)
  have idx: "last_before seq (take (ag_size a) (ag_blockList a)) 0 (-1) = int k - 1"
    using k by (auto simp: last_before_eq agg_blocks_def)
  let ?a = "a\<lparr>ag_size := ag_size a - k\<rparr>"
  have eq: "agg_IgnoreSeqBefore seq a =
      (if k = 0 then Inr a else if ag_size a \<le> k then Inr ?a
       else map_sum id (\<lambda>bl. set_blockList bl ?a) (shift_blocks (k - 1) 0 (k - 1) (ag_blockList a)))"
    by (auto simp: agg_IgnoreSeqBefore_def idx Let_def nat_diff_distrib)
  show "k = 0 \<Longrightarrow> agg_IgnoreSeqBefore seq a = Inr a" by (simp add: eq)
  show "\<exists>a'. agg_IgnoreSeqBefore seq a = Inr a' \<and> agg_ok a' \<and> agg_blocks a' = []" if "k = ag_size a"
    using that ok by (auto simp: eq agg_ok_def agg_blocks_def)
  have shift: "\<exists>bl'. agg_IgnoreSeqBefore seq a = Inr (set_blockList bl' ?a) \<and> length bl' = length (ag_blockList a) \<and>
      (\<forall>j < length bl'. bl' ! j = (if j < k - 1 then ag_blockList a ! (j + k) else ag_blockList a ! j))"
    if "0 < k" "k < ag_size a" "2 * k - 1 \<le> ag_maxBlockNum a"
  proof -
    have "0 + (k - 1) + (k - 1) < length (ag_blockList a) \<or> k - 1 = 0" using that mx by auto
    from shift_blocks_ok[OF this] obtain bl' where "shift_blocks (k - 1) 0 (k - 1) (ag_blockList a) = Inr bl'"
      "length bl' = length (ag_blockList a)"
      "\<forall>j < length (ag_blockList a). bl' ! j = (if 0 \<le> j \<and> j < 0 + (k - 1) then ag_blockList a ! (j + (k - 1) + 1) else ag_blockList a ! j)" by blast
    moreover have "j + (k - 1) + 1 = j + k" for j using that by simp
    ultimately show ?thesis using that by (intro exI[of _ bl']) (auto simp: eq)
  qed
  show "\<exists>a'. agg_IgnoreSeqBefore seq a = Inr a' \<and> agg_ok a' \<and> agg_blocks a' = drop k (agg_blocks a)"
    if "k < ag_size a" "ag_size a < 2 * k" "2 * k - 1 \<le> ag_maxBlockNum a"
  proof -
    from shift[OF _ that(1,3)] that obtain bl' where bl: "agg_IgnoreSeqBefore seq a = Inr (set_blockList bl' ?a)"
      "length bl' = length (ag_blockList a)" "\<forall>j < length bl'. bl' ! j = (if j < k - 1 then ag_blockList a ! (j + k) else ag_blockList a ! j)" by auto
    have "take (ag_size a - k) bl' = drop k (agg_blocks a)"
      using bl(2,3) that sz by (intro nth_equalityI) (auto simp: agg_blocks_def add.commute)
    with bl that ok show ?thesis by (auto simp: agg_ok_def agg_blocks_def)
  qed
  show "\<exists>a'. agg_IgnoreSeqBefore seq a = Inr a' \<and> length (agg_blocks a') = ag_size a - k \<and>
        agg_blocks a' ! (k - 1) = agg_blocks a ! (k - 1) \<and> tb_Sequence (agg_blocks a' ! (k - 1)) < seq" if k0: "0 < k" "2 * k \<le> ag_size a"
  proof -
    have le: "k < ag_size a" "2 * k - 1 \<le> ag_maxBlockNum a" using that sz mx by auto
    from shift[OF k0(1) le] obtain bl' where bl: "agg_IgnoreSeqBefore seq a = Inr (set_blockList bl' ?a)"
      "length bl' = length (ag_blockList a)" "\<forall>j < length bl'. bl' ! j = (if j < k - 1 then ag_blockList a ! (j + k) else ag_blockList a ! j)" by blast
    have "tb_Sequence (agg_blocks a ! (k - 1)) < seq"
      using k k0 nth_mem[of "k - 1" "takeWhile (\<lambda>b. tb_Sequence b < seq) (agg_blocks a)"]
      by (auto simp: takeWhile_nth dest: set_takeWhileD)
    with bl that sz show ?thesis by (auto simp: agg_blocks_def)
  qed
  show "\<exists>p. agg_IgnoreSeqBefore seq a = Inl (Panic p)" if "k < ag_size a" "ag_maxBlockNum a < 2 * k - 1"
  proof -
    have "length (ag_blockList a) \<le> 0 + (k - 1) + (k - 1)" "0 < k - 1" using that sz mx by auto
    from shift_blocks_panic[OF this] obtain p where "shift_blocks (k - 1) 0 (k - 1) (ag_blockList a) = Inl (Panic p)" by blast
    then show ?thesis using that by (auto simp: eq)
  qed
qed


end
