(* ===== verification/Tlog_Player.thy ===== *)
theory Tlog_Player
  imports Tlog_Aggregation
begin

text \<open>
  Replaying transactions (\<open>tlog/tlogclient/player/player.go\<close>) between the limits of \<open>tlog/tlogclient/decoder/limiter.go\<close>.
  The aggregations come from walking the 0-stor, as a list of results that ends at the first error. A callback acts on a state
  of its own.
\<close>

section \<open>Limiters\<close>

record Limiter =
  StartAgg :: "TlogAggregation \<Rightarrow> TlogBlock list \<Rightarrow> bool"
  EndAgg :: "TlogAggregation \<Rightarrow> TlogBlock list \<Rightarrow> bool"
  StartBlock :: "TlogBlock \<Rightarrow> bool"
  EndBlock :: "TlogBlock \<Rightarrow> bool"
  FromEpoch :: int
  ToEpoch :: int

text \<open>The methods on aggregations are only called on non-empty block lists.\<close>

definition NewLimitByTimestamp :: "int \<Rightarrow> int \<Rightarrow> int \<Rightarrow> Limiter" where
  "NewLimitByTimestamp now startTs endTs0 =
     (let endTs = (if endTs0 = 0 then now else endTs0)
      in \<lparr>StartAgg = (\<lambda>agg blocks. if startTs = 0 then False
            else tb_Timestamp (last blocks) \<ge> startTs \<and> tb_Timestamp (hd blocks) < startTs),
          EndAgg = (\<lambda>agg blocks. if endTs = 0 then False
            else tb_Timestamp (last blocks) > endTs \<and> tb_Timestamp (hd blocks) \<le> endTs),
          StartBlock = (\<lambda>block. if startTs = 0 then True else tb_Timestamp block \<ge> startTs),
          EndBlock = (\<lambda>block. if endTs = 0 then False else tb_Timestamp block > endTs),
          FromEpoch = startTs, ToEpoch = endTs\<rparr>)"

definition NewLimitBySequence :: "int \<Rightarrow> uint64 \<Rightarrow> uint64 \<Rightarrow> Limiter" where
  "NewLimitBySequence now startSeq endSeq =
     \<lparr>StartAgg = (\<lambda>agg blocks. if startSeq = 0 then False
        else tb_Sequence (last blocks) \<ge> startSeq \<and> tb_Sequence (hd blocks) < startSeq),
      EndAgg = (\<lambda>agg blocks. if endSeq = 0 then False
        else tb_Sequence (last blocks) > endSeq \<and> tb_Sequence (hd blocks) \<le> endSeq),
      StartBlock = (\<lambda>block. if startSeq = 0 then True else tb_Sequence block \<ge> startSeq),
      EndBlock = (\<lambda>block. if endSeq = 0 then False else tb_Sequence block > endSeq),
      FromEpoch = 0, ToEpoch = now\<rparr>"

section \<open>The player\<close>

type_synonym 'c replay_cb = "uint64 \<Rightarrow> 'c \<Rightarrow> error option \<times> 'c"

definition replay_block :: "'s BlockStorage \<Rightarrow> TlogBlock \<Rightarrow> 's \<Rightarrow> error option \<times> 's" where
  "replay_block bs block s =
     (if tb_Operation block = OpSet
      then case tb_Data block of
             Inl e \<Rightarrow> (Some e, s)
           | Inr data \<Rightarrow> SetBlock bs (tb_Index block) data s
      else if tb_Operation block = OpDelete then DeleteBlock bs (tb_Index block) s
      else (None, s))"

text \<open>The loop of \<open>ReplayAggregationWithCallback\<close>, from block \<open>i\<close> on, with \<open>n\<close> blocks to go.\<close>

fun replay_blocks :: "'s BlockStorage \<Rightarrow> Limiter \<Rightarrow> 'c replay_cb option \<Rightarrow> TlogBlock list \<Rightarrow> nat \<Rightarrow> nat \<Rightarrow> uint64 \<Rightarrow> 's \<times> 'c \<Rightarrow>
    (uint64 \<times> error option) \<times> 's \<times> 'c" where
  "replay_blocks bs lmt onReplayCb blocks 0 i seq (s, c) = ((seq, None), s, c)"
| "replay_blocks bs lmt onReplayCb blocks (Suc n) i seq (s, c) =
     (if i \<ge> length blocks then ((seq, Some (Panic ''list index out of bounds'')), s, c)
      else
        let block = blocks ! i
        in if \<not> StartBlock lmt block then replay_blocks bs lmt onReplayCb blocks n (Suc i) seq (s, c)
           else if EndBlock lmt block then ((seq, None), s, c)
           else
             let seq1 = tb_Sequence block
             in case replay_block bs block s of
                  (Some e, s1) \<Rightarrow> ((seq1 - 1, Some e), s1, c)
                | (None, s1) \<Rightarrow>
                    (case onReplayCb of
                       None \<Rightarrow> replay_blocks bs lmt onReplayCb blocks n (Suc i) seq1 (s1, c)
                     | Some cb \<Rightarrow>
                         (case Flush bs s1 of
                            (Some e, s2) \<Rightarrow> ((seq1 - 1, Some e), s2, c)
                          | (None, s2) \<Rightarrow>
                              (case cb seq1 c of
                                 (Some e, c1) \<Rightarrow> ((seq1, Some e), s2, c1)
                               | (None, c1) \<Rightarrow> replay_blocks bs lmt onReplayCb blocks n (Suc i) seq1 (s2, c1)))))"

text \<open>The size is converted to a signed integer: a size of \<open>2 ^ 63\<close> or more is negative and the loop does not run.\<close>

definition ReplayAggregationWithCallback :: "'s BlockStorage \<Rightarrow> TlogAggregation \<Rightarrow> Limiter \<Rightarrow> 'c replay_cb option \<Rightarrow> 's \<times> 'c \<Rightarrow>
    (uint64 \<times> error option) \<times> 's \<times> 'c" where
  "ReplayAggregationWithCallback bs agg lmt onReplayCb st =
     replay_blocks bs lmt onReplayCb (ta_Blocks agg) (nat (sint (ta_Size agg))) 0 0 st"

definition ReplayAggregation :: "'s BlockStorage \<Rightarrow> TlogAggregation \<Rightarrow> Limiter \<Rightarrow> 's \<times> 'c \<Rightarrow> (uint64 \<times> error option) \<times> 's \<times> 'c" where
  "ReplayAggregation bs agg lmt st =
     (case ReplayAggregationWithCallback bs agg lmt None st of
        ((n, Some e), st1) \<Rightarrow> ((0, Some e), st1)
      | ((n, None), (s1, c1)) \<Rightarrow> (let (e, s2) = Flush bs s1 in ((n, e), s2, c1)))"

fun replay_walk :: "'s BlockStorage \<Rightarrow> Limiter \<Rightarrow> 'c replay_cb option \<Rightarrow> TlogAggregation result list \<Rightarrow> uint64 \<Rightarrow> 's \<times> 'c \<Rightarrow>
    (uint64 \<times> error option) \<times> 's \<times> 'c" where
  "replay_walk bs lmt onReplayCb [] lastSeq (s, c) = (let (e, s1) = Flush bs s in ((lastSeq, e), s1, c))"
| "replay_walk bs lmt onReplayCb (wr # wrs) lastSeq st =
     (case wr of
        Inl e \<Rightarrow> ((lastSeq, Some e), st)
      | Inr agg \<Rightarrow>
          (case ReplayAggregationWithCallback bs agg lmt onReplayCb st of
             ((lastSeq1, Some e), st1) \<Rightarrow> ((lastSeq1, Some e), st1)
           | ((lastSeq1, None), st1) \<Rightarrow> replay_walk bs lmt onReplayCb wrs lastSeq1 st1))"

definition ReplayWithCallback :: "'s BlockStorage \<Rightarrow> (int \<Rightarrow> int \<Rightarrow> TlogAggregation result list) \<Rightarrow> Limiter \<Rightarrow> 'c replay_cb option \<Rightarrow> 's \<times> 'c \<Rightarrow>
    (uint64 \<times> error option) \<times> 's \<times> 'c" where
  "ReplayWithCallback bs walk lmt onReplayCb st = replay_walk bs lmt onReplayCb (walk (FromEpoch lmt) (ToEpoch lmt)) 0 st"

definition Replay :: "'s BlockStorage \<Rightarrow> (int \<Rightarrow> int \<Rightarrow> TlogAggregation result list) \<Rightarrow> Limiter \<Rightarrow> 's \<times> 'c \<Rightarrow> (uint64 \<times> error option) \<times> 's \<times> 'c" where
  "Replay bs walk lmt st = ReplayWithCallback bs walk lmt None st"

definition player_Close :: "'s BlockStorage \<Rightarrow> ('c \<Rightarrow> 'c) \<Rightarrow> 's \<times> 'c \<Rightarrow> error option \<times> 's \<times> 'c" where
  "player_Close bs closers st = (let (s, c) = st; (e, s1) = Close bs s in (e, s1, closers c))"

section \<open>What is replayed\<close>

definition selected :: "Limiter \<Rightarrow> TlogBlock list \<Rightarrow> TlogBlock list" where
  "selected lmt blocks = takeWhile (\<lambda>b. \<not> EndBlock lmt b) (filter (StartBlock lmt) blocks)"

definition apply_block :: "TlogBlock \<Rightarrow> (int \<Rightarrow> bytes option) \<Rightarrow> int \<Rightarrow> bytes option" where
  "apply_block b m =
     (if tb_Operation b = OpSet then m(tb_Index b := (case tb_Data b of Inr d \<Rightarrow> stored d | Inl e \<Rightarrow> None))
      else if tb_Operation b = OpDelete then m(tb_Index b := None) else m)"

definition block_ok :: "int \<Rightarrow> (bytes \<Rightarrow> bool) \<Rightarrow> TlogBlock \<Rightarrow> bool" where
  "block_ok blockSize valid b \<longleftrightarrow> 0 \<le> tb_Index b \<and>
     (tb_Operation b = OpSet \<longrightarrow> (\<exists>d. tb_Data b = Inr d \<and> int (length d) = blockSize \<and> valid d))"

definition agg_wf :: "TlogAggregation \<Rightarrow> bool" where
  "agg_wf agg \<longleftrightarrow> unat (ta_Size agg) \<le> length (ta_Blocks agg) \<and> length (ta_Blocks agg) < 2 ^ 31"

definition used_blocks :: "TlogAggregation \<Rightarrow> TlogBlock list" where
  "used_blocks agg = take (unat (ta_Size agg)) (ta_Blocks agg)"

definition last_seq :: "uint64 \<Rightarrow> TlogBlock list \<Rightarrow> uint64" where
  "last_seq seq bs = (if bs = [] then seq else tb_Sequence (last bs))"

lemma last_seq_Cons: "last_seq seq (b # bs) = last_seq (tb_Sequence b) bs"
  by (simp add: last_seq_def)

lemma selected_Cons:
  "selected lmt (b # bs) =
     (if StartBlock lmt b then if EndBlock lmt b then [] else b # selected lmt bs else selected lmt bs)"
  by (simp add: selected_def)

lemma sint_small: "unat w < 2 ^ 31 \<Longrightarrow> nat (sint w) = unat w" for w :: uint64
proof -
  assume "unat w < 2 ^ 31"
  then have "int (unat w) < int (2 ^ 31)" by (simp only: of_nat_less_iff)
  then have "uint w < 2 ^ 63" by simp
  then have "sint w = uint w" by (subst sint_uint, intro signed_take_bit_int_eq_self order_trans[OF _ uint_ge_0]) simp_all
  then show ?thesis by simp
qed

text \<open>A callback that always succeeds folds over the sequences replayed.\<close>

definition cb_ok :: "'c replay_cb option \<Rightarrow> bool" where
  "cb_ok cb \<longleftrightarrow> (\<forall>f seq c. cb = Some f \<longrightarrow> fst (f seq c) = None)"

definition cb_run :: "'c replay_cb option \<Rightarrow> TlogBlock list \<Rightarrow> 'c \<Rightarrow> 'c" where
  "cb_run cb bs c = (case cb of None \<Rightarrow> c | Some f \<Rightarrow> fold (\<lambda>b c. snd (f (tb_Sequence b) c)) bs c)"

context block_storage
begin

lemma replay_block_ok:
  assumes "inv s" and "block_ok blockSize valid b"
  shows "\<exists>s'. replay_block bs b s = (None, s') \<and> inv s' \<and> content s' = apply_block b (content s)"
proof -
  have i: "0 \<le> tb_Index b" using assms(2) by (simp add: block_ok_def)
  consider "tb_Operation b = OpSet" | "tb_Operation b = OpDelete" "tb_Operation b \<noteq> OpSet" | "tb_Operation b \<noteq> OpSet" "tb_Operation b \<noteq> OpDelete" by blast
  then show ?thesis
  proof cases
    case 1
    then obtain d where "tb_Data b = Inr d" "int (length d) = blockSize" "valid d" using assms(2) by (auto simp: block_ok_def)
    with 1 set_block[OF assms(1) i, of d] show ?thesis by (auto simp: replay_block_def apply_block_def)
  next
    case 2
    with delete_block[OF assms(1) i] show ?thesis by (auto simp: replay_block_def apply_block_def)
  qed (use assms in \<open>simp add: replay_block_def apply_block_def\<close>)
qed

lemma replay_blocks_ok:
  assumes "inv s" and "i + n \<le> length blocks" and "\<forall>b \<in> set (take n (drop i blocks)). block_ok blockSize valid b" and "cb_ok cb"
  shows "\<exists>s'. replay_blocks bs lmt cb blocks n i seq (s, c) =
      ((last_seq seq (selected lmt (take n (drop i blocks))), None), s', cb_run cb (selected lmt (take n (drop i blocks))) c) \<and>
    inv s' \<and> content s' = fold apply_block (selected lmt (take n (drop i blocks))) (content s)"
  using assms
proof (induction n arbitrary: i seq s c)
  case 0
  then show ?case by (auto simp: selected_def last_seq_def cb_run_def split: option.splits)
next
  case (Suc n)
  let ?b = "blocks ! i"
  have d: "take (Suc n) (drop i blocks) = ?b # take n (drop (Suc i) blocks)"
    using Suc.prems(2) by (simp add: Cons_nth_drop_Suc[symmetric])
  have lt: "i < length blocks" and le: "Suc i + n \<le> length blocks" using Suc.prems(2) by simp_all
  have ok: "block_ok blockSize valid ?b" and oks: "\<forall>b \<in> set (take n (drop (Suc i) blocks)). block_ok blockSize valid b"
    using Suc.prems(3) unfolding d by simp_all
  show ?case
  proof (cases "StartBlock lmt ?b \<and> \<not> EndBlock lmt ?b")
    case True
    from replay_block_ok[OF Suc.prems(1) ok] obtain s1 where
      s1: "replay_block bs ?b s = (None, s1)" "inv s1" "content s1 = apply_block ?b (content s)" by blast
    show ?thesis
    proof (cases cb)
      case None
      from Suc.IH[OF s1(2) le oks Suc.prems(4), of "tb_Sequence ?b" c] s1 show ?thesis
        unfolding d using True lt None by (simp add: Let_def selected_Cons last_seq_Cons cb_run_def)
    next
      case (Some f)
      from flush[OF s1(2)] obtain s2 where s2: "Flush bs s1 = (None, s2)" "inv s2" "content s2 = content s1" by blast
      obtain c1 where c1: "f (tb_Sequence ?b) c = (None, c1)"
        using Suc.prems(4) Some by (metis cb_ok_def prod.collapse)
      from Suc.IH[OF s2(2) le oks Suc.prems(4), of "tb_Sequence ?b" c1] s1 s2 c1 show ?thesis
        unfolding d using True lt Some by (simp add: Let_def selected_Cons last_seq_Cons cb_run_def)
    qed
  next
    case False
    with Suc.IH[OF Suc.prems(1) le oks Suc.prems(4), of seq c] Suc.prems(1) lt show ?thesis
      unfolding d by (cases "StartBlock lmt ?b") (auto simp: Let_def selected_Cons last_seq_def cb_run_def split: option.splits)
  qed
qed

lemma ReplayAggregationWithCallback_ok:
  assumes "inv s" and "agg_wf agg" and "\<forall>b \<in> set (used_blocks agg). block_ok blockSize valid b" and "cb_ok cb"
  shows "\<exists>s'. ReplayAggregationWithCallback bs agg lmt cb (s, c) =
      ((last_seq 0 (selected lmt (used_blocks agg)), None), s', cb_run cb (selected lmt (used_blocks agg)) c) \<and>
    inv s' \<and> content s' = fold apply_block (selected lmt (used_blocks agg)) (content s)"
proof -
  have n: "nat (sint (ta_Size agg)) = unat (ta_Size agg)" using assms(2) by (intro sint_small) (simp add: agg_wf_def)
  from replay_blocks_ok[OF assms(1), of 0 "unat (ta_Size agg)" "ta_Blocks agg" cb lmt 0 c] assms show ?thesis
    by (simp add: ReplayAggregationWithCallback_def n used_blocks_def agg_wf_def)
qed

text \<open>
  Replaying a walk applies the selected blocks of all its aggregations in order; the sequence it returns is that of the last aggregation,
  and 0 when nothing of this aggregation is selected.
\<close>

theorem replay_walk_ok:
  assumes "inv s" and "\<forall>agg \<in> set aggs. agg_wf agg \<and> (\<forall>b \<in> set (used_blocks agg). block_ok blockSize valid b)" and "cb_ok cb"
  shows "\<exists>s'. replay_walk bs lmt cb (map Inr aggs) seq (s, c) =
      ((if aggs = [] then seq else last_seq 0 (selected lmt (used_blocks (last aggs))), None), s',
       cb_run cb (concat (map (selected lmt \<circ> used_blocks) aggs)) c) \<and>
    inv s' \<and> content s' = fold apply_block (concat (map (selected lmt \<circ> used_blocks) aggs)) (content s)"
  using assms
proof (induction aggs arbitrary: seq s c)
  case Nil
  then show ?case using flush[of s] by (auto simp: cb_run_def split: option.splits)
next
  case (Cons agg aggs)
  from ReplayAggregationWithCallback_ok[OF Cons.prems(1) _ _ Cons.prems(3), of agg lmt c] Cons.prems(2) obtain s1 where
    s1: "ReplayAggregationWithCallback bs agg lmt cb (s, c) =
      ((last_seq 0 (selected lmt (used_blocks agg)), None), s1, cb_run cb (selected lmt (used_blocks agg)) c)"
    "inv s1" "content s1 = fold apply_block (selected lmt (used_blocks agg)) (content s)" by auto
  from Cons.IH[OF s1(2) _ Cons.prems(3), of "last_seq 0 (selected lmt (used_blocks agg))" "cb_run cb (selected lmt (used_blocks agg)) c"]
    Cons.prems(2) s1 show ?case by (cases aggs) (auto simp: cb_run_def split: option.splits)
qed

end

end
