(* ===== verification/Tlog_Stor.thy ===== *)
theory Tlog_Stor
  imports Tlog_Player
begin

text \<open>
  The client of the object store in which the tlog server keeps aggregations (\<open>tlog/stor\<close>). Objects form a list linked by the
  \<open>Next\<close> keys of their metadata; the first key of a vdisk, and now and then the last, are in etcd. The 0-stor and etcd clients are other
  code: \<open>ZeroStor\<close> is what the client uses of them, with a world \<open>'w\<close>. Nil keys are empty lists.
\<close>

section \<open>State\<close>

record Meta =
  md_Key :: bytes
  md_Epoch :: int
  md_Previous :: bytes
  md_Next :: bytes

definition new_Meta :: "bytes \<Rightarrow> int \<Rightarrow> Meta" where
  "new_Meta key epoch = \<lparr>md_Key = key, md_Epoch = epoch, md_Previous = [], md_Next = []\<rparr>"

record stor_walk_result =
  sw_Key :: bytes
  sw_Meta :: "Meta option"
  sw_Data :: bytes
  sw_RefList :: "string list"
  sw_Error :: "error option"

record 'w ZeroStor =
  zs_WriteWithMeta :: "bytes \<Rightarrow> bytes \<Rightarrow> bytes \<Rightarrow> Meta option \<Rightarrow> Meta option \<Rightarrow> string list \<Rightarrow> 'w \<Rightarrow> Meta option result \<times> 'w"
  zs_GetMeta :: "bytes \<Rightarrow> 'w \<Rightarrow> Meta result"
  zs_Read :: "bytes \<Rightarrow> 'w \<Rightarrow> (bytes \<times> string list) result"
  zs_Walk :: "bytes \<Rightarrow> int \<Rightarrow> int \<Rightarrow> 'w \<Rightarrow> stor_walk_result list"
  zs_DeleteWithMeta :: "Meta option \<Rightarrow> 'w \<Rightarrow> error option \<times> 'w"
  zs_RemoveReferenceList :: "bytes \<Rightarrow> string list \<Rightarrow> 'w \<Rightarrow> error option \<times> 'w"
  zs_MetaDelete :: "bytes \<Rightarrow> 'w \<Rightarrow> error option \<times> 'w"
  etcd_Get :: "string \<Rightarrow> 'w \<Rightarrow> bytes list result"
  etcd_Put :: "string \<Rightarrow> bytes \<Rightarrow> 'w \<Rightarrow> error option \<times> 'w"
  etcd_Delete :: "string \<Rightarrow> 'w \<Rightarrow> error option \<times> 'w"

record stor_Client =
  sc_vdiskID :: string
  sc_firstMetaKey :: bytes
  sc_lastMetaKey :: bytes
  sc_lastSequence :: uint64
  sc_lastMd :: "Meta option"
  sc_refList :: "string list"
  sc_storeNum :: int

section \<open>Metadata\<close>

definition firstMetaEtcdKey :: "stor_Client \<Rightarrow> string" where
  "firstMetaEtcdKey c = ''tlog:'' @ sc_vdiskID c @ '':first_meta''"

definition lastMetaEtcdKey :: "stor_Client \<Rightarrow> string" where
  "lastMetaEtcdKey c = ''tlog:'' @ sc_vdiskID c @ '':last_meta''"

definition MetaClient_GetMeta :: "'w ZeroStor \<Rightarrow> string \<Rightarrow> 'w \<Rightarrow> bytes result" where
  "MetaClient_GetMeta zs key w = map_sum id (\<lambda>kvs. if length kvs \<noteq> 1 then [] else hd kvs) (etcd_Get zs key w)"

definition MetaClient_SaveMeta :: "'w ZeroStor \<Rightarrow> string \<Rightarrow> bytes \<Rightarrow> 'w \<Rightarrow> error option \<times> 'w" where
  "MetaClient_SaveMeta zs key val w = etcd_Put zs key val w"

definition deleteMeta :: "'w ZeroStor \<Rightarrow> string \<Rightarrow> 'w \<Rightarrow> error option \<times> 'w" where
  "deleteMeta zs key w = etcd_Delete zs key w"

definition getFirstMetaKey :: "'w ZeroStor \<Rightarrow> stor_Client \<Rightarrow> 'w \<Rightarrow> bytes result" where
  "getFirstMetaKey zs c w = MetaClient_GetMeta zs (firstMetaEtcdKey c) w"

definition saveFirstMetaKey :: "'w ZeroStor \<Rightarrow> stor_Client \<Rightarrow> 'w \<Rightarrow> error option \<times> 'w" where
  "saveFirstMetaKey zs c w = MetaClient_SaveMeta zs (firstMetaEtcdKey c) (sc_firstMetaKey c) w"

definition getLastMetaKey :: "'w ZeroStor \<Rightarrow> stor_Client \<Rightarrow> 'w \<Rightarrow> bytes result" where
  "getLastMetaKey zs c w = MetaClient_GetMeta zs (lastMetaEtcdKey c) w"

definition saveLastMetaKey :: "'w ZeroStor \<Rightarrow> stor_Client \<Rightarrow> 'w \<Rightarrow> error option \<times> 'w" where
  "saveLastMetaKey zs c w = MetaClient_SaveMeta zs (lastMetaEtcdKey c) (sc_lastMetaKey c) w"

section \<open>Storing\<close>

definition lastMetaKeyStoreInterval :: int where "lastMetaKeyStoreInterval = 25"

text \<open>The first key is saved with the very first data, the last key every 25th time.\<close>

definition keep_first :: "'w ZeroStor \<Rightarrow> bytes \<Rightarrow> stor_Client \<Rightarrow> 'w \<Rightarrow> error option \<times> stor_Client \<times> 'w" where
  "keep_first zs key c w =
     (if sc_firstMetaKey c = []
      then let c1 = c\<lparr>sc_firstMetaKey := key\<rparr>; (e, w2) = saveFirstMetaKey zs c1 w in (e, c1, w2)
      else (None, c, w))"

definition keep_last :: "'w ZeroStor \<Rightarrow> stor_Client \<Rightarrow> 'w \<Rightarrow> error option \<times> stor_Client \<times> 'w" where
  "keep_last zs c w =
     (let c1 = c\<lparr>sc_storeNum := sc_storeNum c + 1\<rparr>
      in if sc_storeNum c1 mod lastMetaKeyStoreInterval = 0
         then let (e, w1) = saveLastMetaKey zs c1 w in (e, c1, w1)
         else (None, c1, w))"

definition processStoreData :: "'w ZeroStor \<Rightarrow> (bytes \<Rightarrow> bytes) \<Rightarrow> bytes \<Rightarrow> uint64 \<Rightarrow> int \<Rightarrow> stor_Client \<Rightarrow> 'w \<Rightarrow> error option \<times> stor_Client \<times> 'w" where
  "processStoreData zs hasher data lastSequence timestamp c w =
     (let key = hasher (bytes_of_string (sc_vdiskID c) @ data);
          initialMeta = new_Meta key timestamp
      in case zs_WriteWithMeta zs key data (sc_lastMetaKey c) (sc_lastMd c) (Some initialMeta) (sc_refList c) w of
           (Inl e, w1) \<Rightarrow> (Some e, c, w1)
         | (Inr None, w1) \<Rightarrow> (Some (ErrOther ''empty meta returned by stor client''), c, w1)
         | (Inr (Some lastMd), w1) \<Rightarrow>
             (case keep_first zs key c w1 of
                (Some e, c1, w2) \<Rightarrow> (Some e, c1, w2)
              | (None, c1, w2) \<Rightarrow>
                  keep_last zs (c1\<lparr>sc_lastMd := Some lastMd, sc_lastMetaKey := key, sc_lastSequence := lastSequence\<rparr>) w2))"

definition ProcessStoreAgg :: "'w ZeroStor \<Rightarrow> (bytes \<Rightarrow> bytes) \<Rightarrow> (TlogAggregation \<Rightarrow> bytes result) \<Rightarrow> int \<Rightarrow> Aggregation \<Rightarrow> stor_Client \<times> 'w \<Rightarrow>
    bytes result \<times> Aggregation \<times> stor_Client \<times> 'w" where
  "ProcessStoreAgg zs hasher enc timestamp agg st =
     (let (c, w) = st
      in case agg_Encode enc (agg_SetTimestamp timestamp agg) of
           (Inl e, agg1) \<Rightarrow> (Inl e, agg1, c, w)
         | (Inr data, agg1) \<Rightarrow>
             (case processStoreData zs hasher data (LastSequence agg1) timestamp c w of
                (Some e, c1, w1) \<Rightarrow> (Inl e, agg1, c1, w1)
              | (None, c1, w1) \<Rightarrow> (Inr data, agg1, c1, w1)))"

definition stor_Store :: "'w ZeroStor \<Rightarrow> bytes \<Rightarrow> bytes \<Rightarrow> Meta option \<Rightarrow> Meta option \<Rightarrow> stor_Client \<Rightarrow> 'w \<Rightarrow> (Meta option \<times> error option) \<times> stor_Client \<times> 'w" where
  "stor_Store zs key val prevMd md c w =
     (let prevKey = (case prevMd of None \<Rightarrow> [] | Some m \<Rightarrow> md_Key m)
      in case zs_WriteWithMeta zs key val prevKey prevMd md (sc_refList c) w of
           (Inl e, w1) \<Rightarrow> ((None, Some e), c, w1)
         | (Inr md1, w1) \<Rightarrow>
             if prevMd \<noteq> None then ((md1, None), c, w1)
             else let c1 = c\<lparr>sc_firstMetaKey := key\<rparr>; (e, w2) = saveFirstMetaKey zs c1 w1 in ((md1, e), c1, w2))"

definition SetFirstMetaKey :: "'w ZeroStor \<Rightarrow> bytes \<Rightarrow> stor_Client \<Rightarrow> 'w \<Rightarrow> error option \<times> stor_Client \<times> 'w" where
  "SetFirstMetaKey zs key c w = (let c1 = c\<lparr>sc_firstMetaKey := key\<rparr>; (e, w1) = saveFirstMetaKey zs c1 w in (e, c1, w1))"

definition SetLastMetaKey :: "'w ZeroStor \<Rightarrow> bytes \<Rightarrow> stor_Client \<Rightarrow> 'w \<Rightarrow> error option \<times> stor_Client \<times> 'w" where
  "SetLastMetaKey zs key c w = (let c1 = c\<lparr>sc_lastMetaKey := key\<rparr>; (e, w1) = saveLastMetaKey zs c1 w in (e, c1, w1))"

definition LastHash :: "stor_Client \<Rightarrow> bytes" where "LastHash c = sc_lastMetaKey c"

section \<open>Loading\<close>

text \<open>The loop follows the keys until one is nil; on a cyclic list it does not return.\<close>

partial_function (option) findLastMeta :: "'w ZeroStor \<Rightarrow> 'w \<Rightarrow> bytes \<Rightarrow> Meta result option" where
  "findLastMeta zs w key =
     (case zs_GetMeta zs key w of
        Inl e \<Rightarrow> Some (Inl e)
      | Inr md \<Rightarrow> if md_Next md = [] then Some (Inr md) else findLastMeta zs w (md_Next md))"

definition ErrNoFlushedBlock :: error where "ErrNoFlushedBlock = ErrOther ''no flushed block''"

text \<open>The sequence is that of the last block of the list, used or not.\<close>

definition LoadLastSequence :: "'w ZeroStor \<Rightarrow> (bytes \<Rightarrow> TlogAggregation result) \<Rightarrow> stor_Client \<Rightarrow> 'w \<Rightarrow> (uint64 result \<times> stor_Client) option" where
  "LoadLastSequence zs dec c w =
     (if sc_firstMetaKey c = [] then Some (Inl ErrNoFlushedBlock, c)
      else case (if length (sc_lastMetaKey c) = 0
                 then map_sum id (\<lambda>k. c\<lparr>sc_lastMetaKey := if k = [] then sc_firstMetaKey c else k\<rparr>) (getLastMetaKey zs c w)
                 else Inr c) of
             Inl e \<Rightarrow> Some (Inl e, c)
           | Inr c1 \<Rightarrow>
               map_option (\<lambda>r.
                 case r of
                   Inl e \<Rightarrow> (Inl e, c1)
                 | Inr lastMeta \<Rightarrow>
                     let c2 = c1\<lparr>sc_lastMetaKey := md_Key lastMeta\<rparr>
                     in case zs_Read zs (sc_lastMetaKey c2) w of
                          Inl e \<Rightarrow> (Inl e, c2)
                        | Inr (data, refs) \<Rightarrow>
                            (case dec data of
                               Inl e \<Rightarrow> (Inl e, c2)
                             | Inr agg \<Rightarrow>
                                 if length (ta_Blocks agg) = 0 then (Inl (ErrOther ''empty blocks for aggregation''), c2)
                                 else let seq = tb_Sequence (ta_Blocks agg ! (length (ta_Blocks agg) - 1))
                                      in (Inr seq, c2\<lparr>sc_lastSequence := seq\<rparr>)))
                 (findLastMeta zs w (sc_lastMetaKey c1)))"

definition stor_NewClient :: "'w ZeroStor \<Rightarrow> (bytes \<Rightarrow> TlogAggregation result) \<Rightarrow> string \<Rightarrow> 'w \<Rightarrow> stor_Client result option" where
  "stor_NewClient zs dec vdiskID w =
     (let cli = \<lparr>sc_vdiskID = vdiskID, sc_firstMetaKey = [], sc_lastMetaKey = [], sc_lastSequence = 0, sc_lastMd = None,
                 sc_refList = [vdiskID], sc_storeNum = 0\<rparr>
      in case getFirstMetaKey zs cli w of
           Inl e \<Rightarrow> Some (Inl e)
         | Inr k \<Rightarrow>
             map_option (\<lambda>(r, cli1). case r of Inl e \<Rightarrow> if e \<noteq> ErrNoFlushedBlock then Inl e else Inr cli1 | Inr seq \<Rightarrow> Inr cli1)
               (LoadLastSequence zs dec (cli\<lparr>sc_firstMetaKey := k\<rparr>) w))"

section \<open>Walking and deleting\<close>

record WalkResult =
  wr_Agg :: "TlogAggregation option"
  wr_StorKey :: bytes
  wr_Meta :: "Meta option"
  wr_Data :: bytes
  wr_RefList :: "string list"
  wr_Err :: "error option"

fun walk_results :: "(bytes \<Rightarrow> TlogAggregation result) \<Rightarrow> stor_walk_result list \<Rightarrow> WalkResult list" where
  "walk_results dec [] = []"
| "walk_results dec (res # rest) =
     (let wr = \<lparr>wr_Agg = None, wr_StorKey = sw_Key res, wr_Meta = sw_Meta res, wr_Data = sw_Data res, wr_RefList = sw_RefList res, wr_Err = None\<rparr>
      in case sw_Error res of
           Some e \<Rightarrow> [wr\<lparr>wr_Err := Some e\<rparr>]
         | None \<Rightarrow>
             (case dec (sw_Data res) of
                Inl e \<Rightarrow> [wr\<lparr>wr_Err := Some e\<rparr>]
              | Inr agg \<Rightarrow> wr\<lparr>wr_Agg := Some agg\<rparr> # walk_results dec rest))"

definition stor_Walk :: "'w ZeroStor \<Rightarrow> (bytes \<Rightarrow> TlogAggregation result) \<Rightarrow> stor_Client \<Rightarrow> 'w \<Rightarrow> int \<Rightarrow> int \<Rightarrow> WalkResult list" where
  "stor_Walk zs dec c w fromEpoch toEpoch =
     (if length (sc_firstMetaKey c) = 0 then [] else walk_results dec (zs_Walk zs (sc_firstMetaKey c) fromEpoch toEpoch w))"

text \<open>What the player takes from a result.\<close>

definition walk_agg :: "WalkResult \<Rightarrow> TlogAggregation result" where
  "walk_agg wr = (case wr_Err wr of Some e \<Rightarrow> Inl e | None \<Rightarrow> (case wr_Agg wr of Some a \<Rightarrow> Inr a | None \<Rightarrow> Inl (Panic ''nil pointer'')))"

definition deleteData :: "'w ZeroStor \<Rightarrow> stor_Client \<Rightarrow> bytes \<Rightarrow> Meta option \<Rightarrow> string list \<Rightarrow> 'w \<Rightarrow> error option \<times> 'w" where
  "deleteData zs c key md refList w =
     (if length refList = 1
      then if hd refList \<noteq> sc_vdiskID c then (None, w) else zs_DeleteWithMeta zs md w
      else case zs_MetaDelete zs key w of
             (Some e, w1) \<Rightarrow> (Some e, w1)
           | (None, w1) \<Rightarrow> zs_RemoveReferenceList zs key (sc_refList c) w1)"

fun delete_walk :: "'w ZeroStor \<Rightarrow> stor_Client \<Rightarrow> WalkResult list \<Rightarrow> 'w \<Rightarrow> error option \<times> 'w" where
  "delete_walk zs c [] w = (None, w)"
| "delete_walk zs c (wr # wrs) w =
     (case deleteData zs c (wr_StorKey wr) (wr_Meta wr) (wr_RefList wr) w of
        (Some e, w1) \<Rightarrow> (Some e, w1)
      | (None, w1) \<Rightarrow> delete_walk zs c wrs w1)"

text \<open>The walk is taken as a whole before anything is deleted; its errors are not looked at.\<close>

definition stor_Delete :: "'w ZeroStor \<Rightarrow> (bytes \<Rightarrow> TlogAggregation result) \<Rightarrow> int \<Rightarrow> stor_Client \<Rightarrow> 'w \<Rightarrow> error option \<times> 'w" where
  "stor_Delete zs dec now c w =
     (case delete_walk zs c (stor_Walk zs dec c w 0 now) w of
        (Some e, w1) \<Rightarrow> (Some e, w1)
      | (None, w1) \<Rightarrow>
          (case deleteMeta zs (firstMetaEtcdKey c) w1 of
             (Some e, w2) \<Rightarrow> (Some e, w2)
           | (None, w2) \<Rightarrow> deleteMeta zs (lastMetaEtcdKey c) w2))"


section \<open>What the client relies on\<close>

text \<open>
  The objects of the world, with references and metadata, and the keys in etcd. Writing an object links it behind the previous one;
  reading, and walking along a list whose epochs all are in range, return what was written. Servers are available.
\<close>

type_synonym stor_object = "bytes \<times> string list \<times> Meta"

definition obj_meta :: "(bytes \<rightharpoonup> stor_object) \<Rightarrow> bytes \<Rightarrow> Meta" where
  "obj_meta os k = snd (snd (the (os k)))"

definition obj_data :: "(bytes \<rightharpoonup> stor_object) \<Rightarrow> bytes \<Rightarrow> bytes" where
  "obj_data os k = fst (the (os k))"

definition set_next :: "bytes \<Rightarrow> stor_object \<Rightarrow> stor_object" where
  "set_next key x = (case x of (d, r, m) \<Rightarrow> (d, r, m\<lparr>md_Next := key\<rparr>))"

definition write_object :: "bytes \<Rightarrow> bytes \<Rightarrow> bytes \<Rightarrow> Meta \<Rightarrow> string list \<Rightarrow> (bytes \<rightharpoonup> stor_object) \<Rightarrow> bytes \<rightharpoonup> stor_object" where
  "write_object key data prevKey md refs os =
     (if prevKey = [] then os(key \<mapsto> (data, refs, md))
      else os(prevKey := map_option (set_next key) (os prevKey), key \<mapsto> (data, refs, md\<lparr>md_Previous := prevKey\<rparr>)))"

text \<open>The keys of a linked list, from a first key to the end.\<close>

fun linked :: "(bytes \<rightharpoonup> stor_object) \<Rightarrow> bytes list \<Rightarrow> bool" where
  "linked os [] \<longleftrightarrow> True"
| "linked os [k] \<longleftrightarrow> k \<noteq> [] \<and> os k \<noteq> None \<and> md_Key (obj_meta os k) = k \<and> md_Next (obj_meta os k) = []"
| "linked os (k # k' # ks) \<longleftrightarrow> k \<noteq> [] \<and> os k \<noteq> None \<and> md_Key (obj_meta os k) = k \<and> md_Next (obj_meta os k) = k' \<and> linked os (k' # ks)"

definition walk_entry :: "(bytes \<rightharpoonup> stor_object) \<Rightarrow> bytes \<Rightarrow> stor_walk_result" where
  "walk_entry os k = \<lparr>sw_Key = k, sw_Meta = Some (obj_meta os k), sw_Data = obj_data os k, sw_RefList = fst (snd (the (os k))), sw_Error = None\<rparr>"

locale zero_stor =
  fixes zs :: "'w ZeroStor" and objects :: "'w \<Rightarrow> bytes \<rightharpoonup> stor_object" and etcd :: "'w \<Rightarrow> string \<rightharpoonup> bytes"
  assumes stor_write: "key \<noteq> [] \<Longrightarrow> objects w key = None \<Longrightarrow>
      prevKey = [] \<or> objects w prevKey \<noteq> None \<and> (prevMd = None \<or> prevMd = Some (obj_meta (objects w) prevKey)) \<Longrightarrow>
      \<exists>w'. zs_WriteWithMeta zs key data prevKey prevMd (Some md) refs w = (Inr (Some (if prevKey = [] then md else md\<lparr>md_Previous := prevKey\<rparr>)), w') \<and>
        objects w' = write_object key data prevKey md refs (objects w) \<and> etcd w' = etcd w"
    and stor_get_meta: "objects w k \<noteq> None \<Longrightarrow> zs_GetMeta zs k w = Inr (obj_meta (objects w) k)"
    and stor_read: "objects w k \<noteq> None \<Longrightarrow> zs_Read zs k w = Inr (obj_data (objects w) k, fst (snd (the (objects w k))))"
    and stor_walk: "linked (objects w) (k # ks) \<Longrightarrow> distinct (k # ks) \<Longrightarrow>
      \<forall>k' \<in> set (k # ks). from \<le> md_Epoch (obj_meta (objects w) k') \<and> md_Epoch (obj_meta (objects w) k') \<le> to \<Longrightarrow>
      zs_Walk zs k from to w = map (walk_entry (objects w)) (k # ks)"
    and etcd_get: "etcd_Get zs e w = Inr (case etcd w e of None \<Rightarrow> [] | Some v \<Rightarrow> [v])"
    and etcd_put: "\<exists>w'. etcd_Put zs e v w = (None, w') \<and> objects w' = objects w \<and> etcd w' = (etcd w)(e \<mapsto> v)"

section \<open>The list of aggregations\<close>

lemma linked_all: "linked os ks \<Longrightarrow> k \<in> set ks \<Longrightarrow> k \<noteq> [] \<and> os k \<noteq> None \<and> md_Key (obj_meta os k) = k"
  by (induction os ks rule: linked.induct) auto

lemma linked_cong: "(\<And>k. k \<in> set ks \<Longrightarrow> os k = os' k) \<Longrightarrow> linked os ks \<longleftrightarrow> linked os' ks"
  by (induction os ks rule: linked.induct) (auto simp: obj_meta_def)

lemma linked_last: "linked os ks \<Longrightarrow> ks \<noteq> [] \<Longrightarrow> md_Next (obj_meta os (last ks)) = []"
  by (induction os ks rule: linked.induct) auto

lemma obj_set_next [simp]: "os k = Some x \<Longrightarrow> obj_meta (os(k \<mapsto> set_next n x)) k = (obj_meta os k)\<lparr>md_Next := n\<rparr>"
  by (cases x) (simp add: obj_meta_def set_next_def)

text \<open>Appending a fresh key behind the last.\<close>

lemma linked_snoc:
  assumes "linked os ks" and "distinct (ks @ [key])" and "key \<noteq> []" and "md_Key md = key" and "md_Next md = []"
  shows "linked (write_object key data (if ks = [] then [] else last ks) md refs os) (ks @ [key])"
  using assms
proof (induction os ks rule: linked.induct)
  case (2 os k)
  then show ?case by (auto simp: write_object_def obj_meta_def set_next_def split: prod.splits)
next
  case (3 os k k' ks)
  let ?os = "write_object key data (last (k' # ks)) md refs os"
  have ne: "last (k' # ks) \<noteq> []" using linked_all[of os "k' # ks" "last (k' # ks)"] 3 by simp
  have "k \<noteq> last (k' # ks)" using 3(3) by (metis append_Cons distinct.simps(2) in_set_conv_decomp last_in_set list.distinct(1) set_append Un_iff)
  moreover have "k \<noteq> key" using 3(3) by auto
  ultimately have "?os k = os k" using ne by (simp add: write_object_def)
  then have "obj_meta ?os k = obj_meta os k" by (simp add: obj_meta_def)
  with 3 \<open>?os k = os k\<close> show ?case by simp
qed (auto simp: write_object_def obj_meta_def)

text \<open>
  A client, its world and the aggregations stored: their keys are linked, the first is the first key of the client and of etcd, the last
  the last key of the client if it knows it; a key in etcd for the last is one of the list.
\<close>

definition stor_rel :: "(TlogAggregation \<Rightarrow> bytes result) \<Rightarrow> stor_Client \<Rightarrow> (bytes \<rightharpoonup> stor_object) \<Rightarrow> (string \<rightharpoonup> bytes) \<Rightarrow> bytes list \<Rightarrow> TlogAggregation list \<Rightarrow> bool" where
  "stor_rel enc c os es ks aggs \<longleftrightarrow>
     linked os ks \<and> distinct ks \<and> map (Inr \<circ> obj_data os) ks = map enc aggs \<and>
     map (md_Epoch \<circ> obj_meta os) ks = map ta_Timestamp aggs \<and>
     sc_firstMetaKey c = (if ks = [] then [] else hd ks) \<and> sc_lastMetaKey c = (if ks = [] then [] else last ks) \<and>
     (\<forall>md. sc_lastMd c = Some md \<longrightarrow> ks \<noteq> [] \<and> md = obj_meta os (last ks)) \<and>
     es (firstMetaEtcdKey c) = (if ks = [] then None else Some (hd ks)) \<and>
     (\<forall>k. es (lastMetaEtcdKey c) = Some k \<longrightarrow> k \<in> set ks)"


text \<open>The sequence of the last block of the list of an aggregation, used or not.\<close>

definition block_list_seq :: "TlogAggregation \<Rightarrow> uint64" where
  "block_list_seq agg = tb_Sequence (last (ta_Blocks agg))"

text \<open>Cap'n Proto decodes what it has encoded.\<close>

locale tlog_stor = zero_stor zs objects etcd
  for zs :: "'w ZeroStor" and objects etcd +
  fixes enc :: "TlogAggregation \<Rightarrow> bytes result" and dec :: "bytes \<Rightarrow> TlogAggregation result"
  assumes dec_enc: "enc a = Inr d \<Longrightarrow> dec d = Inr a"
begin

lemma save_meta:
  "\<exists>w'. saveFirstMetaKey zs c w = (None, w') \<and> objects w' = objects w \<and> etcd w' = (etcd w)(firstMetaEtcdKey c \<mapsto> sc_firstMetaKey c)"
  "\<exists>w'. saveLastMetaKey zs c w = (None, w') \<and> objects w' = objects w \<and> etcd w' = (etcd w)(lastMetaEtcdKey c \<mapsto> sc_lastMetaKey c)"
  using etcd_put by (simp_all add: saveFirstMetaKey_def saveLastMetaKey_def MetaClient_SaveMeta_def)

lemma etcd_keys_distinct: "firstMetaEtcdKey c \<noteq> lastMetaEtcdKey c"
  by (simp add: firstMetaEtcdKey_def lastMetaEtcdKey_def)

lemma etcd_key_cong:
  "sc_vdiskID c = sc_vdiskID c' \<Longrightarrow> firstMetaEtcdKey c = firstMetaEtcdKey c' \<and> lastMetaEtcdKey c = lastMetaEtcdKey c'"
  by (simp add: firstMetaEtcdKey_def lastMetaEtcdKey_def)

lemma last_notin_butlast: "distinct ks \<Longrightarrow> ks \<noteq> [] \<Longrightarrow> i < length ks - 1 \<Longrightarrow> ks ! i \<noteq> last ks"
  by (auto simp: last_conv_nth nth_eq_iff_index_eq)

lemma write_object_keeps:
  assumes "linked os ks" and "k \<in> set ks" and "key \<notin> set ks"
  shows "obj_data (write_object key data (if ks = [] then [] else last ks) md refs os) k = obj_data os k"
    and "md_Epoch (obj_meta (write_object key data (if ks = [] then [] else last ks) md refs os) k) = md_Epoch (obj_meta os k)"
  using assms linked_all[OF assms(1,2)]
  by (auto simp: write_object_def obj_data_def obj_meta_def set_next_def split: prod.splits)

lemma write_object_new:
  assumes "key \<notin> set ks" and "linked os ks"
  shows "obj_data (write_object key data (if ks = [] then [] else last ks) md refs os) key = data"
    and "obj_meta (write_object key data (if ks = [] then [] else last ks) md refs os) key =
      (if (if ks = [] then [] else last ks) = [] then md else md\<lparr>md_Previous := (if ks = [] then [] else last ks)\<rparr>)"
  by (auto simp: write_object_def obj_data_def obj_meta_def)

text \<open>The world after writing an object with a fresh key.\<close>

lemma stor_rel_write:
  assumes r: "stor_rel enc c os es ks aggs" and key: "key \<noteq> []" "key \<notin> set ks" and e: "enc agg = Inr data"
    and c': "sc_vdiskID c' = sc_vdiskID c" "sc_firstMetaKey c' = (if ks = [] then key else hd ks)" "sc_lastMetaKey c' = key"
      "sc_lastMd c' = Some (if (if ks = [] then [] else last ks) = [] then new_Meta key (ta_Timestamp agg)
        else (new_Meta key (ta_Timestamp agg))\<lparr>md_Previous := (if ks = [] then [] else last ks)\<rparr>)"
    and es': "es' (firstMetaEtcdKey c) = Some (if ks = [] then key else hd ks)"
      "es' (lastMetaEtcdKey c) = es (lastMetaEtcdKey c) \<or> es' (lastMetaEtcdKey c) = Some key"
  shows "stor_rel enc c' (write_object key data (if ks = [] then [] else last ks) (new_Meta key (ta_Timestamp agg)) refs os) es' (ks @ [key]) (aggs @ [agg])"
proof -
  let ?os = "write_object key data (if ks = [] then [] else last ks) (new_Meta key (ta_Timestamp agg)) refs os"
  have l: "linked os ks" and d: "distinct ks" using r by (simp_all add: stor_rel_def)
  have "linked ?os (ks @ [key])" by (rule linked_snoc[OF l]) (use d key in \<open>simp_all add: new_Meta_def\<close>)
  moreover have "map (Inr \<circ> obj_data ?os) (ks @ [key]) = map enc (aggs @ [agg])"
    using r e write_object_keeps(1)[OF l _ key(2)] write_object_new(1)[OF key(2) l] by (simp add: stor_rel_def cong: map_cong)
  moreover have "map (md_Epoch \<circ> obj_meta ?os) (ks @ [key]) = map ta_Timestamp (aggs @ [agg])"
    using r write_object_keeps(2)[OF l _ key(2)] write_object_new(2)[OF key(2) l] by (simp add: stor_rel_def new_Meta_def cong: map_cong)
  moreover have "k \<in> set (ks @ [key])" if "es' (lastMetaEtcdKey c) = Some k" for k
    using that es'(2) r by (auto simp: stor_rel_def)
  ultimately show ?thesis using d key c' es' etcd_key_cong[OF c'(1)] write_object_new(2)[OF key(2) l]
    by (simp add: stor_rel_def)
qed

theorem ProcessStoreAgg_ok:
  assumes r: "stor_rel enc c (objects w) (etcd w) ks aggs"
    and agg': "agg' = (ag_agg agg)\<lparr>ta_Timestamp := now, ta_Size := of_nat (ag_size agg)\<rparr>" and e: "enc agg' = Inr data"
    and key: "key = hasher (bytes_of_string (sc_vdiskID c) @ data)" "key \<noteq> []" "objects w key = None"
  shows "\<exists>c' w'. ProcessStoreAgg zs hasher enc now agg (c, w) = (Inr data, agg\<lparr>ag_agg := agg'\<rparr>, c', w') \<and>
    stor_rel enc c' (objects w') (etcd w') (ks @ [key]) (aggs @ [agg']) \<and> sc_vdiskID c' = sc_vdiskID c \<and> sc_lastSequence c' = LastSequence agg \<and>
    dom (objects w') = insert key (dom (objects w))"
proof -
  have l: "linked (objects w) ks" and f: "sc_firstMetaKey c = (if ks = [] then [] else hd ks)" "sc_lastMetaKey c = (if ks = [] then [] else last ks)"
    and m: "\<And>md. sc_lastMd c = Some md \<Longrightarrow> ks \<noteq> [] \<and> md = obj_meta (objects w) (last ks)"
    using r by (simp_all add: stor_rel_def)
  have notin: "key \<notin> set ks" using linked_all[OF l, of key] key(3) by auto
  let ?prev = "if ks = [] then [] else last ks"
  have prev: "?prev = [] \<or> objects w ?prev \<noteq> None \<and> (sc_lastMd c = None \<or> sc_lastMd c = Some (obj_meta (objects w) ?prev))"
    using linked_all[OF l, of "last ks"] m by (cases "sc_lastMd c") auto
  from stor_write[OF key(2,3) prev, of data "new_Meta key now" "sc_refList c"] obtain w1 where
    w1: "zs_WriteWithMeta zs key data ?prev (sc_lastMd c) (Some (new_Meta key now)) (sc_refList c) w =
      (Inr (Some (if ?prev = [] then new_Meta key now else (new_Meta key now)\<lparr>md_Previous := ?prev\<rparr>)), w1)"
    "objects w1 = write_object key data ?prev (new_Meta key now) (sc_refList c) (objects w)" "etcd w1 = etcd w" by blast
  let ?c1 = "c\<lparr>sc_firstMetaKey := if ks = [] then key else hd ks\<rparr>"
  have first: "hd ks \<noteq> []" if "ks \<noteq> []" using linked_all[OF l, of "hd ks"] that by simp
  obtain w2 where w2: "keep_first zs key c w1 = (None, ?c1, w2)" "objects w2 = objects w1"
    "etcd w2 (firstMetaEtcdKey c) = Some (if ks = [] then key else hd ks)" "etcd w2 (lastMetaEtcdKey c) = etcd w (lastMetaEtcdKey c)"
  proof (cases "ks = []")
    case True
    then show ?thesis using that save_meta(1)[of "c\<lparr>sc_firstMetaKey := key\<rparr>" w1] w1(3) f etcd_keys_distinct[of c] etcd_key_cong[of "c\<lparr>sc_firstMetaKey := key\<rparr>" c]
      by (auto simp: keep_first_def Let_def)
  next
    case False
    then show ?thesis using that[of w1] first f r w1(3) by (auto simp: stor_rel_def keep_first_def)
  qed
  let ?c2 = "?c1\<lparr>sc_lastMd := Some (if ?prev = [] then new_Meta key now else (new_Meta key now)\<lparr>md_Previous := ?prev\<rparr>), sc_lastMetaKey := key,
    sc_lastSequence := LastSequence agg\<rparr>"
  let ?c3 = "?c2\<lparr>sc_storeNum := sc_storeNum c + 1\<rparr>"
  obtain w3 where w3: "keep_last zs ?c2 w2 = (None, ?c3, w3)" "objects w3 = objects w2" "etcd w3 (firstMetaEtcdKey c) = etcd w2 (firstMetaEtcdKey c)"
    "etcd w3 (lastMetaEtcdKey c) = etcd w2 (lastMetaEtcdKey c) \<or> etcd w3 (lastMetaEtcdKey c) = Some key"
    using save_meta(2)[of ?c3 w2] etcd_keys_distinct[of c] etcd_key_cong[of ?c3 c]
    by (cases "(sc_storeNum c + 1) mod lastMetaKeyStoreInterval = 0") (auto simp: keep_last_def)
  have "processStoreData zs hasher data (LastSequence agg) now c w = (None, ?c3, w3)"
    by (simp add: processStoreData_def key(1)[symmetric] f(2) Let_def w1(1) w2(1) w3(1) split del: if_split)
  then have "ProcessStoreAgg zs hasher enc now agg (c, w) = (Inr data, agg\<lparr>ag_agg := agg'\<rparr>, ?c3, w3)"
    using e by (simp add: ProcessStoreAgg_def agg_Encode_def agg_SetTimestamp_def agg' LastSequence_def Let_def)
  moreover have "stor_rel enc ?c3 (objects w3) (etcd w3) (ks @ [key]) (aggs @ [agg'])"
    using stor_rel_write[OF r key(2) notin e, of ?c3 "etcd w3" "sc_refList c"] w1(2) w2 w3 by (simp add: agg')
  moreover have "dom (objects w3) = insert key (dom (objects w))"
    using w3(2) w2(2) w1(2) linked_all[OF l, of "last ks"] last_in_set[of ks] by (cases "ks = []") (auto simp: write_object_def split: if_splits)
  ultimately show ?thesis by (intro exI[of _ ?c3] exI[of _ w3]) simp
qed


end

context tlog_stor
begin

text \<open>Walking returns the aggregations stored.\<close>

lemma walk_results_linked:
  assumes "\<forall>k \<in> set ks. \<exists>a. enc a = Inr (obj_data os k)"
  shows "map walk_agg (walk_results dec (map (walk_entry os) ks)) = map (\<lambda>k. dec (obj_data os k)) ks"
  using assms
proof (induction ks)
  case (Cons k ks)
  then obtain a where "dec (obj_data os k) = Inr a" using dec_enc by auto
  with Cons show ?case by (simp add: walk_entry_def walk_agg_def)
qed simp

lemma stor_rel_enc:
  assumes "stor_rel enc c os es ks aggs" and "i < length ks"
  shows "i < length aggs" and "enc (aggs ! i) = Inr (obj_data os (ks ! i))" and "md_Epoch (obj_meta os (ks ! i)) = ta_Timestamp (aggs ! i)"
proof -
  have e: "map (Inr \<circ> obj_data os) ks = map enc aggs" and t: "map (md_Epoch \<circ> obj_meta os) ks = map ta_Timestamp aggs"
    using assms(1) by (simp_all add: stor_rel_def)
  show l: "i < length aggs" using arg_cong[OF e, of length] assms(2) by simp
  show "enc (aggs ! i) = Inr (obj_data os (ks ! i))" using arg_cong[OF e, of "\<lambda>xs. xs ! i"] l assms(2) by simp
  show "md_Epoch (obj_meta os (ks ! i)) = ta_Timestamp (aggs ! i)" using arg_cong[OF t, of "\<lambda>xs. xs ! i"] l assms(2) by simp
qed

theorem stor_Walk_ok:
  assumes r: "stor_rel enc c (objects w) (etcd w) ks aggs" and t: "\<forall>a \<in> set aggs. from \<le> ta_Timestamp a \<and> ta_Timestamp a \<le> to"
  shows "map walk_agg (stor_Walk zs dec c w from to) = map Inr aggs"
proof (cases ks)
  case Nil
  then show ?thesis using r by (simp add: stor_Walk_def stor_rel_def)
next
  case (Cons k ks')
  have l: "linked (objects w) (k # ks')" and d: "distinct (k # ks')" and f: "sc_firstMetaKey c = k" and n: "length ks = length aggs"
    using r Cons by (auto simp: stor_rel_def dest: map_eq_imp_length_eq)
  have dec: "dec (obj_data (objects w) (ks ! i)) = Inr (aggs ! i)" if "i < length ks" for i
    using stor_rel_enc(2)[OF r that] by (rule dec_enc)
  have "\<forall>k' \<in> set (k # ks'). from \<le> md_Epoch (obj_meta (objects w) k') \<and> md_Epoch (obj_meta (objects w) k') \<le> to"
    using t stor_rel_enc(3)[OF r] n nth_mem[of _ aggs] unfolding Cons[symmetric] by (auto simp: in_set_conv_nth)
  from stor_walk[OF l d this] have "zs_Walk zs k from to w = map (walk_entry (objects w)) ks" by (simp add: Cons)
  moreover have "\<forall>k \<in> set ks. \<exists>a. enc a = Inr (obj_data (objects w) k)" using stor_rel_enc(2)[OF r] by (metis in_set_conv_nth)
  moreover have "k \<noteq> []" using linked_all[OF l, of k] by simp
  moreover have "map (\<lambda>k. dec (obj_data (objects w) k)) ks = map Inr aggs" using dec n by (intro nth_equalityI) auto
  ultimately show ?thesis using walk_results_linked[of ks "objects w"] f by (simp add: stor_Walk_def)
qed

text \<open>From any key of the list the last metadata is found.\<close>

lemma findLastMeta_ok:
  "linked (objects w) ks \<Longrightarrow> k \<in> set ks \<Longrightarrow> findLastMeta zs w k = Some (Inr (obj_meta (objects w) (last ks)))"
proof (induction ks arbitrary: k)
  case (Cons k0 ks)
  have ne: "objects w k0 \<noteq> None" using linked_all[OF Cons.prems(1), of k0] by simp
  show ?case
  proof (cases "k \<in> set ks")
    case True
    then have "linked (objects w) ks" "last (k0 # ks) = last ks" using Cons.prems(1) by (cases ks; simp)+
    then show ?thesis using Cons.IH True by simp
  next
    case False
    then have k: "k = k0" using Cons.prems(2) by simp
    show ?thesis
    proof (cases ks)
      case Nil
      then show ?thesis using Cons.prems(1) k stor_get_meta[OF ne] by (subst findLastMeta.simps) simp
    next
      case (Cons k1 ks')
      then have "md_Next (obj_meta (objects w) k0) = k1" "linked (objects w) ks" "k1 \<noteq> []"
        using Cons.prems(1) linked_all[of "objects w" ks k1] by auto
      then show ?thesis using Cons.IH[of k1] Cons k stor_get_meta[OF ne] by (subst findLastMeta.simps) simp
    qed
  qed
qed simp

text \<open>
  A client that does not know the last key: loading finds it and the sequence of the last block of the last list.
\<close>

lemma load_from:
  assumes l: "linked (objects w) ks" and ne: "ks \<noteq> []" and first: "sc_firstMetaKey c = hd ks"
    and k: "sc_lastMetaKey c \<in> set ks \<or> sc_lastMetaKey c = [] \<and> (\<forall>k. etcd w (lastMetaEtcdKey c) = Some k \<longrightarrow> k \<in> set ks)"
    and e: "enc agg = Inr (obj_data (objects w) (last ks))" and b: "ta_Blocks agg \<noteq> []"
  shows "LoadLastSequence zs dec c w =
    Some (Inr (block_list_seq agg), c\<lparr>sc_lastMetaKey := last ks, sc_lastSequence := block_list_seq agg\<rparr>)"
proof -
  have f: "sc_firstMetaKey c \<noteq> []" using linked_all[OF l, of "hd ks"] ne first by simp
  define c1 where "c1 = (if length (sc_lastMetaKey c) = 0
    then c\<lparr>sc_lastMetaKey := case etcd w (lastMetaEtcdKey c) of None \<Rightarrow> sc_firstMetaKey c | Some k \<Rightarrow> k\<rparr> else c)"
  have k1: "sc_lastMetaKey c1 \<in> set ks" and c1: "sc_lastMetaKey_update (\<lambda>_. x) c1 = c\<lparr>sc_lastMetaKey := x\<rparr>" for x
    using k first ne linked_all[OF l, of "[]"] by (auto simp: c1_def split: option.splits)
  have "(if length (sc_lastMetaKey c) = 0
       then map_sum id (\<lambda>k. c\<lparr>sc_lastMetaKey := if k = [] then sc_firstMetaKey c else k\<rparr>) (getLastMetaKey zs c w) else Inr c) = Inr c1"
    using k linked_all[OF l, of "[]"] by (auto simp: c1_def getLastMetaKey_def MetaClient_GetMeta_def etcd_get split: option.splits)
  moreover have m: "md_Key (obj_meta (objects w) (last ks)) = last ks" "objects w (last ks) \<noteq> None" using linked_all[OF l, of "last ks"] ne by simp_all
  ultimately show ?thesis using f findLastMeta_ok[OF l k1] stor_read[OF m(2)] dec_enc[OF e] b
    by (simp add: LoadLastSequence_def c1 block_list_seq_def last_conv_nth Let_def)
qed

theorem stor_NewClient_ok:
  assumes r: "stor_rel enc c (objects w) (etcd w) ks aggs" and b: "\<forall>a \<in> set aggs. ta_Blocks a \<noteq> []"
  shows "\<exists>c'. stor_NewClient zs dec (sc_vdiskID c) w = Some (Inr c') \<and> stor_rel enc c' (objects w) (etcd w) ks aggs \<and>
    sc_vdiskID c' = sc_vdiskID c \<and> sc_lastSequence c' = (if aggs = [] then 0 else block_list_seq (last aggs))"
proof -
  let ?c0 = "\<lparr>sc_vdiskID = sc_vdiskID c, sc_firstMetaKey = [], sc_lastMetaKey = [], sc_lastSequence = 0, sc_lastMd = None,
    sc_refList = [sc_vdiskID c], sc_storeNum = 0\<rparr>"
  let ?c1 = "?c0\<lparr>sc_firstMetaKey := if ks = [] then [] else hd ks\<rparr>"
  have k: "firstMetaEtcdKey ?c0 = firstMetaEtcdKey c" "lastMetaEtcdKey ?c1 = lastMetaEtcdKey c"
    by (simp_all add: firstMetaEtcdKey_def lastMetaEtcdKey_def)
  have first: "getFirstMetaKey zs ?c0 w = Inr (if ks = [] then [] else hd ks)"
    using r k by (simp add: getFirstMetaKey_def MetaClient_GetMeta_def etcd_get stor_rel_def)
  have n: "length ks = length aggs" using r by (auto simp: stor_rel_def dest: map_eq_imp_length_eq)
  show ?thesis
  proof (cases "ks = []")
    case True
    then have "LoadLastSequence zs dec ?c1 w = Some (Inl ErrNoFlushedBlock, ?c1)" by (simp add: LoadLastSequence_def)
    moreover have "stor_rel enc ?c1 (objects w) (etcd w) ks aggs" using r True etcd_key_cong[of ?c1 c] by (simp add: stor_rel_def)
    ultimately show ?thesis using True n first by (intro exI[of _ ?c1]) (simp add: stor_NewClient_def)
  next
    case False
    have l: "linked (objects w) ks" using r by (simp add: stor_rel_def)
    have i: "length ks - 1 < length ks" using False by simp
    have ne: "aggs \<noteq> []" using n False by auto
    have e: "enc (last aggs) = Inr (obj_data (objects w) (last ks))"
      using stor_rel_enc(2)[OF r i] n False ne by (simp add: last_conv_nth)
    have kk: "sc_lastMetaKey ?c1 \<in> set ks \<or> sc_lastMetaKey ?c1 = [] \<and> (\<forall>k. etcd w (lastMetaEtcdKey ?c1) = Some k \<longrightarrow> k \<in> set ks)"
      using r k(2) by (simp add: stor_rel_def)
    have "ta_Blocks (last aggs) \<noteq> []" using b ne by simp
    from load_from[OF l False _ kk e this] False have
      "LoadLastSequence zs dec ?c1 w = Some (Inr (block_list_seq (last aggs)), ?c1\<lparr>sc_lastMetaKey := last ks, sc_lastSequence := block_list_seq (last aggs)\<rparr>)" by simp
    moreover have "stor_rel enc (?c1\<lparr>sc_lastMetaKey := last ks, sc_lastSequence := block_list_seq (last aggs)\<rparr>) (objects w) (etcd w) ks aggs"
      using r False etcd_key_cong[of "?c1\<lparr>sc_lastMetaKey := last ks, sc_lastSequence := block_list_seq (last aggs)\<rparr>" c] by (simp add: stor_rel_def)
    ultimately show ?thesis using first ne False by (intro exI[of _ "?c1\<lparr>sc_lastMetaKey := last ks, sc_lastSequence := block_list_seq (last aggs)\<rparr>"]) (simp add: stor_NewClient_def)
  qed
qed

end

end
