(* ===== verification/Tlog_Vdisk.thy ===== *)
theory Tlog_Vdisk
  imports Tlog_Stor
begin

text \<open>
  A vdisk of the tlog server (\<open>tlog/tlogserver/server/vdisk.go\<close>, \<open>vdisk_conn.go\<close>): messages of the client, the flusher goroutine
  and the commands to it. The record also holds the local variables of \<open>runFlusher\<close>; each case of its \<open>select\<close> is a function. Channels are lists.
  \<open>vd_sentAggs\<close> is what has been sent to the slave syncer.
\<close>

section \<open>Status of responses\<close>

definition BlockStatus_Int8 :: "tlog_status \<Rightarrow> int" where
  "BlockStatus_Int8 st =
     (case st of FlushFailed \<Rightarrow> -2 | RecvFailed \<Rightarrow> -1 | RecvOK \<Rightarrow> 1 | FlushOK \<Rightarrow> 2 | ForceFlushReceived \<Rightarrow> 3
      | WaitNbdSlaveSyncReceived \<Rightarrow> 4 | Disconnected \<Rightarrow> 5 | Ready \<Rightarrow> 6 | OtherStatus \<Rightarrow> 0)"

definition BlockStatus_of :: "int \<Rightarrow> tlog_status" where
  "BlockStatus_of n =
     (if n = -2 then FlushFailed else if n = -1 then RecvFailed else if n = 1 then RecvOK else if n = 2 then FlushOK
      else if n = 3 then ForceFlushReceived else if n = 4 then WaitNbdSlaveSyncReceived else if n = 5 then Disconnected
      else if n = 6 then Ready else OtherStatus)"

definition BlockStatus_Error :: "int \<Rightarrow> error option" where
  "BlockStatus_Error status =
     (if status > 0 then None
      else if status = -2 then Some (ErrOther ''couldn't flush the aggregation(s)'')
      else if status = -1 then Some (ErrOther ''didn't receive the tlog block'')
      else Some (ErrOther ''invalid connection with unknown status''))"

lemma BlockStatus_roundtrip: "BlockStatus_of (BlockStatus_Int8 st) = st"
  by (cases st) (simp_all add: BlockStatus_of_def BlockStatus_Int8_def)

section \<open>State\<close>

text \<open>What a vdisk uses of other code: the object store, its hash, Cap'n Proto, and the hash of the data.\<close>

record 'w tlog_env =
  te_zs :: "'w ZeroStor"
  te_hasher :: "bytes \<Rightarrow> bytes"
  te_enc :: "TlogAggregation \<Rightarrow> bytes result"
  te_dec :: "bytes \<Rightarrow> TlogAggregation result"
  te_alloc :: "bytes \<Rightarrow> error option"
  te_HashBytes :: "bytes \<Rightarrow> bytes"

type_synonym block_response = "tlog_status \<times> uint64 list"

record vdisk =
  vd_id :: string
  vd_respChan :: "block_response list"
  vd_orderedBlockChan :: "TlogBlock list"
  vd_expectedSequence :: uint64
  vd_clientConn :: "nat option"
  vd_ready :: bool
  vd_storClient :: stor_Client
  vd_flusher :: Flusher
  vd_slaveSyncer :: bool
  vd_sentAggs :: "bytes list"
  vd_maxSeq :: uint64
  vd_lastSeqFlushed :: uint64
  vd_seqToForceFlush :: uint64
  vd_needForceFlushSeq :: bool
  vd_stopped :: bool

definition FirstSequence :: uint64 where "FirstSequence = 1"

definition respond :: "tlog_status \<Rightarrow> uint64 list \<Rightarrow> vdisk \<Rightarrow> vdisk" where
  "respond st seqs vd = vd\<lparr>vd_respChan := vd_respChan vd @ [(st, seqs)]\<rparr>"

definition newVdisk :: "string \<Rightarrow> stor_Client \<Rightarrow> nat \<Rightarrow> bool \<Rightarrow> string \<Rightarrow> vdisk" where
  "newVdisk vdiskID storClient flushSize slaveSync coordConnectAddr =
     \<lparr>vd_id = vdiskID, vd_respChan = [], vd_orderedBlockChan = [], vd_expectedSequence = 0, vd_clientConn = None,
      vd_ready = (coordConnectAddr = []), vd_storClient = storClient, vd_flusher = NewWithStorClient flushSize,
      vd_slaveSyncer = slaveSync, vd_sentAggs = [], vd_maxSeq = 0, vd_lastSeqFlushed = 0, vd_seqToForceFlush = 0,
      vd_needForceFlushSeq = False, vd_stopped = False\<rparr>"

section \<open>The flusher goroutine\<close>

definition sendAggToSlaveSync :: "bytes \<Rightarrow> vdisk \<Rightarrow> vdisk" where
  "sendAggToSlaveSync rawAgg vd = (if vd_slaveSyncer vd then vd\<lparr>vd_sentAggs := vd_sentAggs vd @ [rawAgg]\<rparr> else vd)"

text \<open>The end of an iteration: flush, respond, and stop when the flush has failed.\<close>

definition flush_now :: "'w tlog_env \<Rightarrow> int \<Rightarrow> vdisk \<times> 'w \<Rightarrow> vdisk \<times> 'w" where
  "flush_now env now st =
     (let (vd, w) = st
      in case fl_flush (\<lambda>agg. ProcessStoreAgg (te_zs env) (te_hasher env) (te_enc env) now agg) (vd_flusher vd) (vd_storClient vd, w) of
           (Inl e, f1, c1, w1) \<Rightarrow> ((respond FlushFailed [] (vd\<lparr>vd_flusher := f1, vd_storClient := c1\<rparr>))\<lparr>vd_stopped := True\<rparr>, w1)
         | (Inr (rawAgg, seqs), f1, c1, w1) \<Rightarrow>
             let vd1 = respond FlushOK seqs (vd\<lparr>vd_flusher := f1, vd_storClient := c1\<rparr>);
                 vd2 = (if length seqs > 0 then vd1\<lparr>vd_lastSeqFlushed := last seqs\<rparr> else vd1)
             in (sendAggToSlaveSync rawAgg vd2, w1))"

definition flusher_block :: "'w tlog_env \<Rightarrow> int \<Rightarrow> vdisk \<times> 'w \<Rightarrow> vdisk \<times> 'w" where
  "flusher_block env now st =
     (let (vd, w) = st
      in case vd_orderedBlockChan vd of
           [] \<Rightarrow> st
         | tlb # rest \<Rightarrow>
             (case fl_AddBlock (te_alloc env) None tlb (vd_flusher vd) of
                (Some e, f1) \<Rightarrow> (vd\<lparr>vd_orderedBlockChan := rest, vd_flusher := f1, vd_stopped := True\<rparr>, w)
              | (None, f1) \<Rightarrow>
                  let vd1 = vd\<lparr>vd_orderedBlockChan := rest, vd_flusher := f1, vd_maxSeq := tb_Sequence tlb\<rparr>
                  in if vd_needForceFlushSeq vd1 \<and> tb_Sequence tlb \<ge> vd_seqToForceFlush vd1
                     then flush_now env now (vd1\<lparr>vd_needForceFlushSeq := False\<rparr>, w)
                     else if \<not> fl_Full f1 then (vd1, w)
                     else flush_now env now (vd1, w)))"

definition flusher_timer :: "'w tlog_env \<Rightarrow> int \<Rightarrow> vdisk \<times> 'w \<Rightarrow> vdisk \<times> 'w" where
  "flusher_timer env now st = (if fl_Empty (vd_flusher (fst st)) then st else flush_now env now st)"

datatype flusher_cmd = vdiskCmdForceFlushAtSeq uint64 | vdiskCmdWaitSlaveSync | vdiskCmdIgnoreSeqBefore uint64

text \<open>\<open>IgnoreSeqBefore\<close> may read out of range, which is the only panic. Waiting for the slave syncer changes nothing in the flusher.\<close>

definition flusher_command :: "'w tlog_env \<Rightarrow> int \<Rightarrow> flusher_cmd \<Rightarrow> vdisk \<times> 'w \<Rightarrow> (vdisk \<times> 'w) result" where
  "flusher_command env now cmd st =
     (let (vd, w) = st
      in case cmd of
           vdiskCmdForceFlushAtSeq seq \<Rightarrow>
             let vd1 = vd\<lparr>vd_seqToForceFlush := seq\<rparr>
             in if vd_maxSeq vd1 < seq then Inr (vd1\<lparr>vd_needForceFlushSeq := True\<rparr>, w)
                else Inr (flusher_timer env now (vd1\<lparr>vd_needForceFlushSeq := False\<rparr>, w))
         | vdiskCmdIgnoreSeqBefore seq \<Rightarrow>
             map_sum id (\<lambda>f. (vd\<lparr>vd_flusher := f\<rparr>, w)) (fl_IgnoreSeqBefore seq (vd_flusher vd))
         | vdiskCmdWaitSlaveSync \<Rightarrow> Inr (flusher_timer env now (vd, w)))"

section \<open>Connections\<close>

definition attachConn :: "nat \<Rightarrow> vdisk \<Rightarrow> error option \<times> vdisk" where
  "attachConn conn vd =
     (if vd_clientConn vd \<noteq> None then (Some (ErrOther ''there is already conencted client for vdisk''), vd)
      else (None, vd\<lparr>vd_clientConn := Some conn\<rparr>))"

definition removeConn :: "nat \<Rightarrow> vdisk \<Rightarrow> vdisk" where
  "removeConn conn vd = vd\<lparr>vd_clientConn := None\<rparr>"

text \<open>\<open>None\<close> when loading the last sequence does not return.\<close>

definition loadLastFlushedSequence :: "'w tlog_env \<Rightarrow> vdisk \<times> 'w \<Rightarrow> (uint64 result \<times> vdisk) option" where
  "loadLastFlushedSequence env st =
     (let (vd, w) = st
      in map_option (\<lambda>(r, c1).
           let vd1 = vd\<lparr>vd_storClient := c1\<rparr>
           in case r of
                Inl e \<Rightarrow> if e = ErrNoFlushedBlock then (Inr 0, vd1\<lparr>vd_expectedSequence := FirstSequence\<rparr>) else (Inl e, vd1)
              | Inr lastSeq \<Rightarrow>
                  (case flusher_command env 0 (vdiskCmdIgnoreSeqBefore (lastSeq + 1)) (vd1, w) of
                     Inl p \<Rightarrow> (Inl p, vd1)
                   | Inr (vd2, w2) \<Rightarrow> (Inr lastSeq, vd2\<lparr>vd_expectedSequence := lastSeq + 1\<rparr>)))
           (LoadLastSequence (te_zs env) (te_dec env) (vd_storClient vd) w))"

definition vd_connect :: "'w tlog_env \<Rightarrow> nat \<Rightarrow> vdisk \<times> 'w \<Rightarrow> (uint64 result \<times> vdisk) option" where
  "vd_connect env conn st =
     (let (vd, w) = st
      in case attachConn conn vd of
           (Some e, vd1) \<Rightarrow> Some (Inl e, vd1)
         | (None, vd1) \<Rightarrow>
             if \<not> vd_ready vd1 then Some (Inr 0, vd1)
             else map_option (\<lambda>(r, vd2). (r, case r of Inl e \<Rightarrow> removeConn conn vd2 | Inr q \<Rightarrow> vd2)) (loadLastFlushedSequence env (vd1, w)))"

definition vd_hash :: "'w tlog_env \<Rightarrow> TlogBlock \<Rightarrow> error option" where
  "vd_hash env tlb =
     (case tb_Data tlb of
        Inl e \<Rightarrow> Some e
      | Inr data \<Rightarrow>
          (case tb_Hash tlb of
             Inl e \<Rightarrow> Some e
           | Inr rawHash \<Rightarrow> if te_HashBytes env data \<noteq> rawHash then Some (ErrOther ''data hash is incorrect'') else None))"

definition handleBlock :: "'w tlog_env \<Rightarrow> TlogBlock \<Rightarrow> vdisk \<Rightarrow> error option \<times> vdisk" where
  "handleBlock env block vd =
     (case vd_hash env block of
        Some e \<Rightarrow> (Some e, vd)
      | None \<Rightarrow>
          let seq = tb_Sequence block
          in if seq < vd_expectedSequence vd then (None, respond RecvOK [seq] vd)
             else if seq > vd_expectedSequence vd then (None, vd)
             else (None, respond RecvOK [seq]
                    (vd\<lparr>vd_expectedSequence := vd_expectedSequence vd + 1, vd_orderedBlockChan := vd_orderedBlockChan vd @ [block]\<rparr>)))"

datatype client_message = ClientBlock "TlogBlock result" | ClientForceFlushAtSeq uint64 | ClientWaitNBDSlaveSync "error option" | ClientDisconnect | ClientUnknown

definition destroySlaveSync :: "vdisk \<Rightarrow> vdisk" where
  "destroySlaveSync vd = vd\<lparr>vd_slaveSyncer := False\<rparr>"

text \<open>
  One round of the loop of \<open>handle\<close>: whether the connection ends, with which error. A force flush is handed to the flusher, which takes
  it before the response is sent; waiting for the slave is answered when its syncer has reported, here with \<open>syncErr\<close>, and ends the syncer when
  the slave is up to date.
\<close>

definition vd_handle :: "'w tlog_env \<Rightarrow> int \<Rightarrow> client_message \<Rightarrow> vdisk \<times> 'w \<Rightarrow> (bool \<times> error option) \<times> vdisk \<times> 'w" where
  "vd_handle env now msg st =
     (let (vd, w) = st
      in case msg of
           ClientBlock (Inl e) \<Rightarrow> ((True, Some e), vd, w)
         | ClientBlock (Inr block) \<Rightarrow> (let (e, vd1) = handleBlock env block vd in ((e \<noteq> None, e), vd1, w))
         | ClientForceFlushAtSeq seq \<Rightarrow>
             (case flusher_command env now (vdiskCmdForceFlushAtSeq seq) (vd, w) of
                Inl p \<Rightarrow> ((True, Some p), vd, w)
              | Inr (vd1, w1) \<Rightarrow> ((False, None), respond ForceFlushReceived [] vd1, w1))
         | ClientWaitNBDSlaveSync syncErr \<Rightarrow>
             if \<not> vd_slaveSyncer vd then ((False, None), respond WaitNbdSlaveSyncReceived [] vd, w)
             else (case flusher_command env now vdiskCmdWaitSlaveSync (vd, w) of
                     Inl p \<Rightarrow> ((True, Some p), vd, w)
                   | Inr (vd1, w1) \<Rightarrow>
                       let vd2 = (if syncErr = None then destroySlaveSync vd1 else vd1)
                       in ((False, None), respond WaitNbdSlaveSyncReceived [] vd2, w1))
         | ClientDisconnect \<Rightarrow> ((True, None), vd, w)
         | ClientUnknown \<Rightarrow> ((True, Some (ErrOther ''not a supported client message type'')), vd, w))"

section \<open>Runs\<close>

text \<open>Messages of the client and iterations of the flusher in any order; nothing happens once the flusher has stopped.\<close>

datatype vdisk_event = VdMessage client_message | VdFlusher | VdTimer

definition vd_step :: "'w tlog_env \<Rightarrow> int \<Rightarrow> vdisk_event \<Rightarrow> vdisk \<times> 'w \<Rightarrow> vdisk \<times> 'w" where
  "vd_step env now ev st =
     (if vd_stopped (fst st) then st
      else case ev of
             VdMessage msg \<Rightarrow> snd (vd_handle env now msg st)
           | VdFlusher \<Rightarrow> flusher_block env now st
           | VdTimer \<Rightarrow> flusher_timer env now st)"

fun vd_run :: "'w tlog_env \<Rightarrow> int \<Rightarrow> vdisk_event list \<Rightarrow> vdisk \<times> 'w \<Rightarrow> vdisk \<times> 'w" where
  "vd_run env now [] st = st"
| "vd_run env now (ev # evs) st = vd_run env (now + 1) evs (vd_step env now ev st)"


section \<open>A second connection\<close>

text \<open>
  A connection sets the expected sequence back to the one after the last flushed sequence, and leaves the blocks that the flusher
  holds. So a block that was received and not yet flushed is taken a second time when the client sends it again,
  here for a vdisk that has flushed nothing yet.
\<close>

lemma reconnect_takes_again:
  assumes "sc_firstMetaKey (vd_storClient vd) = []" and "vd_ready vd"
    and "vd_hash env b = None" and "tb_Sequence b = FirstSequence"
  shows "\<exists>vd1. vd_connect env conn (removeConn old vd, w) = Some (Inr 0, vd1) \<and>
    vd_flusher vd1 = vd_flusher vd \<and> vd_orderedBlockChan vd1 = vd_orderedBlockChan vd \<and>
    (\<exists>vd2. handleBlock env b vd1 = (None, vd2) \<and> vd_orderedBlockChan vd2 = vd_orderedBlockChan vd @ [b])"
  using assms
  by (simp add: vd_connect_def removeConn_def attachConn_def loadLastFlushedSequence_def LoadLastSequence_def handleBlock_def
      respond_def Let_def)

end
