(* ===== verification/Tlog_Server.thy ===== *)
theory Tlog_Server
  imports Tlog_Vdisk
begin

text \<open>
  What the tlog server promises: whatever blocks of a log arrive, in whatever order and however often, the object store, the aggregation being filled
  and the queue hold a prefix of the log, each block once and in order; and a flush is only reported for blocks in the store.
\<close>

section \<open>Invariant\<close>

definition cur_blocks :: "Flusher \<Rightarrow> TlogBlock list" where
  "cur_blocks f = (case fl_curAgg f of None \<Rightarrow> [] | Some a \<Rightarrow> agg_blocks a)"

definition flusher_wf :: "(bytes \<Rightarrow> error option) \<Rightarrow> Flusher \<Rightarrow> bool" where
  "flusher_wf alloc f \<longleftrightarrow> 0 < fl_flushSize f \<and> fl_flushSize f < 2 ^ 31 \<and>
     (\<forall>a. fl_curAgg f = Some a \<longrightarrow> agg_ok a \<and> ag_maxBlockNum a = fl_flushSize f \<and> (\<forall>b \<in> set (ag_blockList a). readable alloc b))"

text \<open>The key under which an aggregation of a vdisk is stored.\<close>

definition key_of :: "'w tlog_env \<Rightarrow> string \<Rightarrow> TlogAggregation \<Rightarrow> bytes" where
  "key_of env vid a = te_hasher env (bytes_of_string vid @ (case te_enc env a of Inl e \<Rightarrow> [] | Inr d \<Rightarrow> d))"

text \<open>The aggregations in the store, which holds nothing else; every flush reported is the flush of one of them.\<close>

definition stored_inv :: "'w tlog_env \<Rightarrow> ('w \<Rightarrow> bytes \<rightharpoonup> stor_object) \<Rightarrow> ('w \<Rightarrow> string \<rightharpoonup> bytes) \<Rightarrow> string \<Rightarrow> vdisk \<times> 'w \<Rightarrow> TlogAggregation list \<Rightarrow> bool" where
  "stored_inv env objects etcd vid st aggs \<longleftrightarrow> (case st of (vd, w) \<Rightarrow>
     stor_rel (te_enc env) (vd_storClient vd) (objects w) (etcd w) (map (key_of env vid) aggs) aggs \<and> sc_vdiskID (vd_storClient vd) = vid \<and>
     dom (objects w) = set (map (key_of env vid) aggs) \<and>
     (\<forall>a \<in> set aggs. agg_wf a \<and> used_blocks a \<noteq> [] \<and> (\<exists>d. te_enc env a = Inr d)) \<and>
     (\<forall>seqs. (FlushOK, seqs) \<in> set (vd_respChan vd) \<longrightarrow> (\<exists>a \<in> set aggs. seqs = map tb_Sequence (used_blocks a))))"

definition vd_inv :: "'w tlog_env \<Rightarrow> ('w \<Rightarrow> bytes \<rightharpoonup> stor_object) \<Rightarrow> ('w \<Rightarrow> string \<rightharpoonup> bytes) \<Rightarrow> string \<Rightarrow> (nat \<Rightarrow> TlogBlock) \<Rightarrow> nat \<Rightarrow>
    vdisk \<times> 'w \<Rightarrow> TlogAggregation list \<Rightarrow> bool" where
  "vd_inv env objects etcd vid blocklog N st aggs \<longleftrightarrow> (case st of (vd, w) \<Rightarrow>
     stored_inv env objects etcd vid st aggs \<and> flusher_wf (te_alloc env) (vd_flusher vd) \<and> \<not> fl_Full (vd_flusher vd) \<and> \<not> vd_stopped vd \<and>
     1 \<le> unat (vd_expectedSequence vd) \<and> unat (vd_expectedSequence vd) \<le> N + 1 \<and>
     concat (map used_blocks aggs) @ cur_blocks (vd_flusher vd) @ vd_orderedBlockChan vd = map blocklog [1..<unat (vd_expectedSequence vd)])"

lemma agg_AddBlock_keeps:
  assumes "agg_AddBlock alloc b a = (None, a')" and "readable alloc b" and "\<forall>b \<in> set (ag_blockList a). readable alloc b"
  shows "\<forall>b \<in> set (ag_blockList a'). readable alloc b"
  using assms set_update_subset_insert[of "ag_blockList a" "ag_size a" b]
  by (auto simp: agg_AddBlock_def CopyBlock_readable Let_def split: if_splits)

lemma fl_AddBlock_ok:
  assumes f: "flusher_wf alloc f" "\<not> fl_Full f" and b: "readable alloc b" and z: "alloc [] = None"
  shows "\<exists>f'. fl_AddBlock alloc None b f = (None, f') \<and> flusher_wf alloc f' \<and> cur_blocks f' = cur_blocks f @ [b] \<and> fl_flushSize f' = fl_flushSize f"
proof -
  have zr: "readable alloc zero_block" using z by (simp add: readable_def zero_block_def)
  obtain a where a: "(if fl_curAgg f = None then initAggregation None f else (None, f)) = (None, f\<lparr>fl_curAgg := Some a\<rparr>)"
    "agg_ok a" "\<not> agg_Full a" "agg_blocks a = cur_blocks f" "ag_maxBlockNum a = fl_flushSize f" "\<forall>b \<in> set (ag_blockList a). readable alloc b"
  proof (cases "fl_curAgg f")
    case None
    let ?a = "\<lparr>ag_agg = \<lparr>ta_Size = 0, ta_Timestamp = 0, ta_Blocks = replicate (fl_flushSize f) zero_block\<rparr>,
                     ag_lastSequence = 0, ag_size = 0, ag_maxBlockNum = fl_flushSize f\<rparr>"
    show ?thesis by (rule that[of ?a]) (use None f(1) zr in \<open>auto simp: initAggregation_def NewAggregation_def agg_ok_def agg_Full_def agg_blocks_def cur_blocks_def flusher_wf_def\<close>)
  next
    case (Some a)
    show ?thesis by (rule that[of a]) (use Some f in \<open>auto simp: flusher_wf_def fl_Full_def cur_blocks_def\<close>)
  qed
  from agg_AddBlock_ok[OF a(2,3) b] obtain a' where
    a': "agg_AddBlock alloc b a = (None, a')" "agg_ok a'" "agg_blocks a' = agg_blocks a @ [b]" "ag_maxBlockNum a' = ag_maxBlockNum a" by blast
  have "fl_AddBlock alloc None b f = (None, f\<lparr>fl_curAgg := Some a'\<rparr>)" using a(1) a'(1) by (simp add: fl_AddBlock_def with_curAgg_def)
  moreover have "\<forall>b \<in> set (ag_blockList a'). readable alloc b" by (rule agg_AddBlock_keeps[OF a'(1) b a(6)])
  ultimately show ?thesis using f(1) a a' by (simp add: flusher_wf_def cur_blocks_def)
qed

text \<open>What a vdisk relies on: readable blocks can be encoded, keys are not nil, and encoded aggregations of the vdisk have keys of their own.\<close>

locale tlog_service = tlog_stor "te_zs env" objects etcd "te_enc env" "te_dec env"
  for env :: "'w tlog_env" and objects etcd +
  fixes vid :: string
  assumes alloc_nil: "te_alloc env [] = None"
    and enc_ok: "\<forall>b \<in> set (ta_Blocks a). readable (te_alloc env) b \<Longrightarrow> \<exists>d. te_enc env a = Inr d"
    and keys: "te_hasher env d \<noteq> []"
    and no_collision: "te_enc env a = Inr d \<Longrightarrow> te_enc env b = Inr d' \<Longrightarrow>
      te_hasher env (bytes_of_string vid @ d) = te_hasher env (bytes_of_string vid @ d') \<Longrightarrow> d = d'"

text \<open>A log: block \<open>q\<close> has sequence \<open>q\<close>, can be read and passes the check of its hash.\<close>

locale tlog_vdisk = tlog_service env objects etcd vid
  for env :: "'w tlog_env" and objects etcd vid +
  fixes blocklog :: "nat \<Rightarrow> TlogBlock" and N :: nat
  assumes log: "1 \<le> q \<Longrightarrow> q \<le> N \<Longrightarrow> tb_Sequence (blocklog q) = of_nat q \<and> readable (te_alloc env) (blocklog q) \<and> vd_hash env (blocklog q) = None"
    and log_bound: "N + 1 < 2 ^ 64"
begin

lemma log_distinct: "n \<le> N + 1 \<Longrightarrow> distinct (map blocklog [1..<n])"
proof -
  assume n: "n \<le> N + 1"
  have "inj_on blocklog {1..<n}"
  proof (intro inj_onI)
    fix q q' assume q: "q \<in> {1..<n}" "q' \<in> {1..<n}" "blocklog q = blocklog q'"
    then have "(of_nat q :: uint64) = of_nat q'" using log[of q] log[of q'] n by auto
    then have "unat (of_nat q :: uint64) = unat (of_nat q' :: uint64)" by (rule arg_cong)
    moreover have "q < 2 ^ 64" "q' < 2 ^ 64" using q(1,2) n log_bound by simp_all
    ultimately show "q = q'" by (simp only: unat_of_nat_small)
  qed
  then show ?thesis by (simp add: distinct_map)
qed

text \<open>Flushing a non-empty aggregation stores it and reports its sequences.\<close>

lemma flush_now_ok:
  assumes s: "stored_inv env objects etcd vid (vd, w) aggs" and f: "flusher_wf (te_alloc env) (vd_flusher vd)" and ne: "cur_blocks (vd_flusher vd) \<noteq> []"
    and d: "distinct (concat (map used_blocks aggs) @ cur_blocks (vd_flusher vd))"
  shows "\<exists>vd' w' agg. flush_now env now (vd, w) = (vd', w') \<and> stored_inv env objects etcd vid (vd', w') (aggs @ [agg]) \<and> used_blocks agg = cur_blocks (vd_flusher vd) \<and> ta_Timestamp agg = now \<and>
    flusher_wf (te_alloc env) (vd_flusher vd') \<and> cur_blocks (vd_flusher vd') = [] \<and> \<not> fl_Full (vd_flusher vd') \<and>
    vd_expectedSequence vd' = vd_expectedSequence vd \<and> vd_orderedBlockChan vd' = vd_orderedBlockChan vd \<and> vd_stopped vd' = vd_stopped vd"
proof -
  from ne obtain a where a: "fl_curAgg (vd_flusher vd) = Some a" "agg_blocks a \<noteq> []" by (auto simp: cur_blocks_def split: option.splits)
  with f have ok: "agg_ok a" and mx: "ag_maxBlockNum a = fl_flushSize (vd_flusher vd)" "fl_flushSize (vd_flusher vd) < 2 ^ 31"
    and rd: "\<forall>b \<in> set (ag_blockList a). readable (te_alloc env) b" by (simp_all add: flusher_wf_def)
  have notempty: "\<not> agg_Empty a" using agg_Empty_blocks[OF ok] a(2) by simp
  define agg where "agg = (ag_agg a)\<lparr>ta_Timestamp := now, ta_Size := of_nat (ag_size a)\<rparr>"
  have sz: "ag_size a < 2 ^ 31" "ag_size a \<le> length (ag_blockList a)" "length (ag_blockList a) < 2 ^ 31" using ok mx by (simp_all add: agg_ok_def)
  have n: "unat (of_nat (ag_size a) :: uint64) = ag_size a" using sz(1) by (intro unat_of_nat_small) simp
  have ts: "ta_Timestamp agg = now" by (simp add: agg_def)
  have ta: "ta_Size agg = of_nat (ag_size a)" "ta_Blocks agg = ag_blockList a" by (simp_all add: agg_def)
  have used: "used_blocks agg = agg_blocks a" by (simp only: used_blocks_def ta n agg_blocks_def)
  have wf: "agg_wf agg" unfolding agg_wf_def ta n using sz(2,3) by blast
  from enc_ok[OF rd[folded ta(2)]] obtain data where e: "te_enc env agg = Inr data" by blast
  have rel: "stor_rel (te_enc env) (vd_storClient vd) (objects w) (etcd w) (map (key_of env vid) aggs) aggs" and v: "sc_vdiskID (vd_storClient vd) = vid"
    and dm: "dom (objects w) = set (map (key_of env vid) aggs)" and old: "\<forall>a \<in> set aggs. agg_wf a \<and> used_blocks a \<noteq> [] \<and> (\<exists>d. te_enc env a = Inr d)"
    using s by (simp_all add: stored_inv_def)
  have cur: "cur_blocks (vd_flusher vd) = agg_blocks a" using a(1) by (simp add: cur_blocks_def)
  have "key_of env vid agg \<noteq> key_of env vid b" if "b \<in> set aggs" for b
  proof
    assume k: "key_of env vid agg = key_of env vid b"
    from bspec[OF old that] obtain db where b: "te_enc env b = Inr db" by (elim conjE exE)
    then have "data = db" using k e no_collision[of agg data b db] by (simp add: key_of_def)
    then have "agg = b" using dec_enc[OF e] dec_enc[OF b] by simp
    then have "set (agg_blocks a) \<subseteq> set (concat (map used_blocks aggs))" using that used by auto
    then show False using d a(2) cur by (cases "agg_blocks a") auto
  qed
  then have fresh: "objects w (key_of env vid agg) = None" using dm by (metis domIff imageE list.set_map)
  have key: "key_of env vid agg = te_hasher env (bytes_of_string (sc_vdiskID (vd_storClient vd)) @ data)" by (simp add: key_of_def e v)
  from ProcessStoreAgg_ok[where hasher = "te_hasher env", OF rel agg_def e key keys[of "bytes_of_string (sc_vdiskID (vd_storClient vd)) @ data", folded key] fresh] obtain c' w' where
    p: "ProcessStoreAgg (te_zs env) (te_hasher env) (te_enc env) now a (vd_storClient vd, w) = (Inr data, a\<lparr>ag_agg := agg\<rparr>, c', w')"
    "stor_rel (te_enc env) c' (objects w') (etcd w') (map (key_of env vid) aggs @ [key_of env vid agg]) (aggs @ [agg])" "sc_vdiskID c' = sc_vdiskID (vd_storClient vd)"
    "dom (objects w') = insert (key_of env vid agg) (dom (objects w))" by blast
  have ok': "agg_ok (a\<lparr>ag_agg := agg\<rparr>)" "agg_blocks (a\<lparr>ag_agg := agg\<rparr>) = agg_blocks a"
    using ok by (simp_all add: agg_ok_def agg_blocks_def agg_def)
  have seqs: "Sequences (a\<lparr>ag_agg := agg\<rparr>) = map tb_Sequence (used_blocks agg)" using Sequences_blocks[OF ok'(1)] ok'(2) used by simp
  let ?vd = "fst (flush_now env now (vd, w))"
  let ?f = "(vd_flusher vd)\<lparr>fl_curAgg := None\<rparr>"
  have fl: "flush_now env now (vd, w) = (?vd, w')" "vd_flusher ?vd = ?f" "vd_storClient ?vd = c'"
    "vd_respChan ?vd = vd_respChan vd @ [(FlushOK, map tb_Sequence (used_blocks agg))]"
    "vd_expectedSequence ?vd = vd_expectedSequence vd" "vd_orderedBlockChan ?vd = vd_orderedBlockChan vd" "vd_stopped ?vd = vd_stopped vd"
    using a(1) notempty p(1) by (auto simp: flush_now_def fl_flush_def seqs respond_def sendAggToSlaveSync_def Let_def)
  have "stored_inv env objects etcd vid (?vd, w') (aggs @ [agg])"
  proof -
    have "dom (objects w') = set (map (key_of env vid) (aggs @ [agg]))" using p(4) dm by simp
    moreover have "\<exists>a \<in> set (aggs @ [agg]). seqs = map tb_Sequence (used_blocks a)" if "(FlushOK, seqs) \<in> set (vd_respChan ?vd)" for seqs
      using that s unfolding fl(4) stored_inv_def by auto
    moreover have "\<forall>a \<in> set (aggs @ [agg]). agg_wf a \<and> used_blocks a \<noteq> [] \<and> (\<exists>d. te_enc env a = Inr d)"
      using old wf used a(2) e by simp
    ultimately show ?thesis unfolding stored_inv_def prod.case fl(3) using p(2,3) v by simp
  qed
  moreover have "flusher_wf (te_alloc env) ?f" "cur_blocks ?f = []" "\<not> fl_Full ?f" using f by (simp_all add: flusher_wf_def cur_blocks_def fl_Full_def)
  ultimately show ?thesis using fl used cur ts by (intro exI[of _ ?vd] exI[of _ w'] exI[of _ agg]) simp
qed

end

section \<open>Steps\<close>

text \<open>Events of a connection that carries the log: a block is one of the log or its hash is wrong.\<close>

definition in_log :: "'w tlog_env \<Rightarrow> (nat \<Rightarrow> TlogBlock) \<Rightarrow> nat \<Rightarrow> TlogBlock \<Rightarrow> bool" where
  "in_log env blocklog N b \<longleftrightarrow> vd_hash env b \<noteq> None \<or>
     1 \<le> unat (tb_Sequence b) \<and> unat (tb_Sequence b) \<le> N \<and> b = blocklog (unat (tb_Sequence b))"

fun event_in_log :: "'w tlog_env \<Rightarrow> (nat \<Rightarrow> TlogBlock) \<Rightarrow> nat \<Rightarrow> vdisk_event \<Rightarrow> bool" where
  "event_in_log env blocklog N (VdMessage (ClientBlock (Inr b))) \<longleftrightarrow> in_log env blocklog N b"
| "event_in_log env blocklog N ev \<longleftrightarrow> True"

lemma stored_inv_cong:
  assumes "stored_inv env objects etcd vid (vd, w) aggs" and "vd_storClient vd' = vd_storClient vd"
    and "vd_respChan vd' = vd_respChan vd \<or> (\<exists>st seqs. st \<noteq> FlushOK \<and> vd_respChan vd' = vd_respChan vd @ [(st, seqs)])"
  shows "stored_inv env objects etcd vid (vd', w) aggs"
  using assms by (auto simp: stored_inv_def)

context tlog_vdisk
begin

lemma handleBlock_ok:
  assumes i: "vd_inv env objects etcd vid blocklog N (vd, w) aggs" and b: "in_log env blocklog N b"
  shows "vd_inv env objects etcd vid blocklog N (snd (handleBlock env b vd), w) aggs"
proof (cases "vd_hash env b = None \<and> tb_Sequence b = vd_expectedSequence vd")
  case True
  let ?q = "unat (tb_Sequence b)"
  let ?vd = "respond RecvOK [tb_Sequence b] (vd\<lparr>vd_expectedSequence := vd_expectedSequence vd + 1, vd_orderedBlockChan := vd_orderedBlockChan vd @ [b]\<rparr>)"
  have q: "1 \<le> ?q" "?q \<le> N" "b = blocklog ?q" using b True by (auto simp: in_log_def)
  have s: "stored_inv env objects etcd vid (vd, w) aggs" using i by (simp add: vd_inv_def)
  have s': "stored_inv env objects etcd vid (?vd, w) aggs" by (rule stored_inv_cong[OF s]) (auto simp: respond_def)
  have "unat (vd_expectedSequence vd + 1) = ?q + 1" using unat_succ[of "vd_expectedSequence vd"] True q(2) log_bound by simp
  moreover have "map blocklog [1..<?q + 1] = map blocklog [1..<?q] @ [b]" using q by simp
  ultimately have "vd_inv env objects etcd vid blocklog N (?vd, w) aggs"
    using i True q s' by (simp add: vd_inv_def respond_def flip: append_assoc)
  then show ?thesis using True by (simp add: handleBlock_def Let_def)
next
  case False
  have s: "stored_inv env objects etcd vid (vd, w) aggs" using i by (simp add: vd_inv_def)
  have "stored_inv env objects etcd vid (respond RecvOK [tb_Sequence b] vd, w) aggs" by (rule stored_inv_cong[OF s]) (auto simp: respond_def)
  with i False show ?thesis by (auto simp: handleBlock_def vd_inv_def respond_def Let_def split: option.splits)
qed

text \<open>A flush moves the blocks of the current aggregation into the store.\<close>

lemma flush_step:
  assumes s: "stored_inv env objects etcd vid (vd, w) aggs" and f: "flusher_wf (te_alloc env) (vd_flusher vd)" and ne: "cur_blocks (vd_flusher vd) \<noteq> []"
    and n: "\<not> vd_stopped vd" "1 \<le> unat (vd_expectedSequence vd)" "unat (vd_expectedSequence vd) \<le> N + 1"
    and c: "concat (map used_blocks aggs) @ cur_blocks (vd_flusher vd) @ vd_orderedBlockChan vd = map blocklog [1..<unat (vd_expectedSequence vd)]"
  shows "\<exists>agg. vd_inv env objects etcd vid blocklog N (flush_now env now (vd, w)) (aggs @ [agg]) \<and> ta_Timestamp agg = now"
proof -
  have "distinct (concat (map used_blocks aggs) @ cur_blocks (vd_flusher vd) @ vd_orderedBlockChan vd)" unfolding c by (rule log_distinct[OF n(3)])
  then have "distinct (concat (map used_blocks aggs) @ cur_blocks (vd_flusher vd))" by (simp only: append_assoc[symmetric] distinct_append)
  from flush_now_ok[OF s f ne this, of now] obtain vd' w' agg where
    "flush_now env now (vd, w) = (vd', w')" "stored_inv env objects etcd vid (vd', w') (aggs @ [agg])" "used_blocks agg = cur_blocks (vd_flusher vd)" "ta_Timestamp agg = now"
    "flusher_wf (te_alloc env) (vd_flusher vd')" "cur_blocks (vd_flusher vd') = []" "\<not> fl_Full (vd_flusher vd')"
    "vd_expectedSequence vd' = vd_expectedSequence vd" "vd_orderedBlockChan vd' = vd_orderedBlockChan vd" "vd_stopped vd' = vd_stopped vd" by blast
  with n c show ?thesis by (intro exI[of _ agg]) (simp add: vd_inv_def)
qed

lemma flusher_timer_ok:
  assumes "vd_inv env objects etcd vid blocklog N (vd, w) aggs"
  shows "\<exists>new. vd_inv env objects etcd vid blocklog N (flusher_timer env now (vd, w)) (aggs @ new) \<and> (\<forall>a \<in> set new. ta_Timestamp a = now)"
proof (cases "fl_Empty (vd_flusher vd)")
  case True
  then show ?thesis using assms by (intro exI[of _ "[]"]) (simp add: flusher_timer_def)
next
  case False
  have "cur_blocks (vd_flusher vd) \<noteq> []"
    using False assms agg_Empty_blocks by (auto simp: fl_Empty_def cur_blocks_def vd_inv_def flusher_wf_def split: option.splits)
  with assms flush_step[of vd w aggs now] obtain agg where
    "vd_inv env objects etcd vid blocklog N (flush_now env now (vd, w)) (aggs @ [agg])" "ta_Timestamp agg = now" by (auto simp: vd_inv_def)
  then show ?thesis using False by (intro exI[of _ "[agg]"]) (simp add: flusher_timer_def)
qed

lemma flusher_block_ok:
  assumes i: "vd_inv env objects etcd vid blocklog N (vd, w) aggs"
  shows "\<exists>new. vd_inv env objects etcd vid blocklog N (flusher_block env now (vd, w)) (aggs @ new) \<and> (\<forall>a \<in> set new. ta_Timestamp a = now)"
proof (cases "vd_orderedBlockChan vd")
  case Nil
  then show ?thesis using i by (intro exI[of _ "[]"]) (simp add: flusher_block_def)
next
  case (Cons b rest)
  have c: "concat (map used_blocks aggs) @ cur_blocks (vd_flusher vd) @ b # rest = map blocklog [1..<unat (vd_expectedSequence vd)]"
    using i Cons by (simp add: vd_inv_def)
  have "b \<in> set (map blocklog [1..<unat (vd_expectedSequence vd)])" unfolding c[symmetric] by simp
  then obtain q where "b = blocklog q" "1 \<le> q" "q < unat (vd_expectedSequence vd)" by auto
  then have rd: "readable (te_alloc env) b" using log[of q] i by (auto simp: vd_inv_def)
  from i have f: "flusher_wf (te_alloc env) (vd_flusher vd)" "\<not> fl_Full (vd_flusher vd)" by (simp_all add: vd_inv_def)
  from fl_AddBlock_ok[OF f rd alloc_nil] obtain f1 where
    f1: "fl_AddBlock (te_alloc env) None b (vd_flusher vd) = (None, f1)" "flusher_wf (te_alloc env) f1" "cur_blocks f1 = cur_blocks (vd_flusher vd) @ [b]" by blast
  have s: "stored_inv env objects etcd vid (vd, w) aggs" using i by (simp add: vd_inv_def)
  have step: "\<exists>agg. vd_inv env objects etcd vid blocklog N
      (flush_now env now (vd\<lparr>vd_orderedBlockChan := rest, vd_flusher := f1, vd_maxSeq := tb_Sequence b, vd_needForceFlushSeq := nf\<rparr>, w)) (aggs @ [agg]) \<and> ta_Timestamp agg = now" for nf
    by (rule flush_step) (use i c f1 in \<open>auto simp: vd_inv_def intro: stored_inv_cong[OF s]\<close>)
  have keep: "vd_inv env objects etcd vid blocklog N (vd\<lparr>vd_orderedBlockChan := rest, vd_flusher := f1, vd_maxSeq := tb_Sequence b\<rparr>, w) aggs" if "\<not> fl_Full f1"
    using i c f1 that by (auto simp: vd_inv_def intro: stored_inv_cong[OF s])
  show ?thesis
  proof (cases "vd_needForceFlushSeq vd \<and> tb_Sequence b \<ge> vd_seqToForceFlush vd")
    case True
    from step[of False] obtain agg where "vd_inv env objects etcd vid blocklog N
      (flush_now env now (vd\<lparr>vd_orderedBlockChan := rest, vd_flusher := f1, vd_maxSeq := tb_Sequence b, vd_needForceFlushSeq := False\<rparr>, w)) (aggs @ [agg])"
      "ta_Timestamp agg = now" by blast
    then show ?thesis using True Cons f1(1) by (intro exI[of _ "[agg]"]) (simp add: flusher_block_def Let_def)
  next
    case nf: False
    show ?thesis
    proof (cases "fl_Full f1")
      case True
      have "vd\<lparr>vd_orderedBlockChan := rest, vd_flusher := f1, vd_maxSeq := tb_Sequence b, vd_needForceFlushSeq := vd_needForceFlushSeq vd\<rparr> =
        vd\<lparr>vd_orderedBlockChan := rest, vd_flusher := f1, vd_maxSeq := tb_Sequence b\<rparr>" by simp
      with step[of "vd_needForceFlushSeq vd"] obtain agg where "vd_inv env objects etcd vid blocklog N
        (flush_now env now (vd\<lparr>vd_orderedBlockChan := rest, vd_flusher := f1, vd_maxSeq := tb_Sequence b\<rparr>, w)) (aggs @ [agg])"
        "ta_Timestamp agg = now" by auto
      then show ?thesis using nf True Cons f1(1) by (intro exI[of _ "[agg]"]) (auto simp: flusher_block_def Let_def)
    next
      case False
      then show ?thesis using keep nf Cons f1(1) by (intro exI[of _ "[]"]) (auto simp: flusher_block_def Let_def)
    qed
  qed
qed

lemma inv_update:
  assumes "vd_inv env objects etcd vid blocklog N (vd, w) aggs" and "vd_storClient vd' = vd_storClient vd" and "vd_flusher vd' = vd_flusher vd"
    and "vd_respChan vd' = vd_respChan vd \<or> (\<exists>st seqs. st \<noteq> FlushOK \<and> vd_respChan vd' = vd_respChan vd @ [(st, seqs)])"
    and "vd_expectedSequence vd' = vd_expectedSequence vd" and "vd_orderedBlockChan vd' = vd_orderedBlockChan vd" and "vd_stopped vd' = vd_stopped vd"
  shows "vd_inv env objects etcd vid blocklog N (vd', w) aggs"
  using assms stored_inv_cong[of env objects etcd vid vd w aggs vd'] by (simp add: vd_inv_def)

lemma flusher_command_ok:
  assumes i: "vd_inv env objects etcd vid blocklog N (vd, w) aggs" and c: "\<forall>q. cmd \<noteq> vdiskCmdIgnoreSeqBefore q"
  shows "\<exists>vd' w' new. flusher_command env now cmd (vd, w) = Inr (vd', w') \<and> vd_inv env objects etcd vid blocklog N (vd', w') (aggs @ new) \<and>
    (\<forall>a \<in> set new. ta_Timestamp a = now)"
proof (cases cmd)
  case (vdiskCmdForceFlushAtSeq seq)
  have v: "vd_inv env objects etcd vid blocklog N (vd\<lparr>vd_seqToForceFlush := seq, vd_needForceFlushSeq := x\<rparr>, w) aggs" for x
    by (rule inv_update[OF i]) simp_all
  from flusher_timer_ok[OF v[of False], of now] v[of True] show ?thesis
    by (cases "flusher_timer env now (vd\<lparr>vd_seqToForceFlush := seq, vd_needForceFlushSeq := False\<rparr>, w)"; cases "vd_maxSeq vd < seq")
      (auto simp: flusher_command_def vdiskCmdForceFlushAtSeq Let_def intro: exI[of _ "[]"])
next
  case vdiskCmdWaitSlaveSync
  with flusher_timer_ok[OF i, of now] show ?thesis by (cases "flusher_timer env now (vd, w)") (auto simp: flusher_command_def)
qed (use c in auto)

lemma vd_step_ok:
  assumes i: "vd_inv env objects etcd vid blocklog N st aggs" and ev: "event_in_log env blocklog N ev"
  shows "\<exists>new. vd_inv env objects etcd vid blocklog N (vd_step env now ev st) (aggs @ new) \<and> (\<forall>a \<in> set new. ta_Timestamp a = now)"
proof -
  obtain vd w where st: "st = (vd, w)" by fastforce
  have ns: "\<not> vd_stopped vd" using i by (simp add: vd_inv_def st)
  have same: "\<exists>new. vd_inv env objects etcd vid blocklog N (vd, w) (aggs @ new) \<and> (\<forall>a \<in> set new. ta_Timestamp a = now)" using i by (intro exI[of _ "[]"]) (simp add: st)
  have resp: "\<exists>new. vd_inv env objects etcd vid blocklog N (respond r [] vd', w') (aggs @ new) \<and> (\<forall>a \<in> set new. ta_Timestamp a = now)"
    if "\<exists>new. vd_inv env objects etcd vid blocklog N (vd', w') (aggs @ new) \<and> (\<forall>a \<in> set new. ta_Timestamp a = now)" "r \<noteq> FlushOK" for r vd' w'
    using that inv_update[of vd' w' _ "respond r [] vd'"] by (auto simp: respond_def)
  have timer: "\<exists>new. vd_inv env objects etcd vid blocklog N (flusher_timer env now (vd', w)) (aggs @ new) \<and> (\<forall>a \<in> set new. ta_Timestamp a = now)"
    if "vd_inv env objects etcd vid blocklog N (vd', w) aggs" for vd' using flusher_timer_ok[OF that] .
  show ?thesis
  proof (cases ev)
    case (VdMessage msg)
    show ?thesis
    proof (cases msg)
      case (ClientBlock r)
      show ?thesis
      proof (cases r)
        case (Inr b)
        then have "vd_inv env objects etcd vid blocklog N (snd (handleBlock env b vd), w) aggs"
          using handleBlock_ok[of vd w aggs b] i ev VdMessage ClientBlock by (simp add: st)
        then show ?thesis using ns by (intro exI[of _ "[]"]) (simp add: vd_step_def vd_handle_def st VdMessage ClientBlock Inr case_prod_unfold Let_def)
      qed (use same ns in \<open>simp add: vd_step_def vd_handle_def st VdMessage ClientBlock\<close>)
    next
      case (ClientForceFlushAtSeq seq)
      from flusher_command_ok[OF i[unfolded st], of "vdiskCmdForceFlushAtSeq seq" now] obtain vd1 w1 where
        "flusher_command env now (vdiskCmdForceFlushAtSeq seq) (vd, w) = Inr (vd1, w1)" "\<exists>new. vd_inv env objects etcd vid blocklog N (vd1, w1) (aggs @ new) \<and> (\<forall>a \<in> set new. ta_Timestamp a = now)" by auto
      then show ?thesis using ns resp[of vd1 w1 ForceFlushReceived] by (simp add: vd_step_def vd_handle_def st VdMessage ClientForceFlushAtSeq)
    next
      case (ClientWaitNBDSlaveSync e)
      from flusher_command_ok[OF i[unfolded st], of vdiskCmdWaitSlaveSync now] obtain vd1 w1 where
        c: "flusher_command env now vdiskCmdWaitSlaveSync (vd, w) = Inr (vd1, w1)" "\<exists>new. vd_inv env objects etcd vid blocklog N (vd1, w1) (aggs @ new) \<and> (\<forall>a \<in> set new. ta_Timestamp a = now)" by auto
      have "\<exists>new. vd_inv env objects etcd vid blocklog N (destroySlaveSync vd1, w1) (aggs @ new) \<and> (\<forall>a \<in> set new. ta_Timestamp a = now)"
        using c(2) inv_update[of vd1 w1 _ "destroySlaveSync vd1"] by (auto simp: destroySlaveSync_def)
      with c same show ?thesis using ns resp[of _ _ WaitNbdSlaveSyncReceived]
        by (simp add: vd_step_def vd_handle_def st VdMessage ClientWaitNBDSlaveSync Let_def)
    qed (use same ns in \<open>simp_all add: vd_step_def vd_handle_def st VdMessage\<close>)
  next
    case VdFlusher
    then show ?thesis using flusher_block_ok[of vd w aggs now] i ns by (simp add: vd_step_def st)
  next
    case VdTimer
    then show ?thesis using timer[of vd] i ns by (simp add: vd_step_def st)
  qed
qed

end


context tlog_vdisk
begin

text \<open>
  Whatever happens on a connection, what is stored, in the current aggregation and queued is a prefix of the log, and grows at its end.
\<close>

theorem vd_run_ok:
  "vd_inv env objects etcd vid blocklog N st aggs \<Longrightarrow> list_all (event_in_log env blocklog N) evs \<Longrightarrow>
   \<exists>new. vd_inv env objects etcd vid blocklog N (vd_run env now evs st) (aggs @ new) \<and> (\<forall>a \<in> set new. now \<le> ta_Timestamp a \<and> ta_Timestamp a < now + int (length evs))"
proof (induction evs arbitrary: now st aggs)
  case Nil
  then show ?case by (intro exI[of _ "[]"]) simp
next
  case (Cons ev evs)
  from vd_step_ok[OF Cons.prems(1), of ev now] Cons.prems(2) obtain new1 where
    "vd_inv env objects etcd vid blocklog N (vd_step env now ev st) (aggs @ new1)" "\<forall>a \<in> set new1. ta_Timestamp a = now" by auto
  from Cons.IH[OF this(1), of "now + 1"] Cons.prems(2) obtain new2 where
    "vd_inv env objects etcd vid blocklog N (vd_run env (now + 1) evs (vd_step env now ev st)) ((aggs @ new1) @ new2)" "\<forall>a \<in> set new2. now + 1 \<le> ta_Timestamp a \<and> ta_Timestamp a < now + 1 + int (length evs)" by auto
  with \<open>\<forall>a \<in> set new1. ta_Timestamp a = now\<close> show ?case by (intro exI[of _ "new1 @ new2"]) auto
qed

text \<open>The first connection to a vdisk without flushed blocks starts at the beginning of the log.\<close>

lemma connect_first:
  assumes "stor_NewClient (te_zs env) (te_dec env) vid w = Some (Inr c)" and "objects w = Map.empty" and "etcd w = Map.empty"
    and "vd_connect env conn (newVdisk vid c flushSize ss [], w) = Some (r, vd)" and "flushSize < 2 ^ 31"
  shows "r = Inr 0" and "vd_inv env objects etcd vid blocklog N (vd, w) []"
proof -
  let ?c0 = "\<lparr>sc_vdiskID = vid, sc_firstMetaKey = [], sc_lastMetaKey = [], sc_lastSequence = 0, sc_lastMd = None, sc_refList = [vid], sc_storeNum = 0\<rparr>"
  have c: "c = ?c0" using assms(1,3) by (simp add: stor_NewClient_def getFirstMetaKey_def MetaClient_GetMeta_def etcd_get LoadLastSequence_def)
  have r: "(Inr 0, vd) = (r, vd) \<and> vd = (newVdisk vid c flushSize ss [])\<lparr>vd_clientConn := Some conn, vd_expectedSequence := 1\<rparr>"
    using assms(4) by (simp add: vd_connect_def attachConn_def newVdisk_def loadLastFlushedSequence_def LoadLastSequence_def c FirstSequence_def Let_def)
  then show "r = Inr 0" by simp
  have "stored_inv env objects etcd vid (vd, w) []" using r assms(2,3) by (simp add: stored_inv_def stor_rel_def newVdisk_def c)
  moreover have "flusher_wf (te_alloc env) (vd_flusher vd)" "cur_blocks (vd_flusher vd) = []" "\<not> fl_Full (vd_flusher vd)"
    using r assms(5) by (auto simp: newVdisk_def flusher_wf_def cur_blocks_def fl_Full_def NewWithStorClient_def DefaultFlushSize_def)
  ultimately show "vd_inv env objects etcd vid blocklog N (vd, w) []" using r by (simp add: vd_inv_def newVdisk_def)
qed

end


end
