(* ===== verification/Block_Buffer.thy ===== *)
theory Block_Buffer
  imports Tlog_Aggregation "HOL-Library.AList"
begin

text \<open>
  The buffer of the tlog client (\<open>tlog/tlogclient/blockbuffer\<close>): blocks sent and not yet received by the server, blocks received and
  not yet flushed, and the queue of sequences to look at for sending again. Go maps are association lists; the only loops over them
  collect keys that are sorted or deleted, so their order does not matter.
\<close>

section \<open>Entries\<close>

record entry =
  en_block :: TlogBlock
  en_retryNum :: int
  en_timeout :: int

definition newEntry :: "int \<Rightarrow> TlogBlock \<Rightarrow> int \<Rightarrow> entry" where
  "newEntry now block timeoutDur = \<lparr>en_block = block, en_retryNum = 0, en_timeout = now + timeoutDur\<rparr>"

definition entry_update :: "int \<Rightarrow> int \<Rightarrow> int \<Rightarrow> entry \<Rightarrow> entry" where
  "entry_update now timeoutDur retryInc ent = ent\<lparr>en_retryNum := en_retryNum ent + retryInc, en_timeout := now + timeoutDur\<rparr>"

definition setZero :: "entry \<Rightarrow> entry" where
  "setZero ent = ent\<lparr>en_retryNum := 0, en_timeout := 0\<rparr>"

section \<open>Buffer\<close>

record Buffer =
  bb_entries :: "(uint64 \<times> entry) list"
  bb_seqToTimeout :: "uint64 list"
  bb_waitToFlush :: "(uint64 \<times> entry) list"
  bb_timeout :: int
  bb_highestSequence :: uint64
  bb_lastFlush :: uint64

definition NewBuffer :: "int \<Rightarrow> Buffer" where
  "NewBuffer timeout = \<lparr>bb_entries = [], bb_seqToTimeout = [], bb_waitToFlush = [], bb_timeout = timeout, bb_highestSequence = 0, bb_lastFlush = 0\<rparr>"

definition SetResendAll :: "Buffer \<Rightarrow> Buffer" where
  "SetResendAll b =
     (let zeroed = map (\<lambda>(seq, ent). (seq, setZero ent))
      in b\<lparr>bb_seqToTimeout := sort (map fst (bb_entries b) @ map fst (bb_waitToFlush b)),
           bb_entries := fold (\<lambda>(seq, ent). AList.update seq ent) (zeroed (bb_waitToFlush b)) (zeroed (bb_entries b)),
           bb_waitToFlush := []\<rparr>)"

definition bb_Add :: "int \<Rightarrow> TlogBlock \<Rightarrow> Buffer \<Rightarrow> Buffer" where
  "bb_Add now block b =
     (let seq = tb_Sequence block
      in if seq < bb_lastFlush b then b
         else
           let b1 = b\<lparr>bb_seqToTimeout := bb_seqToTimeout b @ [seq]\<rparr>
           in case map_of (bb_entries b1) seq of
                Some ent \<Rightarrow> b1\<lparr>bb_entries := AList.update seq (entry_update now (bb_timeout b1) 1 ent) (bb_entries b1)\<rparr>
              | None \<Rightarrow>
                  b1\<lparr>bb_highestSequence := if seq > bb_highestSequence b1 then seq else bb_highestSequence b1,
                     bb_entries := AList.update seq (newEntry now block (bb_timeout b1)) (bb_entries b1)\<rparr>)"

definition setFlushed :: "uint64 list \<Rightarrow> Buffer \<Rightarrow> Buffer" where
  "setFlushed seqs b =
     (if length seqs = 0 then b
      else
        let b1 = b\<lparr>bb_waitToFlush := fold AList.delete seqs (bb_waitToFlush b), bb_entries := fold AList.delete seqs (bb_entries b)\<rparr>;
            lastSeq = last seqs
        in if bb_lastFlush b1 < lastSeq then b1\<lparr>bb_lastFlush := lastSeq\<rparr> else b1)"

definition SetLastFlushed :: "uint64 \<Rightarrow> Buffer \<Rightarrow> Buffer" where
  "SetLastFlushed lastSeq b =
     setFlushed (filter (\<lambda>seq. seq < lastSeq) (map fst (bb_waitToFlush b)) @ filter (\<lambda>seq. seq < lastSeq) (map fst (bb_entries b)) @ [lastSeq]) b"

definition SetFlushed :: "uint64 list \<Rightarrow> Buffer \<Rightarrow> Buffer" where
  "SetFlushed seqs b = setFlushed seqs b"

definition LastFlushed :: "Buffer \<Rightarrow> uint64" where "LastFlushed b = bb_lastFlush b"

definition SetSent :: "uint64 \<Rightarrow> Buffer \<Rightarrow> Buffer" where
  "SetSent seq b =
     (case map_of (bb_entries b) seq of
        None \<Rightarrow> b
      | Some ent \<Rightarrow> b\<lparr>bb_waitToFlush := AList.update seq ent (bb_waitToFlush b), bb_entries := AList.delete seq (bb_entries b)\<rparr>)"

definition NeedResend :: "uint64 \<Rightarrow> Buffer \<Rightarrow> bool" where
  "NeedResend seq b \<longleftrightarrow> map_of (bb_entries b) seq \<noteq> None"

text \<open>The loop of \<open>getOne\<close>: the entry found and the index at which it ends, which is that of the last element when none is found.\<close>

fun getOne_loop :: "(uint64 \<times> entry) list \<Rightarrow> nat \<Rightarrow> uint64 list \<Rightarrow> entry option \<times> nat" where
  "getOne_loop entries i [] = (None, i - 1)"
| "getOne_loop entries i (seq # seqs) =
     (case map_of entries seq of
        Some ent \<Rightarrow> (Some ent, i)
      | None \<Rightarrow> if i = 1000 then (None, i) else getOne_loop entries (Suc i) seqs)"

definition getOne :: "Buffer \<Rightarrow> entry option \<times> Buffer" where
  "getOne b =
     (if length (bb_seqToTimeout b) = 0 then (None, b)
      else let (r, i) = getOne_loop (bb_entries b) 0 (bb_seqToTimeout b)
           in (r, b\<lparr>bb_seqToTimeout := drop (i + 1) (bb_seqToTimeout b)\<rparr>))"

section \<open>What the buffer holds\<close>

definition to_resend :: "Buffer \<Rightarrow> uint64 set" where "to_resend b = fst ` set (bb_entries b)"

definition unflushed :: "Buffer \<Rightarrow> uint64 set" where "unflushed b = fst ` set (bb_entries b) \<union> fst ` set (bb_waitToFlush b)"

definition buffer_ok :: "Buffer \<Rightarrow> bool" where
  "buffer_ok b \<longleftrightarrow> distinct (map fst (bb_entries b)) \<and> distinct (map fst (bb_waitToFlush b)) \<and>
     (\<forall>seq ent. map_of (bb_entries b) seq = Some ent \<or> map_of (bb_waitToFlush b) seq = Some ent \<longrightarrow> tb_Sequence (en_block ent) = seq)"

lemma fst_update [simp]: "fst ` set (AList.update k v xs) = insert k (fst ` set xs)"
  using dom_update[of k v xs] by (simp add: dom_map_of_conv_image_fst)

lemma fst_delete [simp]: "fst ` set (AList.delete k xs) = fst ` set xs - {k}"
  using arg_cong[OF delete_conv'[of k xs], of dom] by (simp add: dom_map_of_conv_image_fst)

lemma fst_fold_delete [simp]: "fst ` set (fold AList.delete ks xs) = fst ` set xs - set ks"
  by (induction ks arbitrary: xs) auto

lemma fst_fold_update [simp]: "fst ` set (fold (\<lambda>(k, v). AList.update k v) ys xs) = fst ` set xs \<union> fst ` set ys"
  by (induction ys arbitrary: xs) (simp_all add: split_def)

lemma map_of_None_fst: "map_of xs k = None \<longleftrightarrow> k \<notin> fst ` set xs"
  by (rule map_of_eq_None_iff)

text \<open>Nothing unflushed is lost: only a report of a flush takes a sequence out of the buffer.\<close>

lemma unflushed_Add: "unflushed (bb_Add now block b) =
    (if tb_Sequence block < bb_lastFlush b then unflushed b else insert (tb_Sequence block) (unflushed b))"
  by (auto simp: bb_Add_def unflushed_def Let_def split: option.splits)

lemma unflushed_SetSent: "unflushed (SetSent seq b) = unflushed b"
  using map_of_None_fst[of "bb_entries b" seq] by (auto simp: SetSent_def unflushed_def split: option.splits)

lemma unflushed_SetResendAll: "unflushed (SetResendAll b) = unflushed b" "to_resend (SetResendAll b) = unflushed b"
proof -
  have "fst ` (\<lambda>(seq, ent). (seq, setZero ent)) ` X = fst ` X" for X :: "(uint64 \<times> entry) set" by force
  then show "unflushed (SetResendAll b) = unflushed b" "to_resend (SetResendAll b) = unflushed b"
    by (simp_all add: SetResendAll_def unflushed_def to_resend_def Let_def)
qed

lemma unflushed_SetFlushed: "unflushed (SetFlushed seqs b) = unflushed b - set seqs"
  by (auto simp: SetFlushed_def setFlushed_def unflushed_def Let_def)

lemma unflushed_SetLastFlushed: "unflushed (SetLastFlushed lastSeq b) = {seq \<in> unflushed b. lastSeq < seq}"
  by (auto simp: SetLastFlushed_def setFlushed_def unflushed_def Let_def not_less dest: order_antisym)

lemma lastFlush_mono: "bb_lastFlush b \<le> bb_lastFlush (SetFlushed seqs b)" "bb_lastFlush b \<le> bb_lastFlush (SetLastFlushed q b)"
  by (auto simp: SetFlushed_def SetLastFlushed_def setFlushed_def Let_def)

section \<open>The queue\<close>

text \<open>\<open>getOne\<close> returns the first entry of the queue that still has to be sent, within the first 1001; what it drops before it has been received.\<close>

lemma getOne_loop_found:
  assumes "getOne_loop entries i seqs = (Some ent, j)"
  shows "i \<le> j \<and> j - i < length seqs \<and> map_of entries (seqs ! (j - i)) = Some ent \<and> (\<forall>k < j - i. map_of entries (seqs ! k) = None)"
  using assms
proof (induction entries i seqs rule: getOne_loop.induct)
  case (2 entries i seq seqs)
  show ?case
  proof (cases "map_of entries seq")
    case None
    then have "getOne_loop entries (Suc i) seqs = (Some ent, j)" and ne: "i \<noteq> 1000" using 2(2) by (auto split: if_splits)
    with 2(1)[OF None ne] have ih: "Suc i \<le> j" "j - Suc i < length seqs" "map_of entries (seqs ! (j - Suc i)) = Some ent"
      "\<forall>k < j - Suc i. map_of entries (seqs ! k) = None" by auto
    have d: "j - i = Suc (j - Suc i)" using ih(1) by simp
    show ?thesis unfolding d using ih None by (auto simp: nth_Cons split: nat.splits)
  qed (use 2(2) in auto)
qed simp

lemma getOne_loop_none:
  assumes "getOne_loop entries i seqs = (None, j)" and "seqs \<noteq> []"
  shows "i \<le> j \<and> j - i < length seqs \<and> (\<forall>k \<le> j - i. map_of entries (seqs ! k) = None)"
  using assms
proof (induction entries i seqs rule: getOne_loop.induct)
  case (2 entries i seq seqs)
  then have n: "map_of entries seq = None" by (cases "map_of entries seq") auto
  show ?case
  proof (cases "i = 1000 \<or> seqs = []")
    case True
    then show ?thesis using 2(2) n by (auto split: if_splits)
  next
    case False
    with 2(1)[OF n] 2(2) n have ih: "Suc i \<le> j" "j - Suc i < length seqs" "\<forall>k \<le> j - Suc i. map_of entries (seqs ! k) = None" by auto
    have d: "j - i = Suc (j - Suc i)" using ih(1) by simp
    show ?thesis unfolding d using ih n by (auto simp: nth_Cons split: nat.splits)
  qed
qed simp

lemma in_drop: "x \<in> set xs \<Longrightarrow> (\<And>k. k < n \<Longrightarrow> k < length xs \<Longrightarrow> xs ! k \<noteq> x) \<Longrightarrow> x \<in> set (drop n xs)"
proof -
  assume x: "x \<in> set xs" and n: "\<And>k. k < n \<Longrightarrow> k < length xs \<Longrightarrow> xs ! k \<noteq> x"
  have "x \<notin> set (take n xs)" using n by (auto simp: in_set_conv_nth)
  moreover have "x \<in> set (take n xs @ drop n xs)" using x by simp
  ultimately show ?thesis by (simp only: set_append Un_iff) blast
qed

text \<open>Every sequence to be sent again stays in the queue, but for the one taken out.\<close>

definition queued :: "Buffer \<Rightarrow> uint64 set \<Rightarrow> bool" where
  "queued b out \<longleftrightarrow> to_resend b \<subseteq> set (bb_seqToTimeout b) \<union> out"

lemma getOne_ok:
  assumes q: "queued b out" and ok: "buffer_ok b" and g: "getOne b = (r, b')"
  shows "bb_entries b' = bb_entries b \<and> bb_waitToFlush b' = bb_waitToFlush b \<and>
    (case r of None \<Rightarrow> queued b' out
     | Some ent \<Rightarrow> tb_Sequence (en_block ent) \<in> to_resend b \<and> queued b' (insert (tb_Sequence (en_block ent)) out))"
proof (cases "bb_seqToTimeout b = []")
  case True
  then show ?thesis using q g by (auto simp: getOne_def)
next
  case False
  let ?q = "bb_seqToTimeout b"
  obtain j where l: "getOne_loop (bb_entries b) 0 ?q = (r, j)" and b': "b' = b\<lparr>bb_seqToTimeout := drop (j + 1) ?q\<rparr>"
    using g False by (auto simp: getOne_def split: prod.splits)
  show ?thesis
  proof (cases r)
    case None
    from getOne_loop_none[OF l[unfolded None] False] have n: "\<forall>k \<le> j. map_of (bb_entries b) (?q ! k) = None" by simp
    have "x \<in> set (drop (j + 1) ?q) \<union> out" if "x \<in> to_resend b" for x
    proof (cases "x \<in> out")
      case False
      then have "x \<in> set ?q" using q that by (auto simp: queued_def)
      moreover have "?q ! k \<noteq> x" if "k < j + 1" for k using n that \<open>x \<in> to_resend b\<close> by (auto simp: to_resend_def map_of_None_fst less_Suc_eq_le)
      ultimately show ?thesis using in_drop[of x ?q "j + 1"] by auto
    qed simp
    then show ?thesis using None b' by (auto simp: queued_def to_resend_def)
  next
    case (Some ent)
    from getOne_loop_found[OF l[unfolded Some]] have f: "map_of (bb_entries b) (?q ! j) = Some ent" "\<forall>k < j. map_of (bb_entries b) (?q ! k) = None" by simp_all
    have seq: "tb_Sequence (en_block ent) = ?q ! j" and m: "?q ! j \<in> to_resend b"
      using ok f(1) map_of_SomeD[OF f(1)] by (force simp: buffer_ok_def to_resend_def)+
    have "x \<in> set (drop (j + 1) ?q) \<union> insert (?q ! j) out" if "x \<in> to_resend b" for x
    proof (cases "x \<in> out \<or> x = ?q ! j")
      case False
      then have "x \<in> set ?q" using q that by (auto simp: queued_def)
      moreover have "?q ! k \<noteq> x" if "k < j + 1" for k
        using f(2)[rule_format, of k] that \<open>x \<in> to_resend b\<close> False unfolding to_resend_def map_of_None_fst by (cases "k = j") auto
      ultimately show ?thesis using in_drop[of x ?q "j + 1"] by auto
    qed auto
    then show ?thesis using Some b' seq m by (auto simp: queued_def to_resend_def)
  qed
qed


section \<open>Every operation keeps the buffer well-formed and the queue complete\<close>

text \<open>The entries of a buffer satisfy a predicate on sequences and blocks.\<close>

definition all_entries :: "(uint64 \<Rightarrow> TlogBlock \<Rightarrow> bool) \<Rightarrow> Buffer \<Rightarrow> bool" where
  "all_entries P b \<longleftrightarrow>
     (\<forall>seq ent. map_of (bb_entries b) seq = Some ent \<or> map_of (bb_waitToFlush b) seq = Some ent \<longrightarrow> P seq (en_block ent))"

lemma map_of_fold_delete: "map_of (fold AList.delete ks xs) k = (if k \<in> set ks then None else map_of xs k)"
  by (induction ks arbitrary: xs) (auto simp: delete_conv')

lemma map_of_fold_update:
  "map_of (fold (\<lambda>(k, v). AList.update k v) ys xs) k = Some v \<Longrightarrow> map_of xs k = Some v \<or> (k, v) \<in> set ys"
proof (induction ys arbitrary: xs)
  case (Cons y ys)
  then show ?case by (cases y) (auto simp: update_conv' split: if_splits dest!: Cons.IH)
qed simp

lemma map_of_zeroed: "map_of (map (\<lambda>(seq, ent). (seq, setZero ent)) xs) k = map_option setZero (map_of xs k)"
  by (induction xs) auto

lemma en_block_simps [simp]: "en_block (setZero ent) = en_block ent" "en_block (entry_update now d n ent) = en_block ent"
  "en_block (newEntry now block d) = block"
  by (simp_all add: setZero_def entry_update_def newEntry_def)

lemma all_entries_Add: "all_entries P b \<Longrightarrow> P (tb_Sequence block) block \<Longrightarrow> all_entries P (bb_Add now block b)"
  by (auto simp: all_entries_def bb_Add_def Let_def update_conv' split: option.splits if_splits)

lemma all_entries_SetSent: "all_entries P b \<Longrightarrow> all_entries P (SetSent seq b)"
  by (auto simp: all_entries_def SetSent_def update_conv' delete_conv' split: option.splits if_splits)

lemma all_entries_setFlushed: "all_entries P b \<Longrightarrow> all_entries P (setFlushed seqs b)"
  by (auto simp: all_entries_def setFlushed_def Let_def map_of_fold_delete split: if_splits)

lemma all_entries_SetFlushed: "all_entries P b \<Longrightarrow> all_entries P (SetFlushed seqs b)" "all_entries P b \<Longrightarrow> all_entries P (SetLastFlushed q b)"
  by (simp_all add: SetFlushed_def SetLastFlushed_def all_entries_setFlushed)

lemma all_entries_SetResendAll:
  assumes d: "distinct (map fst (bb_waitToFlush b))" and a: "all_entries P b"
  shows "all_entries P (SetResendAll b)"
proof -
  let ?z = "map (\<lambda>(seq, ent). (seq, setZero ent))"
  have d': "distinct (map fst (?z (bb_waitToFlush b)))" using d by (simp add: o_def case_prod_unfold)
  have "P seq (en_block ent)" if "map_of (fold (\<lambda>(k, v). AList.update k v) (?z (bb_waitToFlush b)) (?z (bb_entries b))) seq = Some ent" for seq ent
  proof -
    have "map_of (?z (bb_entries b)) seq = Some ent \<or> map_of (?z (bb_waitToFlush b)) seq = Some ent"
      using map_of_fold_update[OF that] map_of_eq_Some_iff[OF d'] by auto
    then show ?thesis using a unfolding map_of_zeroed by (auto simp: all_entries_def)
  qed
  then show ?thesis by (simp add: all_entries_def SetResendAll_def Let_def)
qed

definition keys_distinct :: "Buffer \<Rightarrow> bool" where
  "keys_distinct b \<longleftrightarrow> distinct (map fst (bb_entries b)) \<and> distinct (map fst (bb_waitToFlush b))"

lemma distinct_fold_delete: "distinct (map fst xs) \<Longrightarrow> distinct (map fst (fold AList.delete ks xs))"
  by (induction ks arbitrary: xs) (auto simp: distinct_delete)

lemma distinct_fold_update: "distinct (map fst xs) \<Longrightarrow> distinct (map fst (fold (\<lambda>(k, v). AList.update k v) ys xs))"
  by (induction ys arbitrary: xs) (auto simp: distinct_update)

lemma keys_distinct_ops:
  assumes "keys_distinct b"
  shows "keys_distinct (bb_Add now block b)" and "keys_distinct (SetSent seq b)" and "keys_distinct (SetFlushed seqs b)"
    and "keys_distinct (SetLastFlushed q b)" and "keys_distinct (SetResendAll b)"
proof -
  have "distinct (map fst (map (\<lambda>(seq, ent). (seq, setZero ent)) xs))" if "distinct (map fst xs)" for xs :: "(uint64 \<times> entry) list"
    using that by (simp add: o_def case_prod_unfold)
  then show "keys_distinct (SetResendAll b)"
    using assms by (simp add: keys_distinct_def SetResendAll_def Let_def distinct_fold_update)
qed (use assms in \<open>auto simp: keys_distinct_def bb_Add_def SetSent_def SetFlushed_def SetLastFlushed_def setFlushed_def Let_def
    distinct_update distinct_delete distinct_fold_delete split: option.splits\<close>)

lemma buffer_ok_iff: "buffer_ok b \<longleftrightarrow> keys_distinct b \<and> all_entries (\<lambda>seq blk. tb_Sequence blk = seq) b"
  by (auto simp: buffer_ok_def keys_distinct_def all_entries_def)

lemma queued_ops:
  assumes "queued b out"
  shows "queued (bb_Add now block b) (out - (if tb_Sequence block < bb_lastFlush b then {} else {tb_Sequence block}))"
    and "queued (SetSent seq b) out" and "queued (SetFlushed seqs b) out" and "queued (SetLastFlushed q b) out" and "queued (SetResendAll b) {}"
proof -
  have "to_resend (SetResendAll b) = set (bb_seqToTimeout (SetResendAll b))"
    using unflushed_SetResendAll(2)[of b] by (simp add: SetResendAll_def Let_def unflushed_def)
  then show "queued (SetResendAll b) {}" by (simp add: queued_def)
qed (use assms in \<open>auto simp: queued_def to_resend_def bb_Add_def SetSent_def SetFlushed_def SetLastFlushed_def setFlushed_def Let_def split: option.splits\<close>)


end
