(* ===== verification/Tlog_Client.thy ===== *)
theory Tlog_Client
  imports Block_Buffer Tlog_Vdisk
begin

text \<open>
  The tlog client (\<open>tlog/tlogclient/client.go\<close>, \<open>command.go\<close>, \<open>capnp.go\<close>): commands and their encoding, the sender, the receiver, the resender and
  the choice of a server. What the network does is an argument: the error of a write, the message received, the outcome of a handshake. A write that reports an error has not delivered its message. A client has at least one server address, as its
  constructor needs.
\<close>

section \<open>Commands\<close>

datatype command = cmdBlock "8 word" uint64 int int bytes | cmdForceFlushAtSeq uint64 | cmdWaitNbdSlaveSync | cmdDisconnect

definition encodeBlockCapnp :: "(bytes \<Rightarrow> error option) \<Rightarrow> 8 word \<Rightarrow> uint64 \<Rightarrow> int \<Rightarrow> bytes \<Rightarrow> int \<Rightarrow> bytes \<Rightarrow> TlogBlock result" where
  "encodeBlockCapnp alloc op seq index hash timestamp data =
     (case block_SetHash alloc hash zero_block of
        (Some e, b) \<Rightarrow> Inl e
      | (None, b) \<Rightarrow>
          (case block_SetData alloc data b of
             (Some e, b1) \<Rightarrow> Inl e
           | (None, b1) \<Rightarrow> Inr (b1\<lparr>tb_Operation := op, tb_Sequence := seq, tb_Index := index, tb_Timestamp := timestamp\<rparr>)))"

text \<open>What is written to the connection, and the block of a block command.\<close>

definition encodeSend :: "'w tlog_env \<Rightarrow> command \<Rightarrow> (client_message \<times> TlogBlock option) result" where
  "encodeSend env cmd =
     (case cmd of
        cmdBlock op seq index timestamp data \<Rightarrow>
          map_sum id (\<lambda>b. (ClientBlock (Inr b), Some b)) (encodeBlockCapnp (te_alloc env) op seq index (te_HashBytes env data) timestamp data)
      | cmdForceFlushAtSeq seq \<Rightarrow> Inr (ClientForceFlushAtSeq seq, None)
      | cmdWaitNbdSlaveSync \<Rightarrow> Inr (ClientWaitNBDSlaveSync None, None)
      | cmdDisconnect \<Rightarrow> Inr (ClientDisconnect, None))"

section \<open>The client\<close>

record Client =
  tc_servers :: "string list"
  tc_blockBuffer :: Buffer
  tc_retryCommandCh :: "command list"
  tc_respCh :: "tlog_result list"
  tc_stopped :: bool
  tc_serverReady :: bool
  tc_curServerFailedFlush :: bool

definition resendTimeoutDur :: int where "resendTimeoutDur = 2000000000"

definition newClient :: "string list \<Rightarrow> Client" where
  "newClient serverAddrs = \<lparr>tc_servers = serverAddrs, tc_blockBuffer = NewBuffer resendTimeoutDur, tc_retryCommandCh = [], tc_respCh = [],
     tc_stopped = False, tc_serverReady = False, tc_curServerFailedFlush = False\<rparr>"

definition sendCmd :: "'w tlog_env \<Rightarrow> int \<Rightarrow> error option \<Rightarrow> command \<Rightarrow> Client \<Rightarrow> client_message result \<times> Client" where
  "sendCmd env now netErr cmd c =
     (case encodeSend env cmd of
        Inl e \<Rightarrow> (Inl e, c)
      | Inr (msg, block) \<Rightarrow>
          (case netErr of
             Some e \<Rightarrow> (Inl e, c)
           | None \<Rightarrow> (Inr msg, case block of None \<Rightarrow> c | Some b \<Rightarrow> c\<lparr>tc_blockBuffer := bb_Add now b (tc_blockBuffer c)\<rparr>)))"

text \<open>The sender: a command that fails is kept for the next connection, whose sender first sends those that were kept.\<close>

definition runSender_cmd :: "'w tlog_env \<Rightarrow> int \<Rightarrow> error option \<Rightarrow> command \<Rightarrow> Client \<Rightarrow> client_message list \<times> Client" where
  "runSender_cmd env now netErr cmd c =
     (case sendCmd env now netErr cmd c of
        (Inl e, c1) \<Rightarrow> ([], c1\<lparr>tc_retryCommandCh := tc_retryCommandCh c1 @ [cmd]\<rparr>)
      | (Inr msg, c1) \<Rightarrow> ([msg], c1))"

fun runSender_retry :: "'w tlog_env \<Rightarrow> int \<Rightarrow> error option list \<Rightarrow> nat \<Rightarrow> Client \<Rightarrow> client_message list \<times> Client" where
  "runSender_retry env now netErrs 0 c = ([], c)"
| "runSender_retry env now netErrs (Suc n) c =
     (case tc_retryCommandCh c of
        [] \<Rightarrow> ([], c)
      | cmd # cmds \<Rightarrow>
          (case sendCmd env now (case netErrs of [] \<Rightarrow> None | e # es \<Rightarrow> e) cmd (c\<lparr>tc_retryCommandCh := cmds\<rparr>) of
             (Inl e, c1) \<Rightarrow> ([], c1\<lparr>tc_retryCommandCh := tc_retryCommandCh c1 @ [cmd]\<rparr>)
           | (Inr msg, c1) \<Rightarrow> (let (msgs, c2) = runSender_retry env now (tl netErrs) n c1 in (msg # msgs, c2))))"

text \<open>What the receiver does with a response; it reads the first sequence of a ready message without looking at their number.\<close>

datatype received = RecvTimeout | RecvNetError error | RecvDecodeError error | RecvResponse tlog_status "uint64 list"

definition runReceiver_one :: "received \<Rightarrow> Client \<Rightarrow> Client result" where
  "runReceiver_one rcv c =
     (case rcv of
        RecvTimeout \<Rightarrow> Inr c
      | RecvNetError e \<Rightarrow> Inr c
      | RecvDecodeError e \<Rightarrow> Inr (c\<lparr>tc_respCh := tc_respCh c @ [RecvError e]\<rparr>)
      | RecvResponse st seqs \<Rightarrow>
          let deliver = (\<lambda>c. Inr (c\<lparr>tc_respCh := tc_respCh c @ [Response st seqs]\<rparr>))
          in case st of
               RecvOK \<Rightarrow> deliver (if length seqs > 0 then c\<lparr>tc_blockBuffer := SetSent (hd seqs) (tc_blockBuffer c)\<rparr> else c)
             | Ready \<Rightarrow>
                 if tc_serverReady c then Inr c
                 else if seqs = [] then Inl (Panic ''index out of range'')
                 else let c1 = (if hd seqs \<noteq> 0 then c\<lparr>tc_blockBuffer := SetLastFlushed (hd seqs) (tc_blockBuffer c)\<rparr> else c)
                      in deliver (c1\<lparr>tc_serverReady := True\<rparr>)
             | FlushOK \<Rightarrow> deliver (c\<lparr>tc_blockBuffer := SetFlushed seqs (tc_blockBuffer c)\<rparr>)
             | FlushFailed \<Rightarrow> deliver (c\<lparr>tc_curServerFailedFlush := True\<rparr>)
             | _ \<Rightarrow> deliver c)"

text \<open>The resender takes a block that has timed out, looks once more whether it has to be sent, and sends its data again.\<close>

definition resender_one :: "Client \<Rightarrow> command option \<times> Client" where
  "resender_one c =
     (case getOne (tc_blockBuffer c) of
        (None, b) \<Rightarrow> (None, c\<lparr>tc_blockBuffer := b\<rparr>)
      | (Some ent, b) \<Rightarrow>
          let c1 = c\<lparr>tc_blockBuffer := b\<rparr>; block = en_block ent; seq = tb_Sequence block
          in if \<not> NeedResend seq b then (None, c1)
             else case tb_Data block of
                    Inl e \<Rightarrow> (None, c1)
                  | Inr data \<Rightarrow> (Some (cmdBlock (tb_Operation block) seq (tb_Index block) (tb_Timestamp block) data), c1))"

section \<open>Servers\<close>

definition ChangeServerAddresses :: "string list \<Rightarrow> Client \<Rightarrow> bool \<times> Client" where
  "ChangeServerAddresses serverAddrs c =
     (if length serverAddrs = 0 then (False, c)
      else (hd (tc_servers c) \<notin> set serverAddrs, c\<lparr>tc_servers := serverAddrs\<rparr>))"

definition shiftServer :: "Client \<Rightarrow> Client" where
  "shiftServer c = c\<lparr>tc_servers := tl (tc_servers c) @ [hd (tc_servers c)]\<rparr>"

definition HandshakeStatus_Error :: "int \<Rightarrow> error option" where
  "HandshakeStatus_Error status =
     (if status > 0 then None
      else if status = -3 then Some (ErrOther ''given vdisk is not accepted by the server'')
      else if status = -4 then Some (ErrOther ''internal server error'')
      else if status = -5 then Some (ErrOther ''failed to attach to vdisk'')
      else if status = -2 then Some (ErrOther ''client version is not compatible with server'')
      else if status = -1 then Some (ErrOther ''client's HandshakeRequest could not be decoded'')
      else Some (ErrOther ''invalid connection with unknown status''))"

text \<open>A response to a handshake: status, last flushed sequence, and whether to wait for the server.\<close>

definition handshake :: "(int \<times> uint64 \<times> bool) result \<Rightarrow> Client \<Rightarrow> bool result \<times> Client" where
  "handshake resp c =
     (case resp of
        Inl e \<Rightarrow> (Inl e, c)
      | Inr (status, serverLastFlushed, waitReady) \<Rightarrow>
          (case HandshakeStatus_Error status of
             Some e \<Rightarrow> (Inl e, c)
           | None \<Rightarrow>
               (Inr (\<not> waitReady),
                if serverLastFlushed \<noteq> 0 then c\<lparr>tc_blockBuffer := SetLastFlushed serverLastFlushed (tc_blockBuffer c)\<rparr> else c)))"

definition client_connect :: "(string \<Rightarrow> (int \<times> uint64 \<times> bool) result) \<Rightarrow> Client \<Rightarrow> error option \<times> Client" where
  "client_connect dial c =
     (let c1 = c\<lparr>tc_curServerFailedFlush := False\<rparr>
      in case handshake (dial (hd (tc_servers c1))) c1 of
           (Inl e, c2) \<Rightarrow> (Some e, c2)
         | (Inr ready, c2) \<Rightarrow> (None, c2\<lparr>tc_serverReady := ready\<rparr>))"

text \<open>Reconnecting tries one server after the other for ever; \<open>fuel\<close> bounds the attempts, and the result says whether one has succeeded.\<close>

fun reconnect :: "(nat \<Rightarrow> string \<Rightarrow> (int \<times> uint64 \<times> bool) result) \<Rightarrow> nat \<Rightarrow> nat \<Rightarrow> Client \<Rightarrow> bool \<times> Client" where
  "reconnect dial attempt 0 c = (False, c)"
| "reconnect dial attempt (Suc fuel) c =
     (case client_connect (dial attempt) (shiftServer c) of
        (None, c1) \<Rightarrow> (True, c1\<lparr>tc_blockBuffer := SetResendAll (tc_blockBuffer c1)\<rparr>)
      | (Some e, c1) \<Rightarrow> reconnect dial (Suc attempt) fuel c1)"

definition tc_Ready :: "Client \<Rightarrow> bool" where "tc_Ready c = tc_serverReady c"

definition LastFlushedSequence_client :: "Client \<Rightarrow> uint64" where "LastFlushedSequence_client c = LastFlushed (tc_blockBuffer c)"

section \<open>Events\<close>

text \<open>
  What happens to a client: commands of its user, the resender, responses, and a new connection, with the kept commands sent first.
  A step returns the messages sent.
\<close>

datatype client_event = CSend command "error option" | CResend "error option" | CReceive received
  | CReconnect "nat \<Rightarrow> string \<Rightarrow> (int \<times> uint64 \<times> bool) result" nat "error option list"

fun client_step :: "'w tlog_env \<Rightarrow> int \<Rightarrow> client_event \<Rightarrow> Client \<Rightarrow> (client_message list \<times> Client) result" where
  "client_step env now (CSend cmd netErr) c = Inr (runSender_cmd env now netErr cmd c)"
| "client_step env now (CResend netErr) c =
     Inr (case resender_one c of (None, c1) \<Rightarrow> ([], c1) | (Some cmd, c1) \<Rightarrow> runSender_cmd env now netErr cmd c1)"
| "client_step env now (CReceive rcv) c = map_sum id (Pair []) (runReceiver_one rcv c)"
| "client_step env now (CReconnect dial fuel netErrs) c =
     (case reconnect dial 0 fuel c of
        (False, c1) \<Rightarrow> Inr ([], c1)
      | (True, c1) \<Rightarrow> Inr (runSender_retry env now netErrs (length (tc_retryCommandCh c1)) c1))"

fun client_run :: "'w tlog_env \<Rightarrow> int \<Rightarrow> client_event list \<Rightarrow> Client \<Rightarrow> (client_message list \<times> Client) result" where
  "client_run env now [] c = Inr ([], c)"
| "client_run env now (ev # evs) c =
     (case client_step env now ev c of
        Inl p \<Rightarrow> Inl p
      | Inr (msgs, c1) \<Rightarrow> map_sum id (\<lambda>(msgs', c2). (msgs @ msgs', c2)) (client_run env (now + 1) evs c1))"


section \<open>Reconnecting\<close>

definition accepts :: "(int \<times> uint64 \<times> bool) result \<Rightarrow> bool" where
  "accepts resp \<longleftrightarrow> (case resp of Inl e \<Rightarrow> False | Inr (status, l, w) \<Rightarrow> HandshakeStatus_Error status = None)"

lemma connect_accepts: "(fst (client_connect dial c) = None) \<longleftrightarrow> accepts (dial (hd (tc_servers c)))"
  by (auto simp: client_connect_def handshake_def accepts_def Let_def split: sum.splits option.splits prod.splits)

lemma connect_servers: "tc_servers (snd (client_connect dial c)) = tc_servers c"
  by (auto simp: client_connect_def handshake_def Let_def split: sum.splits option.splits prod.splits)

lemma shift_rotate: "tc_servers c \<noteq> [] \<Longrightarrow> tc_servers (shiftServer c) = rotate1 (tc_servers c)"
  by (cases "tc_servers c") (simp_all add: shiftServer_def)

text \<open>Every server is tried in a round, so a client reconnects as soon as one of its servers accepts it throughout.\<close>

lemma reconnect_tries:
  "tc_servers c \<noteq> [] \<Longrightarrow> \<forall>attempt. accepts (dial attempt (rotate (Suc i) (tc_servers c) ! 0)) \<Longrightarrow> i < fuel \<Longrightarrow>
   fst (reconnect dial attempt fuel c)"
proof (induction fuel arbitrary: attempt c i)
  case (Suc fuel)
  let ?c = "shiftServer c" and ?r = "client_connect (dial attempt) (shiftServer c)"
  have ne: "tc_servers ?c \<noteq> []" using Suc.prems(1) by (simp add: shift_rotate)
  show ?case
  proof (cases "fst ?r")
    case None
    then show ?thesis by (cases ?r) auto
  next
    case (Some e)
    then obtain c1 where r: "?r = (Some e, c1)" by (cases ?r) auto
    have s: "tc_servers c1 = rotate1 (tc_servers c)" using connect_servers[of "dial attempt" ?c] r Suc.prems(1) by (simp add: shift_rotate)
    have "i \<noteq> 0"
    proof
      assume "i = 0"
      then have "accepts (dial attempt (hd (tc_servers ?c)))"
        using Suc.prems(1,2) ne by (simp add: shift_rotate hd_conv_nth)
      then show False using connect_accepts[of "dial attempt" ?c] Some by simp
    qed
    then obtain j where j: "i = Suc j" by (cases i) auto
    have "rotate (Suc j) (rotate1 (tc_servers c)) = rotate (Suc i) (tc_servers c)" by (simp add: j rotate_def funpow_swap1)
    then have "fst (reconnect dial (Suc attempt) fuel c1)"
      using Suc.IH[of c1 j "Suc attempt"] Suc.prems j s by simp
    then show ?thesis using r by simp
  qed
qed simp

lemma reconnect_returns:
  assumes "a \<in> set (tc_servers c)" and "\<forall>attempt. accepts (dial attempt a)"
  shows "\<exists>c'. reconnect dial attempt (length (tc_servers c)) c = (True, c')"
proof -
  let ?n = "length (tc_servers c)"
  obtain k where k: "k < ?n" "tc_servers c ! k = a" using assms(1) by (auto simp: in_set_conv_nth)
  define i where "i = (if k = 0 then ?n - 1 else k - 1)"
  have "Suc i mod ?n = k" "i < ?n" using k(1) by (auto simp: i_def)
  moreover have "rotate (Suc i) (tc_servers c) ! 0 = tc_servers c ! (Suc i mod ?n)" using k(1) by (subst nth_rotate) auto
  moreover have "tc_servers c \<noteq> []" using k(1) by auto
  ultimately have "fst (reconnect dial attempt ?n c)" using reconnect_tries[of c dial i ?n attempt] assms(2) k by simp
  then show ?thesis by (cases "reconnect dial attempt ?n c") auto
qed

section \<open>Nothing is lost\<close>

lemma map_sum_Inr:
  assumes "map_sum id f x = Inr y"
  obtains z where "x = Inr z" and "y = f z"
  using assms by (cases x) auto

fun acked :: "client_event list \<Rightarrow> uint64 set" where
  "acked [] = {}"
| "acked (CReceive (RecvResponse FlushOK seqs) # evs) = set seqs \<union> acked evs"
| "acked (ev # evs) = acked evs"

lemma acked_Cons: "acked (ev # evs) = acked [ev] \<union> acked evs"
  by (cases "ev # evs" rule: acked.cases) auto

definition sent_seqs :: "client_message list \<Rightarrow> uint64 set" where
  "sent_seqs msgs = {tb_Sequence b | b. ClientBlock (Inr b) \<in> set msgs}"

text \<open>A buffer accounts for a sequence it holds or whose flush has been reported by a sequence at least as high.\<close>

definition kept :: "Buffer \<Rightarrow> uint64 set" where
  "kept b = unflushed b \<union> {q. q \<le> bb_lastFlush b}"

lemma kept_Add: "insert (tb_Sequence block) (kept b) \<subseteq> kept (bb_Add now block b)"
proof -
  have "bb_lastFlush (bb_Add now block b) = bb_lastFlush b" by (auto simp: bb_Add_def Let_def split: option.splits)
  then show ?thesis by (auto simp: kept_def unflushed_Add)
qed

lemma kept_others:
  "kept (SetSent seq b) = kept b" "kept (SetResendAll b) = kept b" "getOne b = (r, b') \<Longrightarrow> kept b' = kept b"
proof -
  have "bb_lastFlush (SetSent seq b) = bb_lastFlush b" by (auto simp: SetSent_def split: option.splits)
  then show "kept (SetSent seq b) = kept b" by (simp add: kept_def unflushed_SetSent)
  have "bb_lastFlush (SetResendAll b) = bb_lastFlush b" by (simp add: SetResendAll_def Let_def)
  then show "kept (SetResendAll b) = kept b" by (simp add: kept_def unflushed_SetResendAll)
  show "kept b' = kept b" if "getOne b = (r, b')"
    using that by (auto simp: getOne_def kept_def unflushed_def split: if_splits prod.splits)
qed

lemma kept_flushed: "kept b \<subseteq> kept (SetFlushed seqs b) \<union> set seqs" "kept b \<subseteq> kept (SetLastFlushed q b)"
proof -
  show "kept b \<subseteq> kept (SetFlushed seqs b) \<union> set seqs"
    using lastFlush_mono(1)[of b seqs] by (auto simp: kept_def unflushed_SetFlushed)
  have "q \<le> bb_lastFlush (SetLastFlushed q b)" by (auto simp: SetLastFlushed_def setFlushed_def Let_def)
  then show "kept b \<subseteq> kept (SetLastFlushed q b)"
    using lastFlush_mono(2)[of b q] by (auto simp: kept_def unflushed_SetLastFlushed)
qed

lemma encodeSend_block:
  "encodeSend env cmd = Inr (msg, block) \<Longrightarrow> sent_seqs [msg] = (case block of None \<Rightarrow> {} | Some b \<Rightarrow> {tb_Sequence b})"
  by (cases "case cmd of cmdBlock op seq index timestamp data \<Rightarrow>
        encodeBlockCapnp (te_alloc env) op seq index (te_HashBytes env data) timestamp data | _ \<Rightarrow> Inr zero_block")
    (auto simp: encodeSend_def sent_seqs_def split: command.splits)

lemma sendCmd_kept:
  assumes "sendCmd env now netErr cmd c = (r, c')"
  shows "kept (tc_blockBuffer c) \<union> (case r of Inl e \<Rightarrow> {} | Inr msg \<Rightarrow> sent_seqs [msg]) \<subseteq> kept (tc_blockBuffer c')"
proof (cases "encodeSend env cmd")
  case (Inr x)
  obtain msg block where x: "x = (msg, block)" by fastforce
  show ?thesis using assms Inr x encodeSend_block[of env cmd msg block] kept_Add[of "the block" "tc_blockBuffer c" now]
    by (auto simp: sendCmd_def split: option.splits)
qed (use assms in \<open>auto simp: sendCmd_def\<close>)

lemma sender_kept: "runSender_cmd env now netErr cmd c = (msgs, c') \<Longrightarrow> kept (tc_blockBuffer c) \<union> sent_seqs msgs \<subseteq> kept (tc_blockBuffer c')"
  using sendCmd_kept[of env now netErr cmd c]
  by (auto simp: runSender_cmd_def sent_seqs_def split: sum.splits prod.splits)

lemma sent_seqs_Cons: "sent_seqs (m # ms) = sent_seqs [m] \<union> sent_seqs ms" and sent_seqs_append: "sent_seqs (ms @ ms') = sent_seqs ms \<union> sent_seqs ms'"
  by (auto simp: sent_seqs_def)

lemma retry_kept:
  "runSender_retry env now netErrs n c = (msgs, c') \<Longrightarrow> kept (tc_blockBuffer c) \<union> sent_seqs msgs \<subseteq> kept (tc_blockBuffer c')"
proof (induction env now netErrs n c arbitrary: msgs c' rule: runSender_retry.induct)
  case (2 env now netErrs n c)
  show ?case
  proof (cases "tc_retryCommandCh c")
    case Nil
    then show ?thesis using 2(2) by (auto simp: sent_seqs_def)
  next
    case (Cons cmd cmds)
    let ?s = "sendCmd env now (case netErrs of [] \<Rightarrow> None | e # es \<Rightarrow> e) cmd (c\<lparr>tc_retryCommandCh := cmds\<rparr>)"
    obtain r c1 where s: "?s = (r, c1)" by fastforce
    note k = sendCmd_kept[OF s]
    show ?thesis
    proof (cases r)
      case (Inl e)
      then show ?thesis using 2(2) Cons s k by (auto simp: sent_seqs_def)
    next
      case (Inr msg)
      obtain msgs1 c2 where r: "runSender_retry env now (tl netErrs) n c1 = (msgs1, c2)" by fastforce
      have "kept (tc_blockBuffer c1) \<union> sent_seqs msgs1 \<subseteq> kept (tc_blockBuffer c2)"
        by (rule 2(1)[OF Cons s[symmetric] Inr r])
      moreover have "msgs = msg # msgs1" "c' = c2" using 2(2) Cons s Inr r by auto
      ultimately show ?thesis using k Inr unfolding \<open>msgs = msg # msgs1\<close> sent_seqs_Cons[of msg msgs1] by auto
    qed
  qed
qed (auto simp: sent_seqs_def)

lemma connect_kept: "kept (tc_blockBuffer c) \<subseteq> kept (tc_blockBuffer (snd (client_connect dial c)))"
  using kept_flushed(2) by (auto simp: client_connect_def handshake_def Let_def split: sum.splits option.splits prod.splits)

lemma reconnect_kept: "reconnect dial attempt fuel c = (ok, c') \<Longrightarrow> kept (tc_blockBuffer c) \<subseteq> kept (tc_blockBuffer c')"
proof (induction dial attempt fuel c rule: reconnect.induct)
  case (2 dial attempt fuel c)
  have "kept (tc_blockBuffer (shiftServer c)) = kept (tc_blockBuffer c)" by (simp add: shiftServer_def)
  with 2 connect_kept[of "shiftServer c" "dial attempt"] show ?case
    by (cases "client_connect (dial attempt) (shiftServer c)") (auto simp: kept_others split: option.splits)
qed simp

lemma receive_kept: "runReceiver_one rcv c = Inr c' \<Longrightarrow> kept (tc_blockBuffer c) \<subseteq> kept (tc_blockBuffer c') \<union> acked [CReceive rcv]"
  by (auto simp: runReceiver_one_def Let_def kept_others split: received.splits tlog_status.splits if_splits
      dest: subsetD[OF kept_flushed(1)] subsetD[OF kept_flushed(2)])

lemma client_step_kept:
  assumes "client_step env now ev c = Inr (msgs, c')"
  shows "kept (tc_blockBuffer c) \<union> sent_seqs msgs \<subseteq> kept (tc_blockBuffer c') \<union> acked [ev]"
proof (cases ev)
  case (CSend cmd netErr)
  then show ?thesis using assms sender_kept[of env now netErr cmd c msgs c'] by auto
next
  case (CResend netErr)
  obtain r c1 where r: "resender_one c = (r, c1)" by fastforce
  have "kept (tc_blockBuffer c1) = kept (tc_blockBuffer c)"
    using r kept_others(3) by (auto simp: resender_one_def Let_def split: option.splits prod.splits if_splits sum.splits)
  then show ?thesis using assms CResend r sender_kept[of env now netErr _ c1 msgs c'] by (cases r) (auto simp: sent_seqs_def)
next
  case (CReceive rcv)
  then show ?thesis using assms receive_kept[of rcv c] by (cases "runReceiver_one rcv c") (auto simp: sent_seqs_def)
next
  case (CReconnect dial fuel netErrs)
  obtain ok c1 where r: "reconnect dial 0 fuel c = (ok, c1)" by fastforce
  note k = reconnect_kept[OF r]
  show ?thesis
  proof (cases ok)
    case True
    obtain msgs1 c2 where s: "runSender_retry env now netErrs (length (tc_retryCommandCh c1)) c1 = (msgs1, c2)" by fastforce
    show ?thesis using assms CReconnect r True s k retry_kept[OF s] by auto
  next
    case False
    then show ?thesis using assms CReconnect r k by (auto simp: sent_seqs_def)
  qed
qed

text \<open>
  Whatever the network and the servers do: a block that has been sent, or was in the buffer, is still there to be sent again, or the server has
  reported that it, or a later one, is flushed.
\<close>

theorem client_run_kept:
  "client_run env now evs c = Inr (msgs, c') \<Longrightarrow>
   kept (tc_blockBuffer c) \<union> sent_seqs msgs \<subseteq> kept (tc_blockBuffer c') \<union> acked evs"
proof (induction evs arbitrary: now c msgs c')
  case (Cons ev evs)
  from Cons.prems obtain msgs1 c1 msgs2 where s: "client_step env now ev c = Inr (msgs1, c1)"
    and r: "client_run env (now + 1) evs c1 = Inr (msgs2, c')" and m: "msgs = msgs1 @ msgs2"
    by (cases "client_step env now ev c") (auto split: prod.splits elim!: map_sum_Inr)
  from client_step_kept[OF s] Cons.IH[OF r] show ?case unfolding m sent_seqs_append acked_Cons[of ev evs] by blast
qed (auto simp: sent_seqs_def)

section \<open>What is sent is the log\<close>

text \<open>
  A log of blocks, block \<open>q\<close> made from a transaction with sequence \<open>q\<close>. A command that comes from the log is sent as the block of the log, the first time and
  every other time.
\<close>

definition cmd_in_log :: "'w tlog_env \<Rightarrow> (nat \<Rightarrow> TlogBlock) \<Rightarrow> nat \<Rightarrow> command \<Rightarrow> bool" where
  "cmd_in_log env blocklog N cmd \<longleftrightarrow>
     (case cmd of
        cmdBlock op seq index timestamp data \<Rightarrow>
          1 \<le> unat seq \<and> unat seq \<le> N \<and>
          encodeBlockCapnp (te_alloc env) op seq index (te_HashBytes env data) timestamp data = Inr (blocklog (unat seq))
      | _ \<Rightarrow> True)"

fun client_event_in_log :: "'w tlog_env \<Rightarrow> (nat \<Rightarrow> TlogBlock) \<Rightarrow> nat \<Rightarrow> client_event \<Rightarrow> bool" where
  "client_event_in_log env blocklog N (CSend cmd e) \<longleftrightarrow> cmd_in_log env blocklog N cmd"
| "client_event_in_log env blocklog N ev \<longleftrightarrow> True"

definition msg_in_log :: "(nat \<Rightarrow> TlogBlock) \<Rightarrow> nat \<Rightarrow> client_message \<Rightarrow> bool" where
  "msg_in_log blocklog N msg \<longleftrightarrow>
     (case msg of ClientBlock (Inr b) \<Rightarrow> 1 \<le> unat (tb_Sequence b) \<and> unat (tb_Sequence b) \<le> N \<and> b = blocklog (unat (tb_Sequence b))
      | ClientBlock (Inl e) \<Rightarrow> False | _ \<Rightarrow> True)"

text \<open>The entries of the buffer are blocks of the log that encode to themselves, and so are the commands kept.\<close>

definition entry_in_log :: "'w tlog_env \<Rightarrow> (nat \<Rightarrow> TlogBlock) \<Rightarrow> nat \<Rightarrow> uint64 \<Rightarrow> TlogBlock \<Rightarrow> bool" where
  "entry_in_log env blocklog N seq b \<longleftrightarrow> 1 \<le> unat seq \<and> unat seq \<le> N \<and> tb_Sequence b = seq \<and> b = blocklog (unat seq) \<and>
     (\<forall>data. tb_Data b = Inr data \<longrightarrow>
        encodeBlockCapnp (te_alloc env) (tb_Operation b) seq (tb_Index b) (te_HashBytes env data) (tb_Timestamp b) data = Inr b)"

definition client_in_log :: "'w tlog_env \<Rightarrow> (nat \<Rightarrow> TlogBlock) \<Rightarrow> nat \<Rightarrow> Client \<Rightarrow> bool" where
  "client_in_log env blocklog N c \<longleftrightarrow> keys_distinct (tc_blockBuffer c) \<and> all_entries (entry_in_log env blocklog N) (tc_blockBuffer c) \<and>
     list_all (cmd_in_log env blocklog N) (tc_retryCommandCh c)"

lemma encodeBlockCapnp_eq:
  "encodeBlockCapnp alloc op seq index hash timestamp data = Inr b \<longleftrightarrow>
   alloc hash = None \<and> alloc data = None \<and>
   b = \<lparr>tb_Sequence = seq, tb_Index = index, tb_Hash = Inr hash, tb_Data = Inr data, tb_Timestamp = timestamp, tb_Operation = op\<rparr>"
  by (auto simp: encodeBlockCapnp_def block_SetHash_def block_SetData_def zero_block_def split: option.splits)

lemma sendCmd_in_log:
  assumes "client_in_log env blocklog N c" and "cmd_in_log env blocklog N cmd" and "sendCmd env now netErr cmd c = (r, c')"
  shows "client_in_log env blocklog N c'" and "r = Inr msg \<Longrightarrow> msg_in_log blocklog N msg"
proof -
  have "client_in_log env blocklog N c' \<and> (\<forall>msg. r = Inr msg \<longrightarrow> msg_in_log blocklog N msg)"
  proof (cases cmd)
    case (cmdBlock op seq index timestamp data)
    let ?b = "blocklog (unat seq)"
    have q: "1 \<le> unat seq" "unat seq \<le> N" and e: "encodeBlockCapnp (te_alloc env) op seq index (te_HashBytes env data) timestamp data = Inr ?b"
      using assms(2) cmdBlock by (simp_all add: cmd_in_log_def)
    from e have f: "tb_Sequence ?b = seq" "tb_Operation ?b = op" "tb_Index ?b = index" "tb_Timestamp ?b = timestamp" "tb_Data ?b = Inr data"
      by (simp_all add: encodeBlockCapnp_eq)
    have "entry_in_log env blocklog N (tb_Sequence ?b) ?b" using q e f by (simp add: entry_in_log_def)
    then have "client_in_log env blocklog N (c\<lparr>tc_blockBuffer := bb_Add now ?b (tc_blockBuffer c)\<rparr>)"
      using assms(1) by (simp add: client_in_log_def keys_distinct_ops all_entries_Add)
    moreover have "msg_in_log blocklog N (ClientBlock (Inr ?b))" using q f by (simp add: msg_in_log_def)
    ultimately show ?thesis using assms(1,3) e by (auto simp: sendCmd_def encodeSend_def cmdBlock split: option.splits)
  qed (use assms in \<open>auto simp: sendCmd_def encodeSend_def msg_in_log_def split: option.splits\<close>)
  then show "client_in_log env blocklog N c'" and "r = Inr msg \<Longrightarrow> msg_in_log blocklog N msg" by auto
qed

lemma sender_in_log:
  assumes "client_in_log env blocklog N c" and "cmd_in_log env blocklog N cmd" and "runSender_cmd env now netErr cmd c = (msgs, c')"
  shows "client_in_log env blocklog N c' \<and> list_all (msg_in_log blocklog N) msgs"
proof -
  obtain r c1 where s: "sendCmd env now netErr cmd c = (r, c1)" by fastforce
  note k = sendCmd_in_log[OF assms(1,2) s]
  show ?thesis using assms(2,3) s k by (cases r) (auto simp: runSender_cmd_def client_in_log_def)
qed

lemma retry_in_log:
  "client_in_log env blocklog N c \<Longrightarrow> runSender_retry env now netErrs n c = (msgs, c') \<Longrightarrow>
   client_in_log env blocklog N c' \<and> list_all (msg_in_log blocklog N) msgs"
proof (induction env now netErrs n c arbitrary: msgs c' rule: runSender_retry.induct)
  case (2 env now netErrs n c)
  show ?case
  proof (cases "tc_retryCommandCh c")
    case Nil
    then show ?thesis using 2(2,3) by auto
  next
    case (Cons cmd cmds)
    let ?s = "sendCmd env now (case netErrs of [] \<Rightarrow> None | e # es \<Rightarrow> e) cmd (c\<lparr>tc_retryCommandCh := cmds\<rparr>)"
    obtain r c1 where s: "?s = (r, c1)" by fastforce
    have "client_in_log env blocklog N (c\<lparr>tc_retryCommandCh := cmds\<rparr>)" and cmd: "cmd_in_log env blocklog N cmd"
      using 2(2) Cons by (simp_all add: client_in_log_def)
    note k = sendCmd_in_log[OF this s]
    show ?thesis
    proof (cases r)
      case (Inl e)
      then show ?thesis using 2(3) Cons s k(1) cmd by (auto simp: client_in_log_def)
    next
      case (Inr msg)
      obtain msgs1 c2 where r: "runSender_retry env now (tl netErrs) n c1 = (msgs1, c2)" by fastforce
      from 2(1)[OF Cons s[symmetric] Inr k(1) r] 2(3) Cons s k(2)[OF Inr] Inr r show ?thesis by auto
    qed
  qed
qed simp

lemma buffer_in_log:
  assumes "client_in_log env blocklog N c"
  shows "client_in_log env blocklog N (c\<lparr>tc_blockBuffer := SetSent q (tc_blockBuffer c)\<rparr>)"
    and "client_in_log env blocklog N (c\<lparr>tc_blockBuffer := SetFlushed seqs (tc_blockBuffer c)\<rparr>)"
    and "client_in_log env blocklog N (c\<lparr>tc_blockBuffer := SetLastFlushed q (tc_blockBuffer c)\<rparr>)"
    and "client_in_log env blocklog N (c\<lparr>tc_blockBuffer := SetResendAll (tc_blockBuffer c)\<rparr>)"
  using assms by (simp_all add: client_in_log_def keys_distinct_ops all_entries_SetSent all_entries_SetFlushed all_entries_SetResendAll
      keys_distinct_def[of "tc_blockBuffer c"])

lemma in_log_cong: "tc_blockBuffer c = tc_blockBuffer c' \<Longrightarrow> tc_retryCommandCh c = tc_retryCommandCh c' \<Longrightarrow>
    client_in_log env blocklog N c \<longleftrightarrow> client_in_log env blocklog N c'"
  by (simp add: client_in_log_def)

lemma connect_in_log: "client_in_log env blocklog N c \<Longrightarrow> client_in_log env blocklog N (snd (client_connect dial c))"
  using buffer_in_log(3)[of env blocklog N c]
  by (auto simp: client_connect_def handshake_def Let_def client_in_log_def split: sum.splits option.splits prod.splits)

lemma reconnect_in_log: "client_in_log env blocklog N c \<Longrightarrow> client_in_log env blocklog N (snd (reconnect dial attempt fuel c))"
proof (induction dial attempt fuel c rule: reconnect.induct)
  case (2 dial attempt fuel c)
  have "client_in_log env blocklog N (shiftServer c)" using 2(2) by (simp add: client_in_log_def shiftServer_def)
  from connect_in_log[OF this, of "dial attempt"] 2(1) buffer_in_log(4) show ?case
    by (cases "client_connect (dial attempt) (shiftServer c)") (auto split: option.splits)
qed simp

lemma receive_in_log: "client_in_log env blocklog N c \<Longrightarrow> runReceiver_one rcv c = Inr c' \<Longrightarrow> client_in_log env blocklog N c'"
  using buffer_in_log[of env blocklog N c]
  by (auto simp: runReceiver_one_def Let_def client_in_log_def split: received.splits tlog_status.splits if_splits)

lemma resender_in_log:
  assumes "client_in_log env blocklog N c" and "resender_one c = (r, c')"
  shows "client_in_log env blocklog N c'" and "r = Some cmd \<Longrightarrow> cmd_in_log env blocklog N cmd"
proof -
  obtain ent b where g: "getOne (tc_blockBuffer c) = (ent, b)" by fastforce
  have b: "bb_entries b = bb_entries (tc_blockBuffer c)" "bb_waitToFlush b = bb_waitToFlush (tc_blockBuffer c)"
    using g by (auto simp: getOne_def split: if_splits prod.splits)
  have c': "c' = c\<lparr>tc_blockBuffer := b\<rparr>"
    using assms(2) g by (auto simp: resender_one_def Let_def split: option.splits if_splits sum.splits)
  show "client_in_log env blocklog N c'" using assms(1) b by (simp add: c' client_in_log_def keys_distinct_def all_entries_def)
  show "cmd_in_log env blocklog N cmd" if "r = Some cmd"
  proof -
    from that assms(2) g obtain e data where e: "ent = Some e" "tb_Data (en_block e) = Inr data"
      "cmd = cmdBlock (tb_Operation (en_block e)) (tb_Sequence (en_block e)) (tb_Index (en_block e)) (tb_Timestamp (en_block e)) data"
      by (auto simp: resender_one_def Let_def split: option.splits if_splits sum.splits)
    from g e(1) obtain j where "getOne_loop (bb_entries (tc_blockBuffer c)) 0 (bb_seqToTimeout (tc_blockBuffer c)) = (Some e, j)"
      by (auto simp: getOne_def split: if_splits prod.splits)
    from getOne_loop_found[OF this] assms(1) obtain seq where "entry_in_log env blocklog N seq (en_block e)"
      by (auto simp: client_in_log_def all_entries_def)
    then show ?thesis using e(2,3) by (auto simp: entry_in_log_def cmd_in_log_def)
  qed
qed

lemma client_step_in_log:
  assumes c: "client_in_log env blocklog N c" and ev: "client_event_in_log env blocklog N ev" and s: "client_step env now ev c = Inr (msgs, c')"
  shows "client_in_log env blocklog N c' \<and> list_all (msg_in_log blocklog N) msgs"
proof (cases ev)
  case (CSend cmd netErr)
  then show ?thesis using ev s sender_in_log[OF c, of cmd now netErr msgs c'] by simp
next
  case (CResend netErr)
  obtain r c1 where r: "resender_one c = (r, c1)" by fastforce
  note k = resender_in_log[OF c r]
  show ?thesis using s CResend r k sender_in_log[OF k(1), of _ now netErr msgs c'] by (cases r) auto
next
  case (CReceive rcv)
  then show ?thesis using s receive_in_log[OF c, of rcv] by (cases "runReceiver_one rcv c") auto
next
  case (CReconnect dial fuel netErrs)
  obtain ok c1 where r: "reconnect dial 0 fuel c = (ok, c1)" by fastforce
  have k: "client_in_log env blocklog N c1" using reconnect_in_log[OF c, of dial 0 fuel] r by simp
  show ?thesis using s CReconnect r k retry_in_log[OF k] by (cases ok) auto
qed

theorem client_run_in_log:
  "client_in_log env blocklog N c \<Longrightarrow> list_all (client_event_in_log env blocklog N) evs \<Longrightarrow> client_run env now evs c = Inr (msgs, c') \<Longrightarrow>
   client_in_log env blocklog N c' \<and> list_all (msg_in_log blocklog N) msgs"
proof (induction evs arbitrary: now c msgs c')
  case (Cons ev evs)
  from Cons.prems(3) obtain msgs1 c1 msgs2 where s: "client_step env now ev c = Inr (msgs1, c1)"
    and r: "client_run env (now + 1) evs c1 = Inr (msgs2, c')" and m: "msgs = msgs1 @ msgs2"
    by (cases "client_step env now ev c") (auto split: prod.splits elim!: map_sum_Inr)
  from client_step_in_log[OF Cons.prems(1) _ s] Cons.prems(2) have "client_in_log env blocklog N c1" "list_all (msg_in_log blocklog N) msgs1" by auto
  with Cons.IH[OF _ _ r] Cons.prems(2) m show ?case by simp
qed simp


lemma reconnect_resends: "reconnect dial attempt fuel c = (True, c') \<Longrightarrow> \<exists>b. tc_blockBuffer c' = SetResendAll b"
proof (induction dial attempt fuel c rule: reconnect.induct)
  case (2 dial attempt fuel c)
  then show ?case by (cases "client_connect (dial attempt) (shiftServer c)") (auto split: option.splits)
qed simp


end
