(* ===== verification/Tlog_Stor_Mem.thy ===== *)
theory Tlog_Stor_Mem
  imports Tlog_Stor
begin

text \<open>
  A 0-stor and an etcd in memory and an encoding of aggregations, with which the interface of \<open>Tlog_Stor\<close> is interpreted:
  the hypotheses on these services can hold together. Numbers are written in unary.
\<close>

section \<open>Object store\<close>

record stor_world =
  zw_objects :: "bytes \<rightharpoonup> stor_object"
  zw_etcd :: "string \<rightharpoonup> bytes"

definition mem_write :: "bytes \<Rightarrow> bytes \<Rightarrow> bytes \<Rightarrow> Meta option \<Rightarrow> Meta option \<Rightarrow> string list \<Rightarrow> stor_world \<Rightarrow> Meta option result \<times> stor_world" where
  "mem_write key data prevKey prevMd md refs w =
     (let md0 = (case md of None \<Rightarrow> new_Meta key 0 | Some m \<Rightarrow> m);
          md1 = (if prevKey = [] then md0 else md0\<lparr>md_Previous := prevKey\<rparr>)
      in if prevKey \<noteq> [] \<and> zw_objects w prevKey = None then (Inl (ErrOther ''key not found in etcd''), w)
         else (Inr (Some md1), w\<lparr>zw_objects := write_object key data prevKey md0 refs (zw_objects w)\<rparr>))"

partial_function (option) mem_walk :: "(bytes \<rightharpoonup> stor_object) \<Rightarrow> int \<Rightarrow> int \<Rightarrow> bytes \<Rightarrow> stor_walk_result list option" where
  "mem_walk os fr to key =
     (if os key = None
      then Some [\<lparr>sw_Key = [], sw_Meta = None, sw_Data = [], sw_RefList = [], sw_Error = Some (ErrOther ''key not found in etcd'')\<rparr>]
      else let md = obj_meta os key
           in if md_Epoch md < fr \<and> md_Next md \<noteq> [] then mem_walk os fr to (md_Next md)
              else if md_Epoch md > to then Some []
              else if md_Next md = [] then Some [walk_entry os key]
              else Option.bind (mem_walk os fr to (md_Next md)) (\<lambda>rs. Some (walk_entry os key # rs)))"

definition mem_stor :: "stor_world ZeroStor" where
  "mem_stor =
     \<lparr>zs_WriteWithMeta = mem_write,
      zs_GetMeta = (\<lambda>k w. case zw_objects w k of None \<Rightarrow> Inl (ErrOther ''key not found in etcd'') | Some x \<Rightarrow> Inr (snd (snd x))),
      zs_Read = (\<lambda>k w. case zw_objects w k of None \<Rightarrow> Inl (ErrOther ''not found'') | Some x \<Rightarrow> Inr (fst x, fst (snd x))),
      zs_Walk = (\<lambda>k fr to w. case mem_walk (zw_objects w) fr to k of None \<Rightarrow> [] | Some rs \<Rightarrow> rs),
      zs_DeleteWithMeta = (\<lambda>md w. case md of None \<Rightarrow> (Some (Panic ''nil pointer''), w) | Some m \<Rightarrow> (None, w\<lparr>zw_objects := (zw_objects w)(md_Key m := None)\<rparr>)),
      zs_RemoveReferenceList = (\<lambda>k refs w. (None, w\<lparr>zw_objects :=
        (zw_objects w)(k := map_option (\<lambda>(d, r, m). (d, filter (\<lambda>x. x \<notin> set refs) r, m)) (zw_objects w k))\<rparr>)),
      zs_MetaDelete = (\<lambda>k w. (None, w\<lparr>zw_objects := (zw_objects w)(k := None)\<rparr>)),
      etcd_Get = (\<lambda>e w. Inr (case zw_etcd w e of None \<Rightarrow> [] | Some v \<Rightarrow> [v])),
      etcd_Put = (\<lambda>e v w. (None, w\<lparr>zw_etcd := (zw_etcd w)(e \<mapsto> v)\<rparr>)),
      etcd_Delete = (\<lambda>e w. (None, w\<lparr>zw_etcd := (zw_etcd w)(e := None)\<rparr>))\<rparr>"

lemma mem_walk_linked:
  assumes "linked os ks" and "ks \<noteq> []" and "\<forall>k \<in> set ks. fr \<le> md_Epoch (obj_meta os k) \<and> md_Epoch (obj_meta os k) \<le> to"
  shows "mem_walk os fr to (hd ks) = Some (map (walk_entry os) ks)"
  using assms
proof (induction os ks rule: linked.induct)
  case (2 os k)
  then show ?case by (subst mem_walk.simps) (auto simp: Let_def)
next
  case (3 os k k' ks)
  then show ?case using linked_all[of os "k' # ks" k'] by (subst mem_walk.simps) (auto simp: Let_def)
qed simp

section \<open>Encoding\<close>

definition put_nat :: "nat \<Rightarrow> bytes" where "put_nat n = replicate n 1 @ [0]"

definition get_nat :: "bytes \<Rightarrow> nat \<times> bytes" where
  "get_nat d = (length (takeWhile (\<lambda>x. x = 1) d), drop 1 (dropWhile (\<lambda>x. x = 1) d))"

lemma get_put_nat [simp]: "get_nat (put_nat n @ r) = (n, r)"
  by (induction n) (auto simp: get_nat_def put_nat_def)

definition put_int :: "int \<Rightarrow> bytes" where "put_int i = put_nat (nat i) @ put_nat (nat (- i))"

definition get_int :: "bytes \<Rightarrow> int \<times> bytes" where
  "get_int d = (let (a, d1) = get_nat d; (b, d2) = get_nat d1 in (int a - int b, d2))"

lemma get_put_int [simp]: "get_int (put_int i @ r) = (i, r)"
  by (simp add: get_int_def put_int_def)

definition put_bytes :: "bytes \<Rightarrow> bytes" where "put_bytes b = put_nat (length b) @ b"

definition get_bytes :: "bytes \<Rightarrow> bytes \<times> bytes" where
  "get_bytes d = (let (n, d1) = get_nat d in (take n d1, drop n d1))"

lemma get_put_bytes [simp]: "get_bytes (put_bytes b @ r) = (b, r)"
  by (simp add: get_bytes_def put_bytes_def)

definition result_bytes :: "bytes result \<Rightarrow> bytes" where "result_bytes r = (case r of Inl e \<Rightarrow> [] | Inr d \<Rightarrow> d)"

definition put_block :: "TlogBlock \<Rightarrow> bytes" where
  "put_block b = put_nat (unat (tb_Sequence b)) @ put_int (tb_Index b) @ put_bytes (result_bytes (tb_Hash b)) @
     put_bytes (result_bytes (tb_Data b)) @ put_int (tb_Timestamp b) @ put_nat (unat (tb_Operation b))"

definition get_block :: "bytes \<Rightarrow> TlogBlock \<times> bytes" where
  "get_block d =
     (let (seq, d1) = get_nat d; (idx, d2) = get_int d1; (h, d3) = get_bytes d2; (c, d4) = get_bytes d3; (t, d5) = get_int d4; (op, d6) = get_nat d5
      in (\<lparr>tb_Sequence = of_nat seq, tb_Index = idx, tb_Hash = Inr h, tb_Data = Inr c, tb_Timestamp = t, tb_Operation = of_nat op\<rparr>, d6))"

definition encodable :: "TlogBlock \<Rightarrow> bool" where
  "encodable b \<longleftrightarrow> tb_Hash b = Inr (result_bytes (tb_Hash b)) \<and> tb_Data b = Inr (result_bytes (tb_Data b))"

lemma get_put_block: "encodable b \<Longrightarrow> get_block (put_block b @ r) = (b, r)"
  by (cases b) (simp add: get_block_def put_block_def encodable_def)

fun get_blocks :: "nat \<Rightarrow> bytes \<Rightarrow> TlogBlock list" where
  "get_blocks 0 d = []"
| "get_blocks (Suc n) d = (let (b, d1) = get_block d in b # get_blocks n d1)"

lemma get_put_blocks: "\<forall>b \<in> set bl. encodable b \<Longrightarrow> get_blocks (length bl) (concat (map put_block bl)) = bl"
  by (induction bl) (simp_all add: get_put_block)

definition encode_agg :: "TlogAggregation \<Rightarrow> bytes result" where
  "encode_agg a =
     (if list_all encodable (ta_Blocks a)
      then Inr (put_nat (unat (ta_Size a)) @ put_int (ta_Timestamp a) @ put_nat (length (ta_Blocks a)) @ concat (map put_block (ta_Blocks a)))
      else Inl (ErrOther ''cannot encode''))"

definition decode_agg :: "bytes \<Rightarrow> TlogAggregation result" where
  "decode_agg d =
     (let (sz, d1) = get_nat d; (t, d2) = get_int d1; (n, d3) = get_nat d2
      in Inr \<lparr>ta_Size = of_nat sz, ta_Timestamp = t, ta_Blocks = get_blocks n d3\<rparr>)"

lemma decode_encode_agg: "encode_agg a = Inr d \<Longrightarrow> decode_agg d = Inr a"
  by (cases a) (auto simp: encode_agg_def decode_agg_def get_put_blocks list_all_iff split: if_splits)

interpretation mem_stor: tlog_stor mem_stor zw_objects zw_etcd encode_agg decode_agg
proof (unfold_locales, goal_cases)
  case (1 key w prevKey prevMd data md refs)
  then show ?case by (auto simp: mem_stor_def mem_write_def Let_def)
next
  case (4 w k ks fr to)
  then show ?case using mem_walk_linked[of "zw_objects w" "k # ks" fr to] by (simp add: mem_stor_def)
qed (auto simp: mem_stor_def obj_meta_def obj_data_def decode_encode_agg)

end
