(* ===== verification/Tlog_Pipeline.thy ===== *)
theory Tlog_Pipeline
  imports Tlog_Server Tlog_Client Tlog_Stor_Mem
begin

text \<open>
  From a write to its replay: the transactions of a tlog storage, the client that sends them over connections that lose, repeat and reorder, the server
  that aggregates and stores them, and the player that rebuilds the vdisk from the store.
\<close>

section \<open>The log of a list of transactions\<close>

definition tlog_block_of :: "'w tlog_env \<Rightarrow> transaction \<Rightarrow> TlogBlock" where
  "tlog_block_of env t = \<lparr>tb_Sequence = t_Sequence t, tb_Index = t_Index t, tb_Hash = Inr (te_HashBytes env (t_Content t)), tb_Data = Inr (t_Content t),
     tb_Timestamp = t_Timestamp t, tb_Operation = t_Operation t\<rparr>"

definition log_of :: "'w tlog_env \<Rightarrow> transaction list \<Rightarrow> nat \<Rightarrow> TlogBlock" where
  "log_of env ts q = tlog_block_of env (ts ! (q - 1))"

text \<open>The command with which the sender of a tlog storage sends a transaction.\<close>

definition transaction_cmd :: "transaction \<Rightarrow> command" where
  "transaction_cmd t = cmdBlock (t_Operation t) (t_Sequence t) (t_Index t) (t_Timestamp t) (t_Content t)"

definition allocs :: "'w tlog_env \<Rightarrow> transaction \<Rightarrow> bool" where
  "allocs env t \<longleftrightarrow> te_alloc env (t_Content t) = None \<and> te_alloc env (te_HashBytes env (t_Content t)) = None"

lemma sequences_from_nth: "i < n \<Longrightarrow> sequences_from q n ! i = q + of_nat i"
  by (simp add: sequences_from_def)

lemma log_seq:
  assumes s: "map t_Sequence ts = sequences_from 1 (length ts)" and n: "length ts + 1 < 2 ^ 64" and q: "1 \<le> q" "q \<le> length ts"
  shows "tb_Sequence (log_of env ts q) = of_nat q" and "unat (tb_Sequence (log_of env ts q)) = q"
proof -
  have i: "q - 1 < length ts" using q by simp
  have "t_Sequence (ts ! (q - 1)) = 1 + of_nat (q - 1)"
    using arg_cong[OF s, of "\<lambda>xs. xs ! (q - 1)"] i by (simp add: sequences_from_nth)
  also have "\<dots> = of_nat q" using q(1) by (simp add: of_nat_diff)
  finally show t: "tb_Sequence (log_of env ts q) = of_nat q" by (simp add: log_of_def tlog_block_of_def)
  show "unat (tb_Sequence (log_of env ts q)) = q" unfolding t using q n by (intro unat_of_nat_small) simp
qed

lemma log_readable: "allocs env (ts ! (q - 1)) \<Longrightarrow> readable (te_alloc env) (log_of env ts q) \<and> vd_hash env (log_of env ts q) = None"
  by (auto simp: readable_def vd_hash_def log_of_def tlog_block_of_def allocs_def)

text \<open>A transaction of the list is a command of the log.\<close>

lemma transaction_cmd_in_log:
  assumes s: "map t_Sequence ts = sequences_from 1 (length ts)" and n: "length ts + 1 < 2 ^ 64" and t: "t \<in> set ts" and a: "allocs env t"
  shows "cmd_in_log env (log_of env ts) (length ts) (transaction_cmd t)"
proof -
  obtain i where i: "i < length ts" "t = ts ! i" using t by (auto simp: in_set_conv_nth)
  have "t_Sequence t = tb_Sequence (log_of env ts (Suc i))" by (simp add: log_of_def tlog_block_of_def i)
  moreover have "unat (tb_Sequence (log_of env ts (Suc i))) = Suc i" using log_seq(2)[OF s n, of "Suc i" env] i by simp
  ultimately show ?thesis using a i
    by (simp add: cmd_in_log_def transaction_cmd_def encodeBlockCapnp_eq allocs_def log_of_def tlog_block_of_def)
qed

lemma log_of_all: "map (log_of env ts) [1..<Suc k] = map (tlog_block_of env) (take k ts)" if "k \<le> length ts"
  using that by (intro nth_equalityI) (auto simp: log_of_def nth_append simp del: upt_Suc)

lemma apply_block_of: "transaction_ok blockSize valid t \<Longrightarrow> apply_block (tlog_block_of env t) = apply_transaction t"
  by (auto simp: transaction_ok_def apply_block_def tlog_block_of_def apply_transaction_def stored_def OpSet_def OpDelete_def fun_eq_iff)

lemma apply_blocks_of: "\<forall>t \<in> set ts. transaction_ok blockSize valid t \<Longrightarrow> fold apply_block (map (tlog_block_of env) ts) m = fold apply_transaction ts m"
  by (induction ts arbitrary: m) (auto simp: apply_block_of)

lemma tlog_block_of_ok: "transaction_ok blockSize valid t \<Longrightarrow> block_ok blockSize valid (tlog_block_of env t)"
  by (auto simp: transaction_ok_def block_ok_def tlog_block_of_def OpSet_def OpDelete_def)

section \<open>Replaying what is stored\<close>

text \<open>Messages that arrive at the server are messages the client has sent, any number of times and in any order.\<close>

definition delivered :: "client_message list \<Rightarrow> vdisk_event list \<Rightarrow> bool" where
  "delivered msgs evs \<longleftrightarrow> (\<forall>msg. VdMessage msg \<in> set evs \<longrightarrow> msg \<in> set msgs)"

lemma delivered_in_log:
  assumes "list_all (msg_in_log blocklog N) msgs" and "delivered msgs evs"
  shows "list_all (event_in_log env blocklog N) evs"
  unfolding list_all_iff
proof
  fix ev assume ev: "ev \<in> set evs"
  show "event_in_log env blocklog N ev"
  proof (cases ev)
    case (VdMessage msg)
    then have m: "msg_in_log blocklog N msg" using assms ev by (auto simp: delivered_def list_all_iff)
    show ?thesis
    proof (cases msg)
      case (ClientBlock r)
      then show ?thesis using m VdMessage by (cases r) (auto simp: msg_in_log_def in_log_def)
    qed (simp_all add: VdMessage)
  qed simp_all
qed

text \<open>The limits that select everything.\<close>

lemma selected_all: "selected (NewLimitBySequence now 0 0) bs = bs"
  by (simp add: selected_def NewLimitBySequence_def)

context tlog_vdisk
begin

lemma stored_prefix:
  assumes "vd_inv env objects etcd vid blocklog N (vd, w) aggs"
  shows "\<exists>k \<le> N. concat (map used_blocks aggs) = map blocklog [1..<Suc k] \<and>
    (\<forall>seqs. (FlushOK, seqs) \<in> set (vd_respChan vd) \<longrightarrow> (\<forall>q \<in> set seqs. unat q \<le> k))"
proof -
  let ?c = "concat (map used_blocks aggs)" and ?e = "unat (vd_expectedSequence vd)"
  have p: "?c @ cur_blocks (vd_flusher vd) @ vd_orderedBlockChan vd = map blocklog [1..<?e]" and e: "1 \<le> ?e" "?e \<le> N + 1"
    and s: "stored_inv env objects etcd vid (vd, w) aggs" using assms by (simp_all add: vd_inv_def)
  obtain k where k: "length ?c = k" by blast
  have le: "k \<le> ?e - 1" using arg_cong[OF p, of length] k by simp
  then have kN: "k \<le> N" using e by linarith
  have "?c = take k (?c @ cur_blocks (vd_flusher vd) @ vd_orderedBlockChan vd)" using k by simp
  also have "\<dots> = take k (map blocklog [1..<?e])" by (rule arg_cong[OF p])
  also have "\<dots> = map blocklog [1..<Suc k]" using le e(1) by (simp add: take_map take_upt del: upt_Suc)
  finally have c: "?c = map blocklog [1..<Suc k]" .
  have "unat q \<le> k" if "(FlushOK, seqs) \<in> set (vd_respChan vd)" "q \<in> set seqs" for seqs q
  proof -
    from s that(1) obtain a where a: "a \<in> set aggs" "seqs = map tb_Sequence (used_blocks a)" unfolding stored_inv_def by auto
    with that(2) obtain b where b: "b \<in> set ?c" "q = tb_Sequence b" by auto
    from b(1) obtain j where j: "b = blocklog j" "1 \<le> j" "j \<le> k" unfolding c by auto
    have "q = of_nat j" using log[of j] j kN b(2) by simp
    then show ?thesis using j(3) kN log_bound unat_of_nat_small[of j] by simp
  qed
  then show ?thesis using kN c by blast
qed

end

text \<open>
  The player applies to a storage exactly the transactions stored, a prefix of those sent that contains all whose flush has been reported.
\<close>

lemma replay_prefix:
  assumes bs: "block_storage bs blockSize valid Inv content" and vd: "tlog_vdisk env objects etcd vid (log_of env ts) (length ts)"
    and i: "vd_inv env objects etcd vid (log_of env ts) (length ts) (vd, w) aggs" and ts: "\<forall>t \<in> set ts. transaction_ok blockSize valid t"
    and now: "\<forall>a \<in> set aggs. 0 \<le> ta_Timestamp a \<and> ta_Timestamp a \<le> now" and s: "Inv s"
  shows "\<exists>k \<le> length ts. \<exists>seq s'. Replay bs (\<lambda>fr to. map walk_agg (stor_Walk (te_zs env) (te_dec env) (vd_storClient vd) w fr to)) (NewLimitBySequence now 0 0) (s, ()) =
      ((seq, None), s', ()) \<and> Inv s' \<and> content s' = fold apply_transaction (take k ts) (content s) \<and>
    (\<forall>seqs. (FlushOK, seqs) \<in> set (vd_respChan vd) \<longrightarrow> (\<forall>q \<in> set seqs. unat q \<le> k))"
proof -
  from tlog_vdisk.stored_prefix[OF vd i] obtain k where k: "k \<le> length ts" "concat (map used_blocks aggs) = map (log_of env ts) [1..<Suc k]"
    "\<forall>seqs. (FlushOK, seqs) \<in> set (vd_respChan vd) \<longrightarrow> (\<forall>q \<in> set seqs. unat q \<le> k)" by blast
  have st: "stored_inv env objects etcd vid (vd, w) aggs" using i by (simp add: vd_inv_def)
  then have r: "stor_rel (te_enc env) (vd_storClient vd) (objects w) (etcd w) (map (key_of env vid) aggs) aggs" by (simp add: stored_inv_def)
  note walk = tlog_stor.stor_Walk_ok[OF tlog_service.axioms(1)[OF tlog_vdisk.axioms(1)[OF vd]] r now]
  have blocks: "concat (map used_blocks aggs) = map (tlog_block_of env) (take k ts)" unfolding k(2) by (rule log_of_all[OF k(1)])
  have "\<forall>b \<in> set (concat (map used_blocks aggs)). block_ok blockSize valid b"
    unfolding blocks using ts by (auto simp: tlog_block_of_ok dest: in_set_takeD)
  then have wf: "\<forall>agg \<in> set aggs. agg_wf agg \<and> (\<forall>b \<in> set (used_blocks agg). block_ok blockSize valid b)"
    using st by (auto simp: stored_inv_def)
  have sel: "selected (NewLimitBySequence now 0 0) \<circ> used_blocks = used_blocks" by (intro ext) (simp add: selected_all)
  from block_storage.replay_walk_ok[OF bs s wf, of None "NewLimitBySequence now 0 0" 0 "()"] obtain s' where
    "replay_walk bs (NewLimitBySequence now 0 0) (None :: unit replay_cb option) (map Inr aggs) 0 (s, ()) =
      ((if aggs = [] then 0 else last_seq 0 (selected (NewLimitBySequence now 0 0) (used_blocks (last aggs))), None), s', ())" "Inv s'"
    "content s' = fold apply_block (concat (map used_blocks aggs)) (content s)"
    unfolding sel by (auto simp: cb_ok_def)
  moreover have "fold apply_block (concat (map used_blocks aggs)) (content s) = fold apply_transaction (take k ts) (content s)"
    unfolding blocks using ts by (intro apply_blocks_of) (auto dest: in_set_takeD)
  ultimately show ?thesis using k walk
    by (intro exI[of _ k] conjI exI[of _ "if aggs = [] then 0 else last_seq 0 (selected (NewLimitBySequence now 0 0) (used_blocks (last aggs)))"] exI[of _ s'])
      (simp_all add: Replay_def ReplayWithCallback_def NewLimitBySequence_def)
qed

text \<open>The transactions a tlog storage has sent are a log for the server.\<close>

lemma tlog_vdisk_log:
  assumes "tlog_service env objects etcd vid" and "map t_Sequence ts = sequences_from 1 (length ts)" and "length ts + 1 < 2 ^ 64"
    and "\<forall>t \<in> set ts. allocs env t"
  shows "tlog_vdisk env objects etcd vid (log_of env ts) (length ts)"
proof (rule tlog_vdisk.intro[OF assms(1)], unfold_locales)
  show "length ts + 1 < 2 ^ 64" by (rule assms(3))
  fix q assume q: "1 \<le> q" "q \<le> length ts"
  then have "ts ! (q - 1) \<in> set ts" by simp
  then show "tb_Sequence (log_of env ts q) = of_nat q \<and> readable (te_alloc env) (log_of env ts q) \<and> vd_hash env (log_of env ts q) = None"
    using log_seq(1)[OF assms(2,3) q] log_readable assms(4) by blast
qed

text \<open>Commands of a client that belong to a list of transactions.\<close>

fun sends_only :: "transaction list \<Rightarrow> client_event \<Rightarrow> bool" where
  "sends_only ts (CSend (cmdBlock op seq index timestamp data) e) \<longleftrightarrow> cmdBlock op seq index timestamp data \<in> set (map transaction_cmd ts)"
| "sends_only ts ev \<longleftrightarrow> True"

lemma sends_only_in_log:
  assumes "map t_Sequence ts = sequences_from 1 (length ts)" and "length ts + 1 < 2 ^ 64" and "\<forall>t \<in> set ts. allocs env t" and "sends_only ts ev"
  shows "client_event_in_log env (log_of env ts) (length ts) ev"
proof (cases ev)
  case (CSend cmd e)
  show ?thesis
  proof (cases cmd)
    case (cmdBlock op seq index timestamp data)
    then obtain t where t: "t \<in> set ts" "cmd = transaction_cmd t" using assms(4) CSend by auto
    then show ?thesis using transaction_cmd_in_log[OF assms(1,2) t(1), of env] assms(3) CSend by simp
  qed (simp_all add: CSend cmd_in_log_def)
qed simp_all

lemma newClient_in_log: "client_in_log env blocklog N (newClient addrs)"
  by (simp add: client_in_log_def newClient_def NewBuffer_def keys_distinct_def all_entries_def)

text \<open>From the transactions sent to the replay, for any run of the client and of the server it is connected to.\<close>

theorem pipeline_replay:
  assumes env: "tlog_service env objects etcd vid"
    and ts: "map t_Sequence ts = sequences_from 1 (length ts)" "length ts + 1 < 2 ^ 64" "\<forall>t \<in> set ts. allocs env t \<and> transaction_ok blockSize valid t"
    and client: "client_run env t1 cevs (newClient addrs) = Inr (msgs, c)" "list_all (sends_only ts) cevs"
    and new: "objects w0 = Map.empty" "etcd w0 = Map.empty" "stor_NewClient (te_zs env) (te_dec env) vid w0 = Some (Inr cl)"
    and con: "vd_connect env conn (newVdisk vid cl flushSize ss [], w0) = Some (r, vd0)" "flushSize < 2 ^ 31"
    and server: "vd_run env t2 sevs (vd0, w0) = (vd, w)" "delivered msgs sevs" "0 \<le> t2"
    and bs: "block_storage bs blockSize valid Inv content" and s: "Inv s"
  shows "\<exists>k \<le> length ts. \<exists>seq s'. Replay bs (\<lambda>fr to. map walk_agg (stor_Walk (te_zs env) (te_dec env) (vd_storClient vd) w fr to))
        (NewLimitBySequence (t2 + int (length sevs)) 0 0) (s, ()) = ((seq, None), s', ()) \<and> Inv s' \<and>
      content s' = fold apply_transaction (take k ts) (content s) \<and>
      (\<forall>seqs. (FlushOK, seqs) \<in> set (vd_respChan vd) \<longrightarrow> (\<forall>q \<in> set seqs. unat q \<le> k))"
proof -
  have al: "\<forall>t \<in> set ts. allocs env t" using ts(3) by blast
  note vd = tlog_vdisk_log[OF env ts(1,2) al]
  have "list_all (client_event_in_log env (log_of env ts) (length ts)) cevs"
    using client(2) sends_only_in_log[OF ts(1,2) al] by (auto simp: list_all_iff)
  from client_run_in_log[OF newClient_in_log this client(1)] have "list_all (msg_in_log (log_of env ts) (length ts)) msgs" by blast
  from delivered_in_log[OF this server(2)] have evs: "list_all (event_in_log env (log_of env ts) (length ts)) sevs" .
  from tlog_vdisk.vd_run_ok[OF vd tlog_vdisk.connect_first(2)[OF vd new(3,1,2) con] evs, of t2] server(1) obtain aggs where
    "vd_inv env objects etcd vid (log_of env ts) (length ts) (vd, w) aggs" "\<forall>a \<in> set aggs. t2 \<le> ta_Timestamp a \<and> ta_Timestamp a < t2 + int (length sevs)" by auto
  moreover from this(2) have "\<forall>a \<in> set aggs. 0 \<le> ta_Timestamp a \<and> ta_Timestamp a \<le> t2 + int (length sevs)" using server(3) by auto
  ultimately show ?thesis using replay_prefix[OF bs vd _ _ _ s, of vd w aggs "t2 + int (length sevs)"] ts(3) by blast
qed


end
