(* ===== verification/Tlog_Examples.thy ===== *)
theory Tlog_Examples
  imports Tlog_Pipeline
begin

text \<open>Concrete services and runs of the transaction log, at which the theorems about it are applied.\<close>

section \<open>Services in memory\<close>

definition mem_env :: "stor_world tlog_env" where
  "mem_env = \<lparr>te_zs = mem_stor, te_hasher = Cons 0, te_enc = encode_agg, te_dec = decode_agg, te_alloc = (\<lambda>_. None),
     te_HashBytes = (\<lambda>d. [of_nat (length d)])\<rparr>"

interpretation mem_service: tlog_service mem_env zw_objects zw_etcd vid
proof (unfold_locales, goal_cases)
  case (9 a)
  then show ?case by (auto simp: mem_env_def encode_agg_def list_all_iff readable_def encodable_def result_bytes_def split: sum.splits)
qed (use mem_stor.stor_write mem_stor.stor_get_meta mem_stor.stor_read mem_stor.stor_walk mem_stor.etcd_get mem_stor.etcd_put
    in \<open>auto simp: mem_env_def decode_encode_agg\<close>)

definition ex_stor_world :: stor_world where "ex_stor_world = \<lparr>zw_objects = Map.empty, zw_etcd = Map.empty\<rparr>"

section \<open>A tlog storage\<close>

definition ex_tls :: tlogStorage where
  "ex_tls = \<lparr>tls_metadata = \<lparr>LastFlushedSequence = 0\<rparr>, tls_cache = newInMemorySequenceCache, tls_sequence = 1, tls_transactionCh = [],
     tls_toFlushCh = [], tls_tlogReady = True, tls_tlogNotReadyBuff = []\<rparr>"

definition ex_waiting :: tlogStorage where "ex_waiting = ex_tls\<lparr>tls_tlogReady := False\<rparr>"

section \<open>A run of client and server\<close>

definition ex_t :: "nat \<Rightarrow> transaction" where
  "ex_t q = \<lparr>t_Operation = if q = 3 then OpDelete else OpSet, t_Sequence = of_nat q, t_Content = if q = 3 then [] else [1, of_nat q], t_Index = if q = 2 then 5 else 0, t_Timestamp = int q\<rparr>"

definition ex_transactions :: "transaction list" where "ex_transactions = [ex_t 1, ex_t 2, ex_t 3]"

text \<open>The client sends three transactions, loses its connection and sends them again to another server, of which one message arrives.\<close>

definition ex_dial :: "nat \<Rightarrow> string \<Rightarrow> (int \<times> uint64 \<times> bool) result" where
  "ex_dial attempt addr = (if addr = ''b'' then Inr (1, 0, False) else Inl (ErrOther ''refused''))"

definition ex_cevs :: "client_event list" where
  "ex_cevs = [CSend (transaction_cmd (ex_t 1)) None, CSend (transaction_cmd (ex_t 2)) None, CSend (transaction_cmd (ex_t 3)) (Some (ErrOther ''broken pipe'')),
     CReconnect ex_dial 2 [], CResend None, CReceive (RecvResponse RecvOK [1])]"

definition ex_msgs :: "client_message list" where
  "ex_msgs = map (\<lambda>t. ClientBlock (Inr (tlog_block_of mem_env t))) ex_transactions"

definition ex_sevs :: "vdisk_event list" where
  "ex_sevs = [VdMessage (ex_msgs ! 1), VdMessage (ex_msgs ! 0), VdMessage (ex_msgs ! 0), VdFlusher, VdMessage (ex_msgs ! 1), VdFlusher,
     VdMessage (ex_msgs ! 2), VdFlusher]"

lemma ex_client_run:
  "\<exists>msgs c. client_run mem_env 0 ex_cevs (newClient [''a'', ''b'']) = Inr (msgs, c) \<and> set msgs = set ex_msgs"
proof -
  have "case client_run mem_env 0 ex_cevs (newClient [''a'', ''b'']) of Inl p \<Rightarrow> False | Inr (msgs, c) \<Rightarrow> msgs = [ex_msgs ! 0, ex_msgs ! 1, ex_msgs ! 2, ex_msgs ! 0]"
    by code_simp
  then show ?thesis by (cases "client_run mem_env 0 ex_cevs (newClient [''a'', ''b''])") (auto simp: ex_msgs_def ex_transactions_def)
qed


definition ex_sc :: stor_Client where
  "ex_sc = \<lparr>sc_vdiskID = ''v'', sc_firstMetaKey = [], sc_lastMetaKey = [], sc_lastSequence = 0, sc_lastMd = None, sc_refList = [''v''], sc_storeNum = 0\<rparr>"

definition ex_vd0 :: vdisk where
  "ex_vd0 = (newVdisk ''v'' ex_sc 2 False [])\<lparr>vd_clientConn := Some 0, vd_expectedSequence := 1\<rparr>"

lemma ex_connect:
  "stor_NewClient mem_stor decode_agg ''v'' ex_stor_world = Some (Inr ex_sc)"
  "vd_connect mem_env 0 (newVdisk ''v'' ex_sc 2 False [], ex_stor_world) = Some (Inr 0, ex_vd0)"
  by (simp_all add: stor_NewClient_def getFirstMetaKey_def MetaClient_GetMeta_def mem_stor_def ex_stor_world_def LoadLastSequence_def ex_sc_def
      vd_connect_def attachConn_def newVdisk_def loadLastFlushedSequence_def ex_vd0_def FirstSequence_def Let_def)

text \<open>The second block came too early; the first two are flushed, the third is only received.\<close>

lemma ex_responses: "vd_respChan (fst (vd_run mem_env 0 ex_sevs (ex_vd0, ex_stor_world))) =
    [(RecvOK, [1]), (RecvOK, [1]), (RecvOK, [2]), (FlushOK, [1, 2]), (RecvOK, [3])]"
  by code_simp

lemma ex_delivered: "VdMessage msg \<in> set ex_sevs \<Longrightarrow> msg \<in> set ex_msgs"
  by (auto simp: ex_sevs_def ex_msgs_def ex_transactions_def)

lemma ex_transactions_ok:
  "map t_Sequence ex_transactions = sequences_from 1 (length ex_transactions)" "length ex_transactions + 1 < 2 ^ 64"
  "\<forall>t \<in> set ex_transactions. allocs mem_env t \<and> transaction_ok 2 (\<lambda>_. True) t"
  by (simp_all add: ex_transactions_def ex_t_def sequences_from_def allocs_def mem_env_def transaction_ok_def all_zero_iff)

lemma ex_sends: "list_all (sends_only ex_transactions) ex_cevs"
  by (simp add: ex_cevs_def transaction_cmd_def ex_transactions_def)

definition ex_ms :: inMemoryStorage where "ex_ms = NewInMemoryStorage ''v'' 2"

lemma ex_ms_ok: "inMemory_inv n ex_ms" by (simp add: ex_ms_def inMemory_inv_def NewInMemoryStorage_def)


lemma ex_log: "tlog_vdisk mem_env zw_objects zw_etcd ''v'' (log_of mem_env ex_transactions) (length ex_transactions)"
  using tlog_vdisk_log[OF mem_service.tlog_service_axioms ex_transactions_ok(1,2), of "''v''"] ex_transactions_ok(3) by blast

lemma ex_events_in_log: "list_all (event_in_log mem_env (log_of mem_env ex_transactions) (length ex_transactions)) ex_sevs"
proof (rule delivered_in_log[of _ _ ex_msgs])
  show "delivered ex_msgs ex_sevs" using ex_delivered by (simp add: delivered_def)
  show "list_all (msg_in_log (log_of mem_env ex_transactions) (length ex_transactions)) ex_msgs"
    by (simp add: ex_msgs_def ex_transactions_def msg_in_log_def tlog_block_of_def log_of_def ex_t_def)
qed


section \<open>Runs of the storage\<close>

lemma ex_tls_ok: "tls_ok blockSize valid ex_tls" "tls_tlogReady ex_tls"
  using cache_new[of 1] by (auto simp: tls_ok_def ex_tls_def intro!: exI[of _ "\<lambda>_. []"])

definition ex_tevs :: "tls_event list" where
  "ex_tevs = [TlsClient (TSet 0 [1, 2]), TlsSender, TlsClient (TGet 0), TlsReceive (Response FlushOK [1]), TlsClient (TDelete 0), TlsFlusher, TlsClient (TGet 0)]"

text \<open>After one write.\<close>

definition ex_tls1 :: tlogStorage where "ex_tls1 = snd (tls_set 0 0 (Some [1, 2]) ex_tls)"

lemma ex_tls1_ok: "tls_ok 2 (\<lambda>_. True) ex_tls1" "tls_tlogReady ex_tls1"
proof -
  have "version_ok 2 (\<lambda>_. True) 0 (norm (Some [1, 2]))" by (simp add: version_ok_def norm_def stored_def all_zero_iff)
  moreover have "tls_sequence ex_tls \<noteq> MaxUint64" by (simp add: ex_tls_def MaxUint64_def)
  ultimately obtain tls' where "tls_set 0 0 (Some [1, 2]) ex_tls = (None, tls')" "tls_ok 2 (\<lambda>_. True) tls'" "tls_tlogReady tls'"
    using tlog_memory.tls_write_ok[OF ex_tls_ok, where i = 0 and d = "Some [1, 2]"] by blast
  then show "tls_ok 2 (\<lambda>_. True) ex_tls1" "tls_tlogReady ex_tls1" by (simp_all add: ex_tls1_def)
qed

lemma ex_tls1_pending: "dom (sq_sequences (tls_cache ex_tls1)) = {1}" "tls_toFlushCh ex_tls1 = []" "\<not> sq_Empty (tls_cache ex_tls1)"
  by (simp_all add: ex_tls1_def ex_tls_def tls_set_def getNextSequenceIndex_def isZeroContent_def sq_Add_def newInMemorySequenceCache_def dh_Add_def
      newDataHistory_def dh_Empty_def MaxUint64_def Let_def sq_Empty_def)

lemma ex_flush:
  "\<exists>tls' s'. tls_Flush sorted_elements inMemory (\<lambda>m s. (None, s)) None [Received (Response FlushOK [1]), FlusherRuns] (ex_tls1, ex_ms) = Some (None, tls', s')"
proof -
  from tlog_memory.flush_answered[OF ex_ms_ok ex_tls1_ok(1) ex_tls1_pending(2) _ ex_tls1_pending(3), where seqs = "[1]" and n = 0] ex_tls1_pending(1) obtain tls' s' where
    "flush_wait sorted_elements inMemory [Received (Response FlushOK [1]), FlusherRuns] 0 (ex_tls1, ex_ms) = Some (None, tls', s')" by auto
  then show ?thesis using ex_tls1_ok(2) by (simp add: tls_Flush_def inMemory_def inMemory_Flush_def del: flush_wait.simps)
qed

lemma ex_waiting_write:
  "waiting_ok 2 (\<lambda>_. True) (snd (tls_set 0 3 (Some [1, 2]) ex_waiting)) \<and> length (tls_tlogNotReadyBuff (snd (tls_set 0 3 (Some [1, 2]) ex_waiting))) = 1"
proof -
  have w: "waiting_ok 2 (\<lambda>_. True) ex_waiting" using cache_new[of 1] by (simp add: waiting_ok_def ex_waiting_def ex_tls_def held_back_def[abs_def])
  have v: "version_ok 2 (\<lambda>_. True) 3 (norm (Some [1, 2]))" by (simp add: version_ok_def norm_def stored_def all_zero_iff)
  have m: "tls_sequence ex_waiting \<noteq> MaxUint64" by (simp add: ex_waiting_def ex_tls_def MaxUint64_def)
  from tlog_memory.waiting_write[OF w m v, where now = 0] obtain tls' where "tls_set 0 3 (Some [1, 2]) ex_waiting = (None, tls')" "waiting_ok 2 (\<lambda>_. True) tls'" by blast
  moreover have "length (tls_tlogNotReadyBuff (snd (tls_set 0 3 (Some [1, 2]) ex_waiting))) = 1"
    by (simp add: ex_waiting_def ex_tls_def tls_set_def getNextSequenceIndex_def isZeroContent_def sq_Add_def newInMemorySequenceCache_def dh_Add_def
        newDataHistory_def dh_Empty_def MaxUint64_def Let_def)
  ultimately show ?thesis by simp
qed


end
