(* ===== verification/Spec2Isabelle.thy ===== *)
theory Spec2Isabelle
  imports Cluster_All Examples Copy_Examples Tlog_Examples
begin

text \<open>
  Verification of the block storage of Zero-OS 0-Disk (the Go code under \<open>src/\<close>).

  \<^bold>\<open>The program.\<close> 0-Disk serves virtual disks over the NBD protocol. The backend of a vdisk
  (\<open>nbd/nbdserver/backend.go\<close>) turns reads and writes of byte ranges into operations on blocks of a block
  storage (\<open>nbd/ardb/storage\<close>). A block storage keeps the blocks on the servers of a cluster of ARDB
  (Redis-like) servers (\<open>nbd/ardb/cluster.go\<close>): non-deduped storages as fields of one hash per vdisk, deduped
  storages under the hash of the content, with the hashes of a vdisk in its LBA
  (\<open>nbd/ardb/storage/lba\<close>), a write-back cache of sectors of 128 hashes; semi-deduped storages combine both.
  A cluster maps an object index to a server, around servers that are dead. A vdisk with a transaction log sends every
  write through a tlog client to a tlog server (\<open>tlog/tlogclient\<close>, \<open>tlog/tlogserver\<close>), which collects them in aggregations and stores
  them in an object store (\<open>tlog/stor\<close>); only writes the server has stored reach the block storage (\<open>nbd/nbdserver/tlog\<close>), and
  a player (\<open>tlog/tlogclient/player\<close>) replays the log.

  \<^bold>\<open>The model.\<close> Each Go function is one HOL function of the same name (methods get a prefix where names
  clash: \<open>ds_\<close>, \<open>nd_\<close>, \<open>sd_\<close>, \<open>LBA_\<close>, \<open>Cluster_\<close>). State is passed explicitly: \<open>'w\<close> is the state of all servers, objects are
  records and returned updated. Errors are values of the datatype \<open>error\<close> in \<open>error + 'a\<close> (\<open>result\<close>) or
  \<open>error option\<close>; a run-time panic is the error \<open>Panic\<close>. \<open>int64\<close> values are \<open>int\<close> where they are
  indices of blocks and sectors, \<open>uint64\<close> and \<open>int32\<close> are words where wrap-around matters (jump hash, sizes).
  \<open>float64\<close> arithmetic in the jump hash is rational arithmetic rounded to 53 bits, ties to even.
  Loops are structural recursion or \<open>function\<close>s with a measure; the server search of \<open>ComputeServerIndex\<close>, which
  may run forever, is a \<open>partial_function\<close>, and its return is a theorem. Goroutines that write template content in the
  background are tasks the read returns, run at any later point, and a caller's change of the slice it shares with such a goroutine is an event;
  goroutines per server or bucket run in an order that is a parameter, those of \<open>ListVdisks\<close>, which share a variable, in interleaved steps. The goroutines of the
  transaction log are steps of a run, in any order.

  \<^bold>\<open>Theories.\<close>
  \<^item> \<open>Prelude\<close>: errors, results, bytes, 64-bit arithmetic, association lists (\<open>errors/errors.go\<close>).
  \<^item> \<open>Jump_Hash\<close>, \<open>Server_Index\<close>: \<open>jumpConsistentHash\<close> of \<open>lba/lba.go\<close>; \<open>ComputeServerIndex\<close> and \<open>FindFirstServerIndex\<close> of
    \<open>cluster.go\<close>. The hash is in range and consistent; for up to \<open>2 ^ 15\<close> servers every server is the hash of some
    key (\<open>server_hash_onto\<close>), so the search ends.
  \<^item> \<open>Config\<close>: \<open>config/primitive.go\<close>, \<open>config/validation.go\<close> and the static, server and cluster formats of \<open>config/format.go\<close>.
  \<^item> \<open>Lba_Sector\<close>, \<open>Lba_Bucket\<close>, \<open>Lba\<close>: \<open>hash.go\<close> and \<open>nbd/ardb/storage/lba\<close>. The interface to the storage of sectors is
    the locale \<open>sector_storage\<close>; the LBA refines a map from block indices to hashes.
  \<^item> \<open>Ardb\<close>, \<open>Ardb_Action\<close>: \<open>reply.go\<close>, \<open>action.go\<close>, \<open>conn.go\<close>, \<open>command/type.go\<close>. A server is a parameter; what the code
    relies on of Redis are the assumptions of the locale \<open>ardb\<close>, interpreted on an in-memory server.
  \<^item> \<open>Ardb_Cluster\<close>, \<open>Cluster_All\<close>: \<open>cluster.go\<close>. The locale \<open>ardb_cluster\<close> is what storages rely on; it holds for every
    cluster \<open>NewCluster\<close> accepts and for single-server clusters. Batches return their replies in order.
  \<^item> \<open>Lba_Storage\<close>, \<open>Lba_Frame\<close>: \<open>storage/lba.go\<close>; every \<open>ardb_cluster\<close> is a \<open>sector_storage\<close>, and what the LBA leaves unchanged.
  \<^item> \<open>Block_Storage\<close>: the interface \<open>BlockStorage\<close> of \<open>storage.go\<close>, its contract as the locale \<open>block_storage\<close>, and \<open>inmemory.go\<close>.
  \<^item> \<open>Non_Deduped\<close>, \<open>Deduped\<close>, \<open>Bitmap\<close>, \<open>Semi_Deduped\<close>: the storages of \<open>nondeduped.go\<close>, \<open>deduped.go\<close>, \<open>bitmap.go\<close>, \<open>semideduped.go\<close>;
    each satisfies the contract, and after a flush a reopened storage has the same contents.
  \<^item> \<open>Vdisk_Data\<close>: existence, deletion and listing of vdisks, and the dispatch of \<open>storage.go\<close>. \<open>Storage_Factory\<close>: \<open>NewBlockStorage\<close>.
  \<^item> \<open>Backend\<close>: \<open>nbdserver/backend.go\<close>; over any block storage it refines an array of bytes.
  \<^item> \<open>Histories\<close>: sequences of operations, with background tasks interleaved (locale \<open>task_storage\<close>), and what happens when a caller
    changes a slice that a task still has to store.
  \<^item> \<open>Copy_Fetch\<close>, \<open>Vdisk_Copy\<close>, \<open>Copy_Correct\<close>, \<open>Vdisk_Clone\<close>: the copying of vdisks within and between clusters of \<open>nondeduped.go\<close>,
    \<open>deduped.go\<close>, \<open>semideduped.go\<close>, \<open>storage.go\<close> (\<open>CopyVdisk\<close>) and \<open>tlog.go\<close>. What is relied on of scans and scripts are the
    assumptions of the locale \<open>ardb_copy\<close>. The loops over scans are partial functions; that they return is part of the theorems.
  \<^item> \<open>Vdisk_List\<close>: \<open>ListVdisks\<close> of \<open>storage.go\<close>, over the locale \<open>ardb_scan\<close>, with the variable its goroutines share.
  \<^item> \<open>Cluster_State\<close>: \<open>storage/cluster.go\<close>, the clusters of the NBD server: a controller keeps the state of the servers, follows
    configurations and failure reports. Its events are the step relation \<open>controller_step\<close>; the retry loops are partial
    functions over the locale \<open>controller_lookup\<close>, which proves that they return.
  \<^item> \<open>Seq_Cache\<close>, \<open>Tlog_Storage\<close>: \<open>nbd/nbdserver/tlog/tlog.go\<close>. The cache of writes that are not stored yet is a list of versions per block; the
    storage around any block storage (locale \<open>tlog_storage\<close>) is again a map of blocks, its transactions are the writes, and a flush is durable.
  \<^item> \<open>Tlog_Aggregation\<close>: \<open>tlog/aggregation.go\<close>, \<open>tlog/flusher/flusher.go\<close>, \<open>CopyBlock\<close>. \<open>Tlog_Player\<close>: \<open>player.go\<close> and \<open>decoder/limiter.go\<close>.
  \<^item> \<open>Tlog_Stor\<close>, \<open>Tlog_Stor_Mem\<close>: \<open>tlog/stor\<close> over the locales \<open>zero_stor\<close> and \<open>tlog_stor\<close> (object store, etcd, Cap'n Proto), which an in-memory
    store satisfies. Storing appends to the list that walking returns; the search for the last metadata is a partial function.
  \<^item> \<open>Tlog_Vdisk\<close>, \<open>Tlog_Server\<close>: \<open>tlogserver/server/vdisk.go\<close>, \<open>vdisk_conn.go\<close>: what is stored is a prefix of the log (locale \<open>tlog_vdisk\<close>).
  \<^item> \<open>Block_Buffer\<close>, \<open>Tlog_Client\<close>: \<open>tlogclient/blockbuffer\<close> and \<open>tlogclient/client.go\<close>: what is sent and not flushed stays in the buffer. The loop of
    \<open>reconnect\<close> has fuel, one attempt each; as many as there are servers are enough when one of them accepts.
  \<^item> \<open>Tlog_Pipeline\<close>: storage, client, server, object store and player together.
  \<^item> \<open>Examples\<close>, \<open>Copy_Examples\<close>, \<open>Tlog_Examples\<close>: concrete clusters and storages over the in-memory server, to which the theorems are applied.

  \<^bold>\<open>Assumptions of the theorems.\<close> Redis semantics of the commands used; for deduped storages a hash
  function without collisions on the contents in use, of 32 bytes, not nil, different from the
  other keys in use; a gzip stream that was written and closed reads back (locale \<open>gzip_library\<close>); at most \<open>2 ^ 15\<close> servers in a cluster. The bound is
  that of the proof that the search ends: it covers every server by a run of keys, which needs the quotient
  \<open>2 ^ 31 div n\<close> of the hash to separate servers.

  \<^bold>\<open>Not modelled.\<close> Logging, statistics and broadcast messages; locks (operations are atomic); connection pools;
  configuration sources (files, etcd) and their watchers; the NBD protocol (\<open>nbd/gonbdserver\<close>); of the transaction log the sockets, the slave syncer, the
  coordination of tlog servers and a second connection to a running vdisk of the server (only what it does to the expected sequence); backups
  (\<open>nbd/ardb/backup\<close>); the command line tools.
\<close>

section \<open>Block storages refine a map of blocks\<close>

text \<open>
  C1: for every sequence of block operations on a deduped vdisk, with the goroutines that
  copy template content interleaved at arbitrary points, every operation succeeds and returns what a map from
  block indices to contents returns, and the storage invariant holds afterwards. This is so for a vdisk without a
  template whatever its callers do, and for one with a template as long as the callers do not write into a slice that
  \<open>GetBlock\<close> returned while a goroutine still has to store it (the backend's \<open>merge\<close> does write into
  it; what happens then is among the behaviours at the end). The hypotheses: Redis semantics of the servers, both clusters, and a hash
  without collisions on the contents in use.
\<close>

theorem deduped_history_refines:
  assumes "dedup srv view up cl route members H C vd bsize tc troute order"
    and "ds_inv view route troute up H C vd bsize cl tc st"
    and "list_all (op_ok bsize (\<lambda>c. c \<in> C)) (client_ops es)" and "calm ds_no_template st es"
  shows "\<exists>st'. run_events (dedupedStorage H order) ds_run_task es st =
             (fst (spec_ops (client_ops es) (ds_content view route H C vd st)), st') \<and>
           ds_inv view route troute up H C vd bsize cl tc st' \<and>
           ds_content view route H C vd st' = snd (spec_ops (client_ops es) (ds_content view route H C vd st))"
  by (rule dedup.deduped_run_events[OF assms])

theorem deduped_history_refines_witness:
  "\<exists>st'. run_events (dedupedStorage pad_hash (\<lambda>n. [0..<n])) ds_run_task
       [Client (SetOp 5 (replicate 16 1)), Background 0, Client (GetOp 5)] (ex_ds, ex_world, []) =
     (fst (spec_ops [SetOp 5 (replicate 16 1), GetOp 5]
        (ds_content mem_view (Cluster_route ex_cluster) pad_hash {c. length c = 16} ''v'' (ex_ds, ex_world, []))), st')"
  using deduped_history_refines[OF ex_dedup ex_ds_inv,
    of "[Client (SetOp 5 (replicate 16 1)), Background 0, Client (GetOp 5)]"] by (auto simp: calm_def)

text \<open>
  C4: the same for a non-deduped vdisk without a template on a cluster that
  \<open>NewCluster\<close> accepts, of at most \<open>2 ^ 15\<close> servers.
\<close>

theorem nondeduped_history_refines:
  assumes "ardb srv view up" and "NewCluster validStruct isDialString cfg = Inr c" and "length (Servers cfg) \<le> 2 ^ 15"
    and "NonDeduped vd tid bsize (Cluster_cluster srv sched c) None = Inr ss"
    and "nd_inv view (Cluster_route c) up (nonDedupedStorageKey vd) bsize st"
    and "list_all (op_ok bsize (\<lambda>_. True)) ops"
  shows "\<exists>st'. run_ops (nonDedupedStorage ss) ops st =
             (fst (spec_ops ops (nd_content view (Cluster_route c) (nonDedupedStorageKey vd) st)), st') \<and>
           nd_inv view (Cluster_route c) up (nonDedupedStorageKey vd) bsize st' \<and>
           nd_content view (Cluster_route c) (nonDedupedStorageKey vd) st' =
             snd (spec_ops ops (nd_content view (Cluster_route c) (nonDedupedStorageKey vd) st))"
proof -
  note wf = NewCluster_small(1,2)[OF assms(2,3)]
  have cl: "ardb_cluster srv view up (Cluster_cluster srv sched c) (Cluster_route c) (Cluster_members c)"
    by (rule Cluster_ardb_cluster[OF assms(1) wf])
  have ss: "nd_storageKey ss = nonDedupedStorageKey vd"
    "ss\<lparr>nd_cluster := Cluster_cluster srv sched c, nd_templateCluster := None\<rparr> = ss"
    using assms(4) by (auto simp: NonDeduped_def)
  from ardb_cluster.nondeduped_run_ops[OF cl, of ss bsize st ops] assms(5,6)
  show ?thesis by (simp add: ss)
qed

theorem nondeduped_history_refines_witness:
  "\<exists>st'. run_ops (nonDedupedStorage ex_nd) [SetOp 5 (replicate 16 1), GetOp 5, GetOp 6] (ex_world, []) =
     (fst (spec_ops [SetOp 5 (replicate 16 1), GetOp 5, GetOp 6]
        (nd_content mem_view (Cluster_route ex_cluster) (nonDedupedStorageKey ''v'') (ex_world, []))), st')"
  using nondeduped_history_refines[OF ex_ardb ex_new_cluster _ ex_nd_new[unfolded ex_cl_def] ex_nd_inv,
    of "[SetOp 5 (replicate 16 1), GetOp 5, GetOp 6]"] by (auto simp: ex_config_def)

text \<open>
  C5: the same for a semi-deduped vdisk, which keeps the template's blocks in a deduped
  storage and the user's blocks in a non-deduped one. The goroutines that a read of a template block
  starts run at arbitrary points; the same condition on the slices applies.
\<close>

theorem semideduped_history_refines:
  assumes "semidedup srv view up cl route members H C vd bsize tc troute order gz"
    and "sd_inv view route troute up H C vd bsize cl tc st"
    and "list_all (op_ok bsize (\<lambda>_. True)) (client_ops es)" and "calm sd_no_template st es"
  shows "\<exists>st'. run_events (semiDedupedStorage gz order) sd_run_task es st =
             (fst (spec_ops (client_ops es) (sd_content view route H C vd st)), st') \<and>
           sd_inv view route troute up H C vd bsize cl tc st' \<and>
           sd_content view route H C vd st' = snd (spec_ops (client_ops es) (sd_content view route H C vd st))"
  by (rule semidedup.semideduped_run_events[OF assms])

theorem semideduped_history_refines_witness:
  "\<exists>st'. run_events (semiDedupedStorage plain_gzip (\<lambda>n. [0..<n])) sd_run_task
       [Client (GetOp 5), Client (SetOp 5 (replicate 16 1)), Background 0, Client (GetOp 5), Client FlushOp] (ex_sds, ex_world, []) =
     (fst (spec_ops [GetOp 5, SetOp 5 (replicate 16 1), GetOp 5, FlushOp]
        (sd_content mem_view (Cluster_route ex_cluster) pad_hash {c. length c = 16} ''v'' (ex_sds, ex_world, []))), st')"
  using semideduped_history_refines[OF ex_semidedup ex_sd_inv,
    of "[Client (GetOp 5), Client (SetOp 5 (replicate 16 1)), Background 0, Client (GetOp 5), Client FlushOp]"]
  by (auto simp: calm_def)

text \<open>
  C2: after a successful \<open>Flush\<close> of a deduped storage, a storage opened anew on the same servers,
  with any cache limit \<open>Deduped\<close> accepts, has the same contents: nothing is only in the LBA cache.
\<close>

theorem deduped_durable:
  assumes "dedup srv view up cl route members H C vd bsize tc troute order"
    and "ds_inv view route troute up H C vd bsize cl tc (ds, w, ts)"
    and "Deduped H vd bsize limit cl tc = Inr ds2"
  shows "\<exists>ds1 w1. ds_Flush (order (length (buckets (ds_lba ds)))) ds w = (None, ds1, w1) \<and>
           ds_inv view route troute up H C vd bsize cl tc (ds2, w1, []) \<and>
           ds_content view route H C vd (ds2, w1, []) = ds_content view route H C vd (ds, w, ts)"
  by (rule dedup.Deduped_reopen[OF assms]) blast

theorem deduped_durable_witness:
  "\<exists>ds1 w1. ds_Flush ((\<lambda>n. [0..<n]) (length (buckets (ds_lba ex_ds)))) ex_ds ex_world = (None, ds1, w1) \<and>
     ds_content mem_view (Cluster_route ex_cluster) pad_hash {c. length c = 16} ''v'' (ex_ds, w1, []) =
     ds_content mem_view (Cluster_route ex_cluster) pad_hash {c. length c = 16} ''v'' (ex_ds, ex_world, [])"
  using deduped_durable[OF ex_dedup ex_ds_inv ex_new] by blast

text \<open>
  C6: after a \<open>Flush\<close> of a semi-deduped storage, the storage opened anew, which reads its
  bitmap back from the cluster, has the same contents.
\<close>

theorem semideduped_durable:
  assumes "semidedup srv view up cl route members H C vd bsize tc troute order gz"
    and "sd_inv view route troute up H C vd bsize cl tc (sds, w, ts)"
    and "Deduped H vd bsize limit cl tc = Inr ds2"
  shows "\<exists>sds1 w1 sds2 w2.
    sd_Flush gz (order (length (buckets (ds_lba (sd_templateStorage sds))))) sds w = (None, sds1, w1) \<and>
    SemiDeduped H gz vd bsize limit cl tc w1 = (Inr sds2, w2) \<and>
    sd_inv view route troute up H C vd bsize cl tc (sds2, w2, []) \<and>
    sd_content view route H C vd (sds2, w2, []) = sd_content view route H C vd (sds, w, ts)"
  by (rule semidedup.SemiDeduped_reopen[OF assms]) blast

theorem semideduped_durable_witness:
  "\<exists>sds1 w1 sds2 w2.
    sd_Flush plain_gzip ((\<lambda>n. [0..<n]) (length (buckets (ds_lba (sd_templateStorage ex_sds))))) ex_sds ex_world = (None, sds1, w1) \<and>
    SemiDeduped pad_hash plain_gzip ''v'' 16 65536 ex_cl (Some ex_tc) w1 = (Inr sds2, w2)"
  using semideduped_durable[OF ex_semidedup ex_sd_inv ex_new] by blast

section \<open>Clusters\<close>

text \<open>
  C3: on a cluster that \<open>NewCluster\<close> accepts, of at most \<open>2 ^ 15\<close> servers, the search for
  the server of an object index, which rehashes until it meets an operational server, ends with an
  online server, however many servers are dead.
\<close>

theorem server_search_returns:
  assumes "NewCluster validStruct isDialString cfg = Inr cl" and "length (Servers cfg) \<le> 2 ^ 15" and "0 \<le> i"
  shows "\<exists>t. ComputeServerIndex (serverCount cl) i (serverOperational cl) = Some (Inr t) \<and>
             0 \<le> t \<and> t < serverCount cl \<and> State (servers cl ! nat t) = Online"
  by (rule ComputeServerIndex_cluster[OF NewCluster_small(1,2)[OF assms(1,2)] assms(3)]) blast

theorem server_search_returns_witness:
  "\<exists>t. ComputeServerIndex (serverCount ex_cluster) 4 (serverOperational ex_cluster) = Some (Inr t) \<and>
       0 \<le> t \<and> t < serverCount ex_cluster \<and> State (servers ex_cluster ! nat t) = Online"
  by (rule server_search_returns[OF ex_new_cluster]) (simp_all add: ex_config_def)

text \<open>
  C10: on such a cluster \<open>DoFor\<close> runs the action on one online server of the
  cluster, which depends on the object index only and not on the action or the state of the servers.
\<close>

theorem cluster_dofor_reaches_online:
  assumes "NewCluster validStruct isDialString cfg = Inr cl" and "length (Servers cfg) \<le> 2 ^ 15" and "0 \<le> i"
  shows "\<exists>s \<in> set (Servers cfg). State s = Online \<and> (\<forall>act w. Cluster_DoFor srv cl i act w = server_Do srv s act w)"
proof -
  note c = NewCluster_small[OF assms(1,2)]
  from cluster_route_online[OF c(1,2) assms(3)] Cluster_DoFor_route[OF c(1,2) assms(3)] c(3) show ?thesis
    by (intro bexI[of _ "cluster_route cl i"]) auto
qed

theorem cluster_dofor_reaches_online_witness:
  "\<exists>s. State s = Online \<and> (\<forall>act w. Cluster_DoFor (mem_srv {}) ex_cluster 4 act w = server_Do (mem_srv {}) s act w)"
proof -
  have "length (Servers ex_config) \<le> 2 ^ 15" by (simp add: ex_config_def)
  from cluster_dofor_reaches_online[OF ex_new_cluster this, of 4 "mem_srv {}"] show ?thesis by auto
qed

text \<open>
  When no server is dead the search is plain sharding: object \<open>i\<close> is on server
  \<open>i mod n\<close>.
\<close>

lemma cluster_modulo_sharding:
  assumes "cluster_wf cl" and "\<forall>s \<in> set (servers cl). State s = Online" and "0 \<le> i"
  shows "cluster_route cl i = servers cl ! nat (i mod serverCount cl)"
  by (rule cluster_route_mod[OF assms])

text \<open>
  \<open>NewCluster\<close> accepts a configuration exactly when it validates, every server is
  online or dead (RIP), and at least one is online; a server in any other state is refused.
\<close>

lemma new_cluster_accepts_iff:
  "(\<exists>cl. NewCluster validStruct isDialString cfg = Inr cl) \<longleftrightarrow>
     StorageClusterConfig_Validate validStruct isDialString (Some cfg) = None \<and>
     list_all (\<lambda>s. State s = Online \<or> State s = RIP) (Servers cfg) \<and> list_ex (\<lambda>s. State s = Online) (Servers cfg)"
  by (simp add: NewCluster_Inr_iff list_all_iff list_ex_iff)

text \<open>
  C11: \<open>DoForAll\<close> groups the actions by server, sends each group as one batch, and collects
  the replies in any order of the groups. For a batch of reads the replies are in the order of the
  given indices, each the field its own server holds, unless the batch has exactly one element: then the code reads
  past the end of the slice and panics, although its interface promises a reply for each pair.
\<close>

theorem cluster_doforall_ordered:
  assumes "ardb srv view up" and "cluster_wf cl" and "serverCount cl \<le> 2 ^ 15"
    and "hash_ok view (Cluster_route cl) up k w" and "list_all (\<lambda>i. 0 \<le> i) is" and "\<And>gs. set (order gs) = set gs"
  shows "if length is = 1
    then Cluster_DoForAll srv order cl (map (\<lambda>i. (i, Command HashGet [AStr k, AInt i])) is) w = (Inl (Panic ''index out of range''), w)
    else \<exists>w'. Cluster_DoForAll srv order cl (map (\<lambda>i. (i, Command HashGet [AStr k, AInt i])) is) w =
      (Inr (map (\<lambda>i. opt_bulk (route_hash view (Cluster_route cl) k w i)) is), w')"
proof (cases "2 \<le> length is")
  case True
  from Cluster_DoForAll_hget[OF assms(1-4) True _ assms(6)] assms(5) True show ?thesis by (simp add: list_all_iff)
next
  case False
  then have "is = [] \<or> length is = 1" by (cases "is" rule: remdups_adj.cases) auto
  then show ?thesis by (auto simp: Cluster_DoForAll_def)
qed

theorem cluster_doforall_ordered_witness:
  "\<exists>w'. Cluster_DoForAll (mem_srv {}) rev ex_cluster (map (\<lambda>i. (i, Command HashGet [AStr ''nondedup:v'', AInt i])) [4, 1, 3]) ex_tworld =
      (Inr (map (\<lambda>i. opt_bulk (route_hash mem_view (Cluster_route ex_cluster) ''nondedup:v'' ex_tworld i)) [4, 1, 3]), w')"
  using cluster_doforall_ordered[OF ex_ardb ex_cluster_wf ex_thash(1), of "[4, 1, 3]" rev] by simp
section \<open>The LBA\<close>

text \<open>
  C7: over any sector storage that works, recording a hash for a block index and reading any
  index afterwards returns the new hash there and the old one elsewhere, whatever sectors the
  cache evicts on the way.
\<close>

theorem lba_set_then_get:
  assumes "sector_storage st psec ok" and "lba_inv lba (psec w)" and "ok w" and "0 \<le> i" and "0 \<le> j"
    and "length (hash_bytes h) = 32"
  shows "\<exists>lba1 w1 lba2 w2. LBA_Set st lba i h w = (None, lba1, w1) \<and>
    LBA_Get st lba1 j w1 = (Inr (if j = i then opt_hash (hash_bytes h) else lba_map lba (psec w) j), lba2, w2) \<and>
    lba_inv lba2 (psec w2)"
proof -
  obtain lba1 w1 where s: "LBA_Set st lba i h w = (None, lba1, w1)" "lba_inv lba1 (psec w1)" "ok w1"
    "lba_map lba1 (psec w1) = (lba_map lba (psec w))(i := opt_hash (hash_bytes h))"
    by (rule sector_storage.LBA_Set_ok[OF assms(1-4,6)])
  obtain lba2 w2 where "LBA_Get st lba1 j w1 = (Inr (lba_map lba1 (psec w1) j), lba2, w2)" "lba_inv lba2 (psec w2)"
    by (rule sector_storage.LBA_Get_ok[OF assms(1) s(2,3) assms(5)])
  with s show ?thesis by auto
qed

text \<open>The hypotheses hold for the sector storage on the example cluster.\<close>

lemma ex_lba_facts:
  "sector_storage (newLBASectorStorage ''v'' ex_cl) (lba_psec mem_view (Cluster_route ex_cluster) ''v'')
     (lba_ok mem_view (Cluster_route ex_cluster) ex_up ''v'')"
  "lba_inv ex_lba (lba_psec mem_view (Cluster_route ex_cluster) ''v'' ex_world)"
  "lba_ok mem_view (Cluster_route ex_cluster) ex_up ''v'' ex_world"
  using ardb_cluster.lba_sector_storage[OF ex_ardb_cluster, of "''v''"] ex_ds_inv
  by (simp_all add: ds_inv_def ex_ds_def)

theorem lba_set_then_get_witness:
  "\<exists>lba1 w1 lba2 w2. LBA_Set (newLBASectorStorage ''v'' ex_cl) ex_lba 7 (Some (replicate 32 1)) ex_world = (None, lba1, w1) \<and>
     LBA_Get (newLBASectorStorage ''v'' ex_cl) lba1 7 w1 = (Inr (Some (replicate 32 1)), lba2, w2)"
  using lba_set_then_get[OF ex_lba_facts(1), OF ex_lba_facts(2,3), of 7 7 "Some (replicate 32 1)"]
  by (auto simp: hash_bytes_def opt_hash_def NilHash_def NewHash_def HashSize_def)

text \<open>
  C8: a flush of the LBA over a storage that works succeeds, in whatever order the buckets are
  flushed, and afterwards the storage alone holds every recorded hash.
\<close>

theorem lba_flush_persists:
  assumes "sector_storage st psec ok" and "lba_inv lba (psec w)" and "ok w"
    and "set order = {..<length (buckets lba)}"
  shows "\<exists>lba' w'. LBA_Flush st order lba w = (None, lba', w') \<and> lba_inv lba' (psec w') \<and>
    lba_map lba' (psec w') = lba_map lba (psec w) \<and> stored_map (psec w') = lba_map lba (psec w)"
  by (rule sector_storage.LBA_Flush_ok[OF assms]) blast

theorem lba_flush_persists_witness:
  "\<exists>lba' w'. LBA_Flush (newLBASectorStorage ''v'' ex_cl) [1, 0] ex_lba ex_world = (None, lba', w')"
  using lba_flush_persists[OF ex_lba_facts(1), OF ex_lba_facts(2,3), of "[1, 0]"] by (force simp: ex_lba_def)

text \<open>
  A new LBA has between 1 and 64 buckets, each with room for at least 8 sectors, and all
  together for no more bytes than the cache limit.
\<close>

lemma lba_cache_bounded:
  assumes "NewLBA limit storage = Inr lba"
  shows "1 \<le> length (buckets lba) \<and> length (buckets lba) \<le> 64 \<and> list_all (\<lambda>b. 8 \<le> bucket_size b) (buckets lba) \<and>
    (\<Sum>b\<leftarrow>buckets lba. bucket_size b * BytesPerSector) \<le> limit"
  using NewLBA_ok[OF assms] by (simp add: list_all_iff)

text \<open>
  C30: for every key and every positive 32-bit bucket count, the jump consistent
  hash stops and returns a position of the bucket array.
\<close>

theorem jump_hash_in_range:
  assumes "0 < sint n"
  shows "0 \<le> jumpConsistentHash key n \<and> jumpConsistentHash key n < sint n"
  using jumpConsistentHash_range[OF assms] by blast

theorem jump_hash_in_range_witness:
  "0 \<le> jumpConsistentHash 42 8 \<and> jumpConsistentHash 42 8 < sint (8 :: int32)"
  by (rule jump_hash_in_range) simp

text \<open>
  C31: when the number of buckets grows from \<open>n\<close> to \<open>m\<close>, a key keeps its bucket or moves to
  one of the new buckets, never from one old bucket to another.
\<close>

theorem jump_hash_consistent:
  assumes "0 < sint n" and "sint n \<le> sint m"
  shows "jumpConsistentHash key m = jumpConsistentHash key n \<or> sint n \<le> jumpConsistentHash key m"
  using jump_loop_mono[OF assms(2), of _ key] assms by (simp add: jumpConsistentHash_def)

theorem jump_hash_consistent_witness:
  "jumpConsistentHash 42 9 = jumpConsistentHash 42 8 \<or> sint (8 :: int32) \<le> jumpConsistentHash 42 9"
  by (rule jump_hash_consistent) simp_all

section \<open>The NBD backend\<close>

text \<open>
  C9: over any block storage that keeps its contract, a write of bytes inside a block,
  whole or partial, succeeds and changes exactly those bytes of the vdisk; a read of any range inside a
  block returns them.
\<close>

theorem backend_write_then_read:
  assumes "block_storage bs bsize valid ok content" and "ok s" and "be_blockSize ab = bsize" and "0 < bsize"
    and "0 \<le> off" and "off mod bsize + int (length b) \<le> bsize"
    and "0 \<le> roff" and "0 \<le> len" and "roff mod bsize + len \<le> bsize"
    and "valid (block_of bsize (patch (disk bsize (content s)) off b) (off div bsize))"
  shows "\<exists>s1 s2. WriteAt bs ab b off s = (Inr (int (length b)), s1) \<and>
    ReadAt bs ab roff len s1 = (Inr (map (\<lambda>k. patch (disk bsize (content s)) off b (roff + int k)) [0..<nat len]), s2) \<and> ok s2"
proof -
  from block_storage.WriteAt_ok[OF assms(1-6) refl assms(10)] obtain s1 where
    s1: "WriteAt bs ab b off s = (Inr (int (length b)), s1)" "ok s1"
    "disk bsize (content s1) = patch (disk bsize (content s)) off b" by blast
  from block_storage.ReadAt_ok[OF assms(1) s1(2) assms(3,4,7,8,9)] s1 show ?thesis by auto
qed

theorem backend_write_then_read_witness:
  "\<exists>s1 s2. WriteAt inMemory \<lparr>be_vdiskID = ''v'', be_blockSize = 16, be_size = 1024\<rparr> [1, 2, 3] 21 (NewInMemoryStorage ''v'' 16) = (Inr 3, s1) \<and>
     ReadAt inMemory \<lparr>be_vdiskID = ''v'', be_blockSize = 16, be_size = 1024\<rparr> 20 4 s1 =
       (Inr (map (\<lambda>k. patch (disk 16 (vdisk (NewInMemoryStorage ''v'' 16))) 21 [1, 2, 3] (20 + int k)) [0..<4]), s2)"
  using backend_write_then_read[OF memory_storage.block_storage_axioms[of 16], of "NewInMemoryStorage ''v'' 16"
      "\<lparr>be_vdiskID = ''v'', be_blockSize = 16, be_size = 1024\<rparr>" 21 "[1, 2, 3]" 20 4]
  by (auto simp: inMemory_inv_def NewInMemoryStorage_def)

text \<open>
  C20: writing zeroes to a range inside a block, by deleting the block or by merging, makes
  exactly those bytes zero.
\<close>

theorem backend_zeroes:
  assumes "block_storage bs bsize valid ok content" and "ok s" and "be_blockSize ab = bsize" and "0 < bsize"
    and "0 \<le> off" and "0 \<le> len" and "off mod bsize + len \<le> bsize"
    and "valid (block_of bsize (patch (disk bsize (content s)) off (replicate (nat len) 0)) (off div bsize))"
  shows "\<exists>s'. WriteZeroesAt bs ab off len s = (Inr len, s') \<and> ok s' \<and>
    disk bsize (content s') = patch (disk bsize (content s)) off (replicate (nat len) 0)"
  by (rule block_storage.WriteZeroesAt_ok[OF assms(1-7) refl assms(8)])

theorem backend_zeroes_witness:
  "\<exists>s'. WriteZeroesAt inMemory \<lparr>be_vdiskID = ''v'', be_blockSize = 16, be_size = 1024\<rparr> 20 4
      ((NewInMemoryStorage ''v'' 16)\<lparr>vdisk := [1 \<mapsto> replicate 16 9]\<rparr>) = (Inr 4, s')"
  using backend_zeroes[OF memory_storage.block_storage_axioms[of 16],
      of "(NewInMemoryStorage ''v'' 16)\<lparr>vdisk := [1 \<mapsto> replicate 16 9]\<rparr>"
      "\<lparr>be_vdiskID = ''v'', be_blockSize = 16, be_size = 1024\<rparr>" 20 4]
  by (auto simp: inMemory_inv_def NewInMemoryStorage_def)

section \<open>Vdisks as a whole\<close>

text \<open>
  C18: with every server reachable, deleting a vdisk succeeds, reports whether there was
  anything to delete, leaves nothing that \<open>VdiskExistsInCluster\<close> would find, and touches no key but the
  vdisk's storage key and its tlog metadata.
\<close>

theorem delete_vdisk_complete:
  assumes "ardb_cluster srv view up cl route members" and "list_all up members"
    and "arrive (map (storageServer srv) members) = map (storageServer srv) ss" and "set ss = set members"
    and "key = (if VdiskType_StorageType t = StorageDeduped then lbaStorageKey vd else nonDedupedStorageKey vd)"
  shows "\<exists>w1 w2. DeleteVdiskInCluster arrive vd t cl w =
      (Inr ((TlogSupport t \<and> view w (hd members) (tlogMetadataKey vd) \<noteq> None) \<or> (\<exists>s. s \<in> set members \<and> view w s key \<noteq> None)), w1) \<and>
    VdiskExistsInCluster vd t cl w1 = (Inr False, w2) \<and>
    (\<forall>s k. k = key \<or> k = tlogMetadataKey vd \<or> view w1 s k = view w s k)"
proof -
  have up: "\<And>s. s \<in> set members \<Longrightarrow> up s" using assms(2) by (simp add: list_all_iff)
  from ardb_cluster.DeleteVdiskInCluster_ok[OF assms(1), of arrive ss key t vd w, OF up assms(3-5)]
  show ?thesis unfolding Bex_def by meson
qed

theorem delete_vdisk_complete_witness:
  "\<exists>w1 w2. DeleteVdiskInCluster rev ''v'' VdiskTypeDB ex_tc ex_tworld = (Inr True, w1) \<and>
     VdiskExistsInCluster ''v'' VdiskTypeDB ex_tc w1 = (Inr False, w2)"
proof -
  have m: "Cluster_members ex_tcluster = [ex_server ''t:6379'']" by (simp add: Cluster_members_def ex_cluster_defs)
  have t: "VdiskType_StorageType VdiskTypeDB = StorageNonDeduped"
    by (simp add: VdiskType_StorageType_def prop_defs vdisk_types)
  show ?thesis
    using delete_vdisk_complete[OF ex_ardb_tcluster, of rev "[ex_server ''t:6379'']" "nonDedupedStorageKey ''v''" VdiskTypeDB "''v''" ex_tworld]
    by (auto simp: m t ex_tview ex_server_def nonDedupedStorageKey_def nonDedupedStorageKeyPrefix_def)
qed

text \<open>
  C19: listing the blocks of a non-deduped vdisk returns, sorted, exactly the block indices
  some server of the cluster has a block for, in whatever order the servers answer.
\<close>

theorem list_nondeduped_indices:
  assumes "ardb_cluster srv view up cl route members" and "list_all up members"
    and "list_all (\<lambda>s. \<exists>h. hash_at (view w s (nonDedupedStorageKey vd)) = Some h \<and> index_fields h) members"
    and "arrive (map (storageServer srv) members) = map (storageServer srv) ss" and "set ss = set members"
  shows "\<exists>is w'. listNonDedupedBlockIndices arrive vd cl w = (Inr is, w') \<and> view w' = view w \<and> sorted is \<and>
    set is = {i. \<exists>s h. s \<in> set members \<and> hash_at (view w s (nonDedupedStorageKey vd)) = Some h \<and> itoa i \<in> dom h}"
proof -
  have up: "\<And>s. s \<in> set members \<Longrightarrow> up s"
    and f: "\<And>s. s \<in> set members \<Longrightarrow> \<exists>h. hash_at (view w s (nonDedupedStorageKey vd)) = Some h \<and> index_fields h"
    using assms(2,3) by (simp_all add: list_all_iff)
  from ardb_cluster.listNonDedupedBlockIndices_ok[OF assms(1), of w vd arrive ss, OF up f assms(4,5)]
  show ?thesis by (auto simp: Bex_def)
qed

theorem list_nondeduped_indices_witness:
  "\<exists>is w'. listNonDedupedBlockIndices id ''v'' ex_tc ex_tworld = (Inr is, w') \<and> sorted is \<and> 3 \<in> set is"
proof -
  have m: "Cluster_members ex_tcluster = [ex_server ''t:6379'']" by (simp add: Cluster_members_def ex_cluster_defs)
  have "index_fields [itoa 3 \<mapsto> replicate 16 7]" by (auto simp: index_fields_def)
  with list_nondeduped_indices[OF ex_ardb_tcluster, of ex_tworld "''v''" id "[ex_server ''t:6379'']"] show ?thesis
    by (auto simp: m ex_tview ex_server_def nonDedupedStorageKey_def nonDedupedStorageKeyPrefix_def itoa_inject)
qed

text \<open>
  The in-place duplicate removal of \<open>dedupInt64s\<close>, applied to a list sorted by \<open>sortInt64s\<close>,
  gives the same elements, sorted and without duplicates.
\<close>

lemma dedup_of_sorted:
  "distinct (dedupInt64s (sortInt64s s)) \<and> sorted (dedupInt64s (sortInt64s s)) \<and> set (dedupInt64s (sortInt64s s)) = set s"
  by (simp add: dedupInt64s_remdups sortInt64s_sort sorted_distinct_remdups_adj)

text \<open>
  C32: a storage that \<open>NewBlockStorage\<close> returns has a valid block size and is the one of the
  vdisk's type: boot vdisks are deduped with the template cluster, db vdisks non-deduped with it,
  cache and tmp vdisks non-deduped without. For db vdisks this is what the code does; the tables of \<open>docs/README.md\<close>
  and \<open>docs/nbd/nbd.md\<close> give them no template support.
\<close>

theorem block_storage_by_type:
  assumes "NewBlockStorage H gz cfg cluster templateCluster w = (Inr obj, w')"
  shows "w' = w \<and> ValidateBlockSize (bc_BlockSize cfg) \<and>
    ((bc_VdiskType cfg = VdiskTypeBoot \<and> (\<exists>ds. obj = DedupedObject ds \<and> ds_templateCluster ds = templateCluster)) \<or>
     (bc_VdiskType cfg = VdiskTypeDB \<and> (\<exists>ss. obj = NonDedupedObject ss \<and> nd_templateCluster ss = templateCluster)) \<or>
     (bc_VdiskType cfg = VdiskTypeCache \<and> (\<exists>ss. obj = NonDedupedObject ss \<and> nd_templateCluster ss = None)) \<or>
     (bc_VdiskType cfg = VdiskTypeTmp \<and> (\<exists>ss. obj = NonDedupedObject ss \<and> nd_templateCluster ss = None)))"
proof -
  have "VdiskType_Validate (bc_VdiskType cfg) = None"
    using assms by (auto simp: NewBlockStorage_def BlockStorageConfig_Validate_ok split: option.splits)
  from valid_vdisk_types[OF this] NewBlockStorage_type[OF assms] show ?thesis by auto
qed

theorem block_storage_by_type_witness:
  "(\<exists>ss. fst (NewBlockStorage pad_hash plain_gzip
      \<lparr>VdiskID = ''v'', bc_TemplateVdiskID = [], bc_VdiskType = VdiskTypeDB, bc_BlockSize = 4096, LBACacheLimit = 0\<rparr>
      ex_cl (Some ex_tc) ex_world) = Inr (NonDedupedObject ss) \<and> nd_templateCluster ss = Some ex_tc) \<and>
   (\<exists>ss. fst (NewBlockStorage pad_hash plain_gzip
      \<lparr>VdiskID = ''v'', bc_TemplateVdiskID = [], bc_VdiskType = VdiskTypeCache, bc_BlockSize = 4096, LBACacheLimit = 0\<rparr>
      ex_cl (Some ex_tc) ex_world) = Inr (NonDedupedObject ss) \<and> nd_templateCluster ss = None)"
proof -
  let ?cfg = "\<lambda>t. \<lparr>VdiskID = ''v'', bc_TemplateVdiskID = [], bc_VdiskType = t, bc_BlockSize = 4096, LBACacheLimit = 0\<rparr>"
  have v: "ValidateBlockSize 4096" unfolding ValidateBlockSize_iff by (rule exI[of _ 12]) simp
  have t: "VdiskType_Validate VdiskTypeDB = None" "VdiskType_Validate VdiskTypeCache = None" by (simp_all add: VdiskType_Validate_def)
  obtain ss where s: "NewBlockStorage pad_hash plain_gzip (?cfg VdiskTypeDB) ex_cl (Some ex_tc) ex_world = (Inr (NonDedupedObject ss), ex_world)"
    using v t by (auto simp: NewBlockStorage_def BlockStorageConfig_Validate_def NonDeduped_def Let_def
        VdiskType_StorageType_def TemplateSupport_def prop_defs vdisk_types)
  obtain ss' where s': "NewBlockStorage pad_hash plain_gzip (?cfg VdiskTypeCache) ex_cl (Some ex_tc) ex_world = (Inr (NonDedupedObject ss'), ex_world)"
    using v t by (auto simp: NewBlockStorage_def BlockStorageConfig_Validate_def NonDeduped_def Let_def
        VdiskType_StorageType_def TemplateSupport_def prop_defs vdisk_types)
  from block_storage_by_type[OF s] block_storage_by_type[OF s'] s s' show ?thesis
    by (auto simp: vdisk_types)
qed

section \<open>Configuration\<close>

text \<open>
  A vdisk configuration that validates has a power of two of at least 512 bytes as its block
  size and one of the four vdisk types; below \<open>2 ^ 34\<close> GiB, where the size in bytes does not wrap
  around, it has room for at least one block.
\<close>

lemma static_config_bounds:
  assumes "VdiskStaticConfig_Validate validStruct (Some cfg) = None"
  shows "(\<exists>k. 9 \<le> k \<and> unat (BlockSize cfg) = 2 ^ k) \<and> VdiskType_Validate (Type cfg) = None \<and>
    (2 ^ 34 \<le> unat (Size cfg) \<or> 1 \<le> (unat (Size cfg) * 2 ^ 30) div unat (BlockSize cfg))"
  using VdiskStaticConfig_Validate_ok[OF assms] by (metis not_le)
section \<open>Copying and listing vdisks\<close>

text \<open>
  C26: copying a non-deduped vdisk within one cluster, which runs a script on every server, succeeds
  exactly when every online server holds a part of the source; then every block of the target is the block of
  the source, and no other key changes.
\<close>

theorem copy_within_cluster:
  assumes "ardb_copy srv view up" and "ardb_cluster srv view up cl route members" and "\<forall>s \<in> set members. up s"
    and "sourceID \<noteq> targetID"
    and "\<forall>s \<in> set members. \<forall>v. view w s (nonDedupedStorageKey sourceID) = Some v \<longrightarrow>
           (\<exists>h. v = VHash h \<and> finite (dom h) \<and> h \<noteq> Map.empty)"
    and "arrive (map (storageServer srv) members) = map (storageServer srv) ss" and "set ss = set members"
  shows "\<exists>e w'. copyNonDedupedData enum arrive sourceID targetID bs bs cl None w = Some (e, w') \<and>
    (e = None \<longleftrightarrow> (\<forall>s \<in> set members. view w s (nonDedupedStorageKey sourceID) \<noteq> None)) \<and>
    (e = None \<longrightarrow> (\<forall>i \<ge> 0. route_hash view route (nonDedupedStorageKey targetID) w' i =
                                route_hash view route (nonDedupedStorageKey sourceID) w i)) \<and>
    (\<forall>s k. k \<noteq> nonDedupedStorageKey targetID \<longrightarrow> view w' s k = view w s k)"
proof -
  have "nonDedupedStorageKey sourceID \<noteq> nonDedupedStorageKey targetID" using assms(4) by (simp add: nonDedupedStorageKey_def)
  from ardb_copy.copy_same_cluster_ok[where arrive = arrive and ss = ss and w = w, OF assms(1,2) _ this _ assms(6,7)] assms(3,5) show ?thesis
    by (simp add: copyNonDedupedData_def copyNonDedupedSameCluster_def)
qed

theorem copy_within_cluster_witness:
  "\<exists>w'. copyNonDedupedData ex_enum id ''v'' ''x'' 1 1 ex_ccl None ex_sworld = Some (None, w') \<and>
     route_hash mem_view (Cluster_route ex_cluster) (nonDedupedStorageKey ''x'') w' 0 = Some [7]"
  using copy_within_cluster[OF ex_copy_ardb ex_copy_cluster, of "''v''" "''x''" ex_sworld id "Cluster_members ex_cluster" ex_enum 1] ex_shash(1)
  by (auto simp: ex_members_list ex_sview ex_part_def ex_server_def nonDedupedStorageKey_def nonDedupedStorageKeyPrefix_def split: if_splits)

text \<open>
  C24: copying a non-deduped vdisk to a cluster with another number of servers
  succeeds, whatever pages the scans return and whatever the order of servers and of the entries of a page; every
  block of the source is then found where the target cluster looks for it.
\<close>

theorem copy_nondeduped_between_clusters:
  assumes "ardb_copy srv view up" and "ardb_cluster srv view up cl route members" and "ardb_cluster srv view up tc troute tmembers"
    and "\<forall>s \<in> set members. up s"
    and "placed view route members (nonDedupedStorageKey sourceID) (\<lambda>v. \<not> all_zero v) w"
    and "hash_ok view troute up (nonDedupedStorageKey targetID) w" and "good_enum enum"
    and "nonDedupedStorageKey targetID \<noteq> nonDedupedStorageKey sourceID \<or> set members \<inter> set tmembers = {}"
    and "arrive (map (storageServer srv) members) = map (storageServer srv) ss" and "set ss = set members"
    and "\<exists>i \<ge> 0. route_hash view route (nonDedupedStorageKey sourceID) w i \<noteq> None"
    and "ServerCount cl \<noteq> ServerCount tc"
  shows "\<exists>w'. copyNonDedupedData enum arrive sourceID targetID bs bs cl (Some tc) w = Some (None, w') \<and>
    (\<forall>i \<ge> 0. route_hash view troute (nonDedupedStorageKey targetID) w' i =
       (case route_hash view route (nonDedupedStorageKey sourceID) w i of
          None \<Rightarrow> route_hash view troute (nonDedupedStorageKey targetID) w i | Some v \<Rightarrow> Some v))"
  using ardb_copy.copyNonDedupedDifferentServerCount_ok[where arrive = arrive and ss = ss and enum = enum, OF assms(1-11)] assms(12) by (simp add: copyNonDedupedData_def)

theorem copy_nondeduped_between_clusters_witness:
  "\<exists>w'. copyNonDedupedData sorted_enum id ''v'' ''v'' 1 1 ex_ccl (Some ex_ctc) ex_sworld = Some (None, w') \<and>
     route_hash mem_view (Cluster_route ex_tcluster) (nonDedupedStorageKey ''v'') w' 0 = Some [7]"
proof -
  have "id (map (storageServer (mem_copy_srv {})) (Cluster_members ex_cluster)) = map (storageServer (mem_copy_srv {})) (Cluster_members ex_cluster)"
    by simp
  from copy_nondeduped_between_clusters[where arrive = id, OF ex_copy_ardb ex_copy_cluster ex_copy_tcluster ex_copy_facts(4) ex_placed(1) ex_shash(3)
      sorted_enum_good _ this refl ex_copy_facts(2) ex_copy_facts(1), of "[CHR ''v'']" 1] ex_members ex_shash(1)
  show ?thesis by fastforce
qed

text \<open>
  C25: the same for the metadata of a deduped vdisk: the sectors of its LBA are written
  through the sector storage of the target.
\<close>

theorem copy_deduped_between_clusters:
  assumes "ardb_copy srv view up" and "ardb_cluster srv view up cl route members" and "ardb_cluster srv view up tc troute tmembers"
    and "\<forall>s \<in> set members. up s"
    and "placed view route members (lbaStorageKey sourceID) (\<lambda>v. length v = 4096 \<and> \<not> all_zero v) w"
    and "hash_ok view troute up (lbaStorageKey targetID) w" and "good_enum enum"
    and "lbaStorageKey targetID \<noteq> lbaStorageKey sourceID \<or> set members \<inter> set tmembers = {}"
    and "arrive (map (storageServer srv) members) = map (storageServer srv) ss" and "set ss = set members"
    and "\<exists>i \<ge> 0. route_hash view route (lbaStorageKey sourceID) w i \<noteq> None"
    and "ServerCount cl \<noteq> ServerCount tc"
  shows "\<exists>w'. copyDedupedMetadata enum arrive sourceID targetID bs bs cl (Some tc) w = Some (None, w') \<and>
    (\<forall>i \<ge> 0. route_hash view troute (lbaStorageKey targetID) w' i =
       (case route_hash view route (lbaStorageKey sourceID) w i of
          None \<Rightarrow> route_hash view troute (lbaStorageKey targetID) w i | Some v \<Rightarrow> Some v))"
  using ardb_copy.copyDedupedDifferentServerCount_ok[where arrive = arrive and ss = ss and enum = enum, OF assms(1-11)] assms(12) by (simp add: copyDedupedMetadata_def)

theorem copy_deduped_between_clusters_witness:
  "\<exists>w'. copyDedupedMetadata sorted_enum id ''v'' ''v'' 1 1 ex_ccl (Some ex_ctc) ex_sworld = Some (None, w') \<and>
     route_hash mem_view (Cluster_route ex_tcluster) (lbaStorageKey ''v'') w' 0 = Some (replicate 4096 1)"
proof -
  have "id (map (storageServer (mem_copy_srv {})) (Cluster_members ex_cluster)) = map (storageServer (mem_copy_srv {})) (Cluster_members ex_cluster)"
    by simp
  from copy_deduped_between_clusters[where arrive = id, OF ex_copy_ardb ex_copy_cluster ex_copy_tcluster ex_copy_facts(4) ex_placed(2) ex_shash(3)
      sorted_enum_good _ this refl ex_copy_facts(3) ex_copy_facts(1), of "[CHR ''v'']" 1] ex_members ex_shash(2)
  show ?thesis by fastforce
qed

text \<open>
  The metadata of the transaction log read back is the metadata stored, for all 64-bit
  sequence numbers, through their decimal form on the server.
\<close>

lemma tlog_metadata_roundtrip_ok:
  assumes "ardb_copy srv view up" and "ardb_cluster srv view up cl route members" and "up (hd members)"
    and "hash_at (view w (hd members) (tlogMetadataKey vd)) \<noteq> None"
  shows "\<exists>w1 w2. StoreTlogMetadata vd cl md w = (None, w1) \<and> LoadTlogMetadata vd (Some cl) w1 = (Inr md, w2)"
  by (rule ardb_copy.tlog_metadata_roundtrip[OF assms])

text \<open>
  C27: \<open>ListVdisks\<close> with its goroutines, one per server, interleaved in any way. It returns, sorted
  and without duplicates, only identifiers that the predicate accepts and of which some server holds an LBA or
  non-deduped blocks. The goroutines share the variable \<open>reply\<close>, so each contributes the list of the server that
  answered last before it reads the variable; the result is all such identifiers when no server answers
  between another's answer and its reading.
\<close>

theorem list_vdisks_complete:
  assumes "ardb_scan srv view up" and "ardb_cluster srv view up cl route members"
    and "\<forall>s \<in> set members. up s \<and> finite (dom (view w s))" and "list_schedule (length members) es"
  shows "\<exists>ids w'. ListVdisks es cl pred w = Some (Inr ids, w') \<and> view w' = view w \<and> sorted ids \<and> distinct ids \<and>
    set ids = (\<Union>p \<in> set (takes None es). seen_ids view pred w members (snd p)) \<and>
    set ids \<subseteq> (\<Union>s \<in> set members. vdisk_ids view pred w s) \<and>
    (list_all (\<lambda>(i, l). l = Some i) (takes None es) \<longrightarrow> set ids = (\<Union>s \<in> set members. vdisk_ids view pred w s))"
  using ardb_scan.ListVdisks_ok[OF assms, of pred] ardb_scan.seen_ids_sound[OF assms(1,4), of pred w]
    ardb_scan.seen_ids_complete[OF assms(1,4), of pred w] by (metis (no_types, lifting))

text \<open>Two servers that answer one after the other: both are listed. Server 1 answers while server 0 waits: server 0 is not.\<close>

theorem list_vdisks_complete_witness:
  "(\<exists>ids w'. ListVdisks [ListDo 0, ListTake 0, ListDo 1, ListTake 1, ListSend 1, ListSend 0]
      (Cluster_cluster (mem_scan_srv {}) id ex_cluster) None ex_sworld = Some (Inr ids, w') \<and> ''v'' \<in> set ids) \<and>
   (\<exists>ids w'. ListVdisks [ListDo 0, ListDo 1, ListTake 0, ListTake 1, ListSend 1, ListSend 0]
      (Cluster_cluster (mem_scan_srv {}) id ex_cluster) None ex_lworld = Some (Inr ids, w') \<and> ids = [])"
proof -
  have "dom (mem_view ex_sworld s) \<subseteq> {''nondedup:v'', ''lba:v''}" "dom (mem_view ex_lworld s) \<subseteq> {''lba:w''}" for s
    by (auto simp: ex_sview ex_lview split: option.splits if_splits)
  from finite_subset[OF this(1)] finite_subset[OF this(2)]
  have f: "\<forall>s \<in> set (Cluster_members ex_cluster). ex_up s \<and> finite (dom (mem_view ex_sworld s))"
    "\<forall>s \<in> set (Cluster_members ex_cluster). ex_up s \<and> finite (dom (mem_view ex_lworld s))" by simp_all
  have sch: "list_schedule (length (Cluster_members ex_cluster)) [ListDo 0, ListTake 0, ListDo 1, ListTake 1, ListSend 1, ListSend 0]"
    "list_schedule (length (Cluster_members ex_cluster)) [ListDo 0, ListDo 1, ListTake 0, ListTake 1, ListSend 1, ListSend 0]"
    by (simp_all add: ex_members_list list_schedule_def)
  have v: "''v'' \<in> vdisk_ids mem_view None ex_sworld (ex_server ''a:6379'')"
    "vdisk_ids mem_view None ex_lworld (ex_server ''b:6379'') = {}"
    by (simp_all add: vdisk_ids_def ex_sview ex_lview ex_part_def ex_server_def lbaStorageKey_def lbaStorageKeyPrefix_def)
  from list_vdisks_complete[OF ex_scan_ardb ex_scan_cluster, OF f(1) sch(1), of None]
    list_vdisks_complete[OF ex_scan_ardb ex_scan_cluster, OF f(2) sch(2), of None] v show ?thesis
    by (auto simp: ex_members_list seen_ids_def)
qed
section \<open>Clusters with a state controller\<close>

text \<open>
  C22: however references and configurations change and actions report failures, the number of
  servers of a defined cluster never changes, and as long as the same servers are dead an object is looked up at the
  same position: the lookup gives the server configured there, or fails when it is not online.
\<close>

theorem controller_routing_stable:
  assumes "searchable ctrl" and "0 \<le> i"
  shows "\<exists>t. 0 \<le> t \<and> t < ctrl_serverCount ctrl \<and>
    (\<forall>ctrl' ccw ccw'. (controller_step getID)\<^sup>*\<^sup>* (ctrl, ccw) (ctrl', ccw') \<longrightarrow>
       ctrl_serverCount ctrl' = ctrl_serverCount ctrl \<and>
       ((\<forall>k < length (ctrl_servers ctrl). State (ctrl_servers ctrl' ! k) = RIP \<longleftrightarrow> State (ctrl_servers ctrl ! k) = RIP) \<longrightarrow>
        ctrl_ServerStateFor i ctrl' =
          Some (if State (ctrl_servers ctrl' ! nat t) = Online then Inr \<lparr>ss_Index = t, ss_Config = ctrl_servers ctrl' ! nat t\<rparr>
                else Inl ErrServerUnavailable)))"
proof -
  have ok: "ctrl_ok ctrl" and n: "ctrl_serverCount ctrl \<le> 2 ^ 15" using assms(1) by (simp_all add: searchable_def)
  from assms(1) obtain k where k: "k < length (ctrl_servers ctrl)" "State (ctrl_servers ctrl ! k) \<noteq> RIP"
    by (auto simp: searchable_def in_set_conv_nth)
  then have n0: "ctrl_serverCount ctrl \<noteq> 0" and kn: "int k < ctrl_serverCount ctrl" using ok by (auto simp: ctrl_ok_def)
  have reach: "ctrl_ok ctrl' \<and> ctrl_serverCount ctrl' = ctrl_serverCount ctrl"
    if "(controller_step getID)\<^sup>*\<^sup>* (ctrl, ccw) (ctrl', ccw')" for ctrl' ccw ccw'
    using controller_reach_keeps[OF that] ok n0 by simp
  from ServerStateFor_search[OF ok assms(2) n _ kn] k(2) obtain t where "0 \<le> t" "t < ctrl_serverCount ctrl"
    "\<forall>ctrl'. ctrl_ok ctrl' \<longrightarrow> ctrl_serverCount ctrl' = ctrl_serverCount ctrl \<longrightarrow>
       (\<forall>k < length (ctrl_servers ctrl). State (ctrl_servers ctrl' ! k) = RIP \<longleftrightarrow> State (ctrl_servers ctrl ! k) = RIP) \<longrightarrow>
       ctrl_ServerStateFor i ctrl' =
         Some (if State (ctrl_servers ctrl' ! nat t) = Online then Inr \<lparr>ss_Index = t, ss_Config = ctrl_servers ctrl' ! nat t\<rparr>
               else Inl ErrServerUnavailable)" by auto
  with reach show ?thesis by (intro exI[of _ t]) blast
qed

theorem controller_routing_stable_witness:
  "\<exists>t. ctrl_ServerStateFor 4 ex_ctrl =
     Some (if State (ctrl_servers ex_ctrl ! nat t) = Online then Inr \<lparr>ss_Index = t, ss_Config = ctrl_servers ex_ctrl ! nat t\<rparr>
           else Inl ErrServerUnavailable)"
  using controller_routing_stable[OF ex_ctrl_ok(2), of 4 getPrimaryClusterID] by fastforce

text \<open>
  C21: \<open>DoFor\<close> applies the action to the server that keeps the object. When that server is not online
  it fails and changes nothing; when the action fails the server is marked as offline, and every later
  operation on the object fails until a configuration changes that.
\<close>

theorem controller_dofor_outcome:
  assumes "searchable ctrl" and "0 \<le> i"
  shows "\<exists>t. 0 \<le> t \<and> t < ctrl_serverCount ctrl \<and> State (ctrl_servers ctrl ! nat t) \<noteq> RIP \<and>
    (\<forall>act w. storage_DoFor srv i act (w, ctrl) =
       (if State (ctrl_servers ctrl ! nat t) \<noteq> Online then Some ((RNil, Some ErrServerUnavailable), w, ctrl)
        else let (res, w') = server_Do srv (ctrl_servers ctrl ! nat t) act w
             in Some (if done_ok res then (res, w', ctrl)
                      else ((RNil, Some ErrServerUnavailable), w', offline_at t ctrl)))) \<and>
    (\<forall>act w. State (ctrl_servers ctrl ! nat t) = Online \<longrightarrow>
       storage_DoFor srv i act (w, offline_at t ctrl) = Some ((RNil, Some ErrServerUnavailable), w, offline_at t ctrl))"
  by (rule storage_DoFor_outcome[OF assms])

theorem controller_dofor_outcome_witness:
  "\<exists>res w' ctrl'. storage_DoFor (mem_srv {}) 4 (Command Get [AStr ''k'']) (ex_world, ex_ctrl) = Some (res, w', ctrl')"
proof -
  from controller_dofor_outcome[OF ex_ctrl_ok(2), of 4 "mem_srv {}"] obtain t where
    "storage_DoFor (mem_srv {}) 4 (Command Get [AStr ''k'']) (ex_world, ex_ctrl) =
       (if State (ctrl_servers ex_ctrl ! nat t) \<noteq> Online then Some ((RNil, Some ErrServerUnavailable), ex_world, ex_ctrl)
        else let (res, w') = server_Do (mem_srv {}) (ctrl_servers ex_ctrl ! nat t) (Command Get [AStr ''k'']) ex_world
             in Some (if done_ok res then (res, w', ex_ctrl)
                      else ((RNil, Some ErrServerUnavailable), w', offline_at t ex_ctrl)))" by auto
  then show ?thesis by (auto split: prod.splits)
qed

text \<open>
  C23: the loops of \<open>Do\<close> and \<open>DoFor\<close> and of the servers an iterator delivers, which retry
  until an action is applied, return on every cluster whose servers are not all dead, and change at most one server, to
  offline, and only when they report an error.
\<close>

theorem storage_operations_return:
  assumes "searchable ctrl" and "0 \<le> i"
  shows "\<forall>f \<in> {storage_Do srv act, storage_DoFor srv i act, smartServer_Do srv i act}.
    \<exists>res w' ctrl'. f (w, ctrl) = Some (res, w', ctrl') \<and>
      (ctrl' = ctrl \<or> (\<exists>t. 0 \<le> t \<and> t < ctrl_serverCount ctrl \<and> ctrl' = offline_at t ctrl \<and> snd res \<noteq> None))"
  using lookup_first.apply_loop_returns[of ctrl srv act w] lookup_for.apply_loop_returns[of ctrl i srv act w]
    lookup_at.apply_loop_returns[of ctrl i srv act w] assms
  by (simp add: storage_Do_def storage_DoFor_def smartServer_Do_def searchable_def)

theorem storage_operations_return_witness:
  "\<exists>res w' ctrl'. storage_Do (mem_srv {ex_server ''a:6379''}) (Command Get [AStr ''k'']) (ex_world, ex_ctrl) = Some (res, w', ctrl')"
  using storage_operations_return[OF ex_ctrl_ok(2), of 0 "mem_srv {ex_server ''a:6379''}" "Command Get [AStr ''k'']" ex_world] by auto

text \<open>
  On servers that are online or dead, with no failure, \<open>DoFor\<close> of a cluster with a controller gives the reply of \<open>DoFor\<close> of
  the cluster without one (\<open>nbd/ardb/cluster.go\<close>) on the same servers. \<open>DoForAll\<close> and the server iterator differ: the
  first panics on a cluster with a controller, the second delivers dead servers too.
\<close>

lemma storage_dofor_agrees:
  assumes "NewCluster validStruct isDialString cfg = Inr cl" and "length (Servers cfg) \<le> 2 ^ 15"
    and "ctrl_servers ctrl = servers cl" and "ctrl_ok ctrl" and "0 \<le> i"
    and "Cluster_DoFor srv cl i act w = (res, w')" and "done_ok res"
  shows "storage_DoFor srv i act (w, ctrl) = Some (res, w', ctrl)"
  by (rule storage_DoFor_agrees[OF NewCluster_small(1,2)[OF assms(1,2)] assms(3-7)])

section \<open>The transaction log\<close>

text \<open>
  C12: the transaction log from end to end. The transactions a tlog storage has sent, numbered from 1, go through any run of a tlog client (sending,
  resending, losing connections, changing servers) and any run of a tlog server that receives the messages of this client in any order, any number of times or
  not at all, while it flushes. Then a player that walks the object store and replays everything puts a storage into the state after the first \<open>k\<close>
  transactions, and \<open>k\<close> is at least every sequence the server has reported as flushed. The run of the server follows the first connection of a
  client; that a later connection takes unflushed blocks a second time is a lemma of \<open>Tlog_Vdisk\<close>. The hypotheses: the object store, etcd and Cap'n Proto return what was
  written, the vdisk starts without stored data, and different aggregations have different keys.
\<close>

theorem tlog_pipeline_replay:
  assumes "tlog_service env objects etcd vid"
    and "map t_Sequence ts = sequences_from 1 (length ts)" and "length ts + 1 < 2 ^ 64" and "\<forall>t \<in> set ts. allocs env t \<and> transaction_ok blockSize valid t"
    and "client_run env t1 cevs (newClient addrs) = Inr (msgs, c)" and "list_all (sends_only ts) cevs"
    and "objects w0 = Map.empty" and "etcd w0 = Map.empty" and "stor_NewClient (te_zs env) (te_dec env) vid w0 = Some (Inr cl)"
    and "vd_connect env conn (newVdisk vid cl flushSize ss [], w0) = Some (r, vd0)" and "flushSize < 2 ^ 31"
    and "vd_run env t2 sevs (vd0, w0) = (vd, w)" and "delivered msgs sevs" and "0 \<le> t2"
    and "block_storage bs blockSize valid Inv content" and "Inv s"
  shows "\<exists>k \<le> length ts. \<exists>seq s'. Replay bs (\<lambda>fr to. map walk_agg (stor_Walk (te_zs env) (te_dec env) (vd_storClient vd) w fr to))
        (NewLimitBySequence (t2 + int (length sevs)) 0 0) (s, ()) = ((seq, None), s', ()) \<and> Inv s' \<and>
      content s' = fold apply_transaction (take k ts) (content s) \<and>
      (\<forall>seqs. (FlushOK, seqs) \<in> set (vd_respChan vd) \<longrightarrow> (\<forall>q \<in> set seqs. unat q \<le> k))"
  using assms by (rule pipeline_replay)

theorem tlog_pipeline_replay_witness:
  "\<exists>msgs c vd w k seq s'. 2 \<le> k \<and>
     client_run mem_env 0 ex_cevs (newClient [''a'', ''b'']) = Inr (msgs, c) \<and>
     vd_run mem_env 0 ex_sevs (ex_vd0, ex_stor_world) = (vd, w) \<and>
     Replay inMemory (\<lambda>fr to. map walk_agg (stor_Walk mem_stor decode_agg (vd_storClient vd) w fr to)) (NewLimitBySequence 8 0 0) (ex_ms, ()) = ((seq, None), s', ()) \<and>
     vdisk s' = fold apply_transaction (take k ex_transactions) (vdisk ex_ms)"
proof -
  from ex_client_run obtain msgs c where c: "client_run mem_env 0 ex_cevs (newClient [''a'', ''b'']) = Inr (msgs, c)" "set msgs = set ex_msgs" by blast
  obtain vd w where run: "vd_run mem_env 0 ex_sevs (ex_vd0, ex_stor_world) = (vd, w)" by fastforce
  have m: "delivered msgs ex_sevs" using c(2) ex_delivered by (simp add: delivered_def)
  have f: "(FlushOK, [1, 2]) \<in> set (vd_respChan vd)" using ex_responses by (simp add: run)
  from tlog_pipeline_replay[OF mem_service.tlog_service_axioms ex_transactions_ok c(1) ex_sends _ _ _ ex_connect(2) _ run m _
    memory_storage.block_storage_axioms[of 2] ex_ms_ok] ex_connect(1)
  obtain k seq s' where k: "Replay inMemory (\<lambda>fr to. map walk_agg (stor_Walk mem_stor decode_agg (vd_storClient vd) w fr to)) (NewLimitBySequence 8 0 0) (ex_ms, ()) =
      ((seq, None), s', ())" "vdisk s' = fold apply_transaction (take k ex_transactions) (vdisk ex_ms)"
    "\<forall>seqs. (FlushOK, seqs) \<in> set (vd_respChan vd) \<longrightarrow> (\<forall>q \<in> set seqs. unat q \<le> k)"
    by (auto simp: ex_stor_world_def mem_env_def ex_sevs_def)
  from k(3) f have "unat (2 :: uint64) \<le> k" by fastforce
  then have "2 \<le> k" by simp
  with c(1) run k(1,2) show ?thesis by blast
qed

text \<open>
  C13: a vdisk of the tlog server that starts without stored data. Whatever blocks of a log arrive after the first connection, in whatever order and how
  often, with blocks whose hash is wrong in between, and whenever the server flushes: it does not stop, walking the object store returns aggregations that hold, in
  order and each block once, the first \<open>k\<close> blocks of the log, and no block after the \<open>k\<close>-th has been reported as flushed. A second connection to the vdisk is not
  part of the run.
\<close>

theorem tlog_server_prefix:
  assumes "tlog_vdisk env objects etcd vid blocklog N" and "objects w0 = Map.empty" and "etcd w0 = Map.empty"
    and "stor_NewClient (te_zs env) (te_dec env) vid w0 = Some (Inr cl)"
    and "vd_connect env conn (newVdisk vid cl flushSize ss [], w0) = Some (r, vd0)" and "flushSize < 2 ^ 31"
    and "list_all (event_in_log env blocklog N) evs" and "vd_run env t evs (vd0, w0) = (vd, w)" and "0 \<le> t"
  shows "\<not> vd_stopped vd \<and> (\<exists>k \<le> N. \<exists>aggs.
      map walk_agg (stor_Walk (te_zs env) (te_dec env) (vd_storClient vd) w 0 (t + int (length evs))) = map Inr aggs \<and>
      concat (map used_blocks aggs) = map blocklog [1..<Suc k] \<and>
      (\<forall>seqs. (FlushOK, seqs) \<in> set (vd_respChan vd) \<longrightarrow> (\<forall>q \<in> set seqs. unat q \<le> k)))"
proof -
  from tlog_vdisk.vd_run_ok[OF assms(1) tlog_vdisk.connect_first(2)[OF assms(1,4,2,3,5,6)] assms(7), of t] assms(8) obtain aggs where
    i: "vd_inv env objects etcd vid blocklog N (vd, w) aggs" and ts: "\<forall>a \<in> set aggs. t \<le> ta_Timestamp a \<and> ta_Timestamp a < t + int (length evs)" by auto
  have "stor_rel (te_enc env) (vd_storClient vd) (objects w) (etcd w) (map (key_of env vid) aggs) aggs" using i by (simp add: vd_inv_def stored_inv_def)
  moreover have "\<forall>a \<in> set aggs. 0 \<le> ta_Timestamp a \<and> ta_Timestamp a \<le> t + int (length evs)" using ts assms(9) by auto
  ultimately have "map walk_agg (stor_Walk (te_zs env) (te_dec env) (vd_storClient vd) w 0 (t + int (length evs))) = map Inr aggs"
    by (rule tlog_stor.stor_Walk_ok[OF tlog_service.axioms(1)[OF tlog_vdisk.axioms(1)[OF assms(1)]]])
  moreover have "\<not> vd_stopped vd" using i by (simp add: vd_inv_def)
  ultimately show ?thesis using tlog_vdisk.stored_prefix[OF assms(1) i] by blast
qed

theorem tlog_server_prefix_witness:
  "\<exists>vd w k aggs. 2 \<le> k \<and> vd_run mem_env 0 ex_sevs (ex_vd0, ex_stor_world) = (vd, w) \<and> \<not> vd_stopped vd \<and>
     map walk_agg (stor_Walk mem_stor decode_agg (vd_storClient vd) w 0 8) = map Inr aggs \<and>
     concat (map used_blocks aggs) = map (log_of mem_env ex_transactions) [1..<Suc k]"
proof -
  obtain vd w where run: "vd_run mem_env 0 ex_sevs (ex_vd0, ex_stor_world) = (vd, w)" by fastforce
  have f: "(FlushOK, [1, 2]) \<in> set (vd_respChan vd)" using ex_responses by (simp add: run)
  have "zw_objects ex_stor_world = Map.empty" "zw_etcd ex_stor_world = Map.empty" by (simp_all add: ex_stor_world_def)
  from tlog_server_prefix[OF ex_log this _ ex_connect(2) _ ex_events_in_log run] ex_connect(1)
  obtain k aggs where k: "\<not> vd_stopped vd" "map walk_agg (stor_Walk mem_stor decode_agg (vd_storClient vd) w 0 8) = map Inr aggs"
    "concat (map used_blocks aggs) = map (log_of mem_env ex_transactions) [1..<Suc k]"
    "\<forall>seqs. (FlushOK, seqs) \<in> set (vd_respChan vd) \<longrightarrow> (\<forall>q \<in> set seqs. unat q \<le> k)"
    by (auto simp: mem_env_def ex_sevs_def)
  from k(4) f have "unat (2 :: uint64) \<le> k" by fastforce
  then have "2 \<le> k" by simp
  with run k(1-3) show ?thesis by blast
qed

text \<open>
  C14: whatever the network, the servers and the resender do, a block the client has sent, or had in its buffer, is still in its buffer to be
  sent again, or a flush of it, or of a sequence at least as high, has been reported.
\<close>

theorem tlog_client_no_loss:
  assumes "client_run env now evs c = Inr (msgs, c')"
  shows "unflushed (tc_blockBuffer c) \<union> sent_seqs msgs \<subseteq>
    unflushed (tc_blockBuffer c') \<union> {q. q \<le> LastFlushedSequence_client c'} \<union> acked evs"
  using client_run_kept[OF assms] by (auto simp: kept_def LastFlushedSequence_client_def LastFlushed_def)

theorem tlog_client_no_loss_witness:
  "\<exists>msgs c. client_run mem_env 0 ex_cevs (newClient [''a'', ''b'']) = Inr (msgs, c) \<and> set msgs = set ex_msgs \<and>
     sent_seqs msgs \<subseteq> unflushed (tc_blockBuffer c) \<union> {q. q \<le> LastFlushedSequence_client c} \<union> acked ex_cevs"
proof -
  from ex_client_run obtain msgs c where c: "client_run mem_env 0 ex_cevs (newClient [''a'', ''b'']) = Inr (msgs, c)" "set msgs = set ex_msgs" by blast
  from tlog_client_no_loss[OF c(1)] c show ?thesis by blast
qed

text \<open>
  C15: a client reconnects within as many attempts as it has servers when one of them accepts it throughout; then every block that is not flushed is to be
  sent again.
\<close>

theorem tlog_client_reconnects:
  assumes "a \<in> set (tc_servers c)" and "\<forall>attempt. accepts (dial attempt a)"
  shows "\<exists>c'. reconnect dial 0 (length (tc_servers c)) c = (True, c') \<and> to_resend (tc_blockBuffer c') = unflushed (tc_blockBuffer c') \<and>
    queued (tc_blockBuffer c') {} \<and> unflushed (tc_blockBuffer c) \<subseteq> unflushed (tc_blockBuffer c') \<union> {q. q \<le> LastFlushedSequence_client c'}"
proof -
  from reconnect_returns[where dial = dial, OF assms, of 0] obtain c' where c: "reconnect dial 0 (length (tc_servers c)) c = (True, c')" by blast
  from reconnect_resends[OF c] obtain b where b: "tc_blockBuffer c' = SetResendAll b" by blast
  have "queued (SetResendAll b) {}" by (rule queued_ops(5)[of b UNIV]) (simp add: queued_def)
  with c b reconnect_kept[OF c] show ?thesis by (auto simp: unflushed_SetResendAll kept_def LastFlushedSequence_client_def LastFlushed_def)
qed

theorem tlog_client_reconnects_witness:
  "\<exists>c'. reconnect ex_dial 0 2 (newClient [''a'', ''b'']) = (True, c') \<and> to_resend (tc_blockBuffer c') = unflushed (tc_blockBuffer c')"
  using tlog_client_reconnects[of "''b''" "newClient [''a'', ''b'']" ex_dial]
  by (auto simp: newClient_def ex_dial_def accepts_def HandshakeStatus_Error_def numeral_2_eq_2)

text \<open>
  C16: the tlog storage around any storage that keeps the block storage contract, once its tlog server is ready. Whatever the order of client operations,
  responses of the server, runs of the flusher and of the sender: the client is answered as by a map from block indices to contents, and the transactions sent and still to be sent
  are one for each write, with consecutive sequences, and applying them to the contents at the start gives the contents at the end. Contents are values: the cache of the source keeps the slice it is
  given and returns it to readers, and the property is for callers that do not write into such a slice.
\<close>

theorem tlog_history_refines:
  assumes "tlog_storage bs blockSize valid Inv content enum" and "Inv s" and "tls_ok blockSize valid tls" and "tls_tlogReady tls"
    and "list_all (event_ok blockSize valid) evs" and "unat (tls_sequence tls) + length (filter is_write evs) < 2 ^ 64" and "\<forall>t. send t = SendOK"
  shows "\<exists>sent new tls' s'. tls_run enum bs send now evs (tls, s) =
      Inr (fst (spec_ops (client_ops_of evs) (tls_content content (tls, s))), sent, tls', s') \<and> Inv s' \<and> tls_ok blockSize valid tls' \<and>
    tls_content content (tls', s') = snd (spec_ops (client_ops_of evs) (tls_content content (tls, s))) \<and>
    sent @ tls_transactionCh tls' = tls_transactionCh tls @ new \<and>
    fold apply_transaction new (tls_content content (tls, s)) = tls_content content (tls', s') \<and>
    map t_Sequence new = sequences_from (tls_sequence tls) (length (filter is_write evs)) \<and> (\<forall>t \<in> set new. transaction_ok blockSize valid t)"
  using tlog_storage.tls_run_ok[OF assms, of now] by blast

theorem tlog_history_refines_witness:
  "\<exists>replies sent tls' s'. tls_run sorted_elements inMemory (\<lambda>_. SendOK) 0 ex_tevs (ex_tls, ex_ms) = Inr (replies, sent, tls', s') \<and>
     replies = fst (spec_ops (client_ops_of ex_tevs) (tls_content vdisk (ex_tls, ex_ms))) \<and>
     map t_Sequence (sent @ tls_transactionCh tls') = [1, 2]"
proof -
  have w: "filter is_write ex_tevs = [TlsClient (TSet 0 [1, 2]), TlsClient (TDelete 0)]" by (simp add: ex_tevs_def)
  have "list_all (event_ok 2 (\<lambda>_. True)) ex_tevs" by (simp add: ex_tevs_def)
  from tlog_history_refines[OF tlog_memory.tlog_storage_axioms[of 2] ex_ms_ok ex_tls_ok this, of "\<lambda>_. SendOK" 0] show ?thesis
    by (auto simp: w ex_tls_def sequences_from_def)
qed

text \<open>
  C17: a \<open>Flush\<close> of the tlog storage that returns without an error leaves the whole contents in the storage underneath, whatever happened while it waited,
  and has stored the tlog metadata.
\<close>

theorem tlog_flush_durable:
  assumes "tlog_storage bs blockSize valid Inv content enum" and "Inv s" and "tls_ok blockSize valid tls" and "tls_tlogReady tls"
    and "\<forall>m s. Inv s \<longrightarrow> (\<exists>s'. store_md m s = (None, s') \<and> Inv s' \<and> content s' = content s)"
    and "tls_Flush enum bs store_md ready rounds (tls, s) = Some (None, tls', s')"
  shows "Inv s' \<and> content s' = tls_content content (tls, s) \<and> tls_content content (tls', s') = tls_content content (tls, s) \<and>
    (\<exists>s1. store_md (tls_metadata tls') s1 = (None, s'))"
proof -
  have md: "\<And>m s. Inv s \<Longrightarrow> \<exists>s'. store_md m s = (None, s') \<and> Inv s' \<and> content s' = content s" using assms(5) by blast
  show ?thesis using tlog_storage.tls_Flush_ok[OF assms(1-4) md assms(6)] by blast
qed

theorem tlog_flush_durable_witness:
  "\<exists>tls' s'. tls_Flush sorted_elements inMemory (\<lambda>m s. (None, s)) None [Received (Response FlushOK [1]), FlusherRuns] (ex_tls1, ex_ms) = Some (None, tls', s') \<and>
     vdisk s' = tls_content vdisk (ex_tls1, ex_ms)"
proof -
  from ex_flush obtain tls' s' where f: "tls_Flush sorted_elements inMemory (\<lambda>m s. (None, s)) None [Received (Response FlushOK [1]), FlusherRuns] (ex_tls1, ex_ms) = Some (None, tls', s')" by blast
  from tlog_flush_durable[OF tlog_memory.tlog_storage_axioms[of 2] ex_ms_ok ex_tls1_ok _ f] f show ?thesis by blast
qed



text \<open>
  C29: writes held back while the tlog server is not ready are, when it becomes ready, sent with sequences after the last one the server has; the contents a client
  sees do not change, and applying what is sent to the storage gives them.
\<close>

theorem tlog_getting_ready:
  assumes "tlog_storage bs blockSize valid Inv content enum" and "waiting_ok blockSize valid tls"
    and "unat (lastFlushed + 1) + length (tls_tlogNotReadyBuff tls) < 2 ^ 64"
  shows "let tls' = waitTlogServerReady now lastFlushed tls
    in tls_ok blockSize valid tls' \<and> tls_tlogReady tls' \<and> tls_tlogNotReadyBuff tls' = [] \<and>
       tls_content content (tls', s) = tls_content content (tls, s) \<and>
       fold apply_transaction (tls_transactionCh tls') (content s) = tls_content content (tls', s) \<and>
       map t_Sequence (tls_transactionCh tls') = sequences_from (lastFlushed + 1) (length (tls_tlogNotReadyBuff tls))"
  using tlog_storage.waitTlogServerReady_ok[OF assms, of now s] by (simp add: Let_def)

theorem tlog_getting_ready_witness:
  "let tls = snd (tls_set 0 3 (Some [1, 2]) ex_waiting); tls' = waitTlogServerReady 0 7 tls
   in length (tls_tlogNotReadyBuff tls) = 1 \<and> tls_tlogReady tls' \<and> map t_Sequence (tls_transactionCh tls') = [8] \<and>
      tls_content vdisk (tls', ex_ms) = tls_content vdisk (tls, ex_ms)"
proof -
  have "waiting_ok 2 (\<lambda>_. True) (snd (tls_set 0 3 (Some [1, 2]) ex_waiting))" and n: "length (tls_tlogNotReadyBuff (snd (tls_set 0 3 (Some [1, 2]) ex_waiting))) = 1"
    using ex_waiting_write by simp_all
  from tlog_getting_ready[OF tlog_memory.tlog_storage_axioms[of 2] this(1), of 7 0 ex_ms] n show ?thesis
    by (simp add: Let_def sequences_from_def)
qed
section \<open>Behaviours worth knowing\<close>

text \<open>
  C35: two blocks of a deduped vdisk have the same content, which only the template cluster
  holds. The backend reads the first block, changes the returned slice in place and stores it (\<open>merge\<close> and
  \<open>mergeZeroes\<close> of \<open>backend.go\<close>); the goroutine that \<open>GetBlock\<close> started stores the same slice afterwards, under the old
  hash. The second block, which nobody wrote, then reads as the changed content.
\<close>

theorem shared_slice_corrupts_content:
  assumes "dedup srv view up cl route members H C vd bsize tc troute order"
    and "ds_inv view route troute up H C vd bsize cl tc (ds, w, [])" and "0 \<le> i" and "0 \<le> j" and "i \<noteq> j"
    and "ds_content view route H C vd (ds, w, []) i = Some c" and "ds_content view route H C vd (ds, w, []) j = Some c"
    and "str_val view route w (H c) = None" and "d \<in> C" and "int (length d) = bsize"
  shows "fst (run_events (dedupedStorage H order) ds_run_task
      [Client (GetOp i), Overwrite 0 d, Client (SetOp i d), Background 0, Client (GetOp j)] (ds, w, [])) =
    [Content (Inr (Some c)), Status None, Content (Inr (Some d))]"
  by (rule dedup.merge_corrupts[OF assms])

theorem shared_slice_corrupts_content_witness:
  "\<exists>ds w. fst (run_events (dedupedStorage pad_hash (\<lambda>n. [0..<n])) ds_run_task
      [Client (GetOp 1), Overwrite 0 (replicate 16 8), Client (SetOp 1 (replicate 16 8)), Background 0, Client (GetOp 2)] (ds, w :: mem, [])) =
    [Content (Inr (Some (replicate 16 7))), Status None, Content (Inr (Some (replicate 16 8)))]"
proof -
  obtain ds w where s: "ds_inv mem_view (Cluster_route ex_cluster) (Some (Cluster_route ex_tcluster)) ex_up pad_hash {c. length c = 16}
      ''v'' 16 ex_cl (Some ex_tc) (ds, w, [])"
    "ds_content mem_view (Cluster_route ex_cluster) pad_hash {c. length c = 16} ''v'' (ds, w, []) 1 = Some (replicate 16 7)"
    "ds_content mem_view (Cluster_route ex_cluster) pad_hash {c. length c = 16} ''v'' (ds, w, []) 2 = Some (replicate 16 7)"
    "str_val mem_view (Cluster_route ex_cluster) w (pad_hash (replicate 16 7)) = None" using ex_shared by blast
  show ?thesis
    by (intro exI, rule shared_slice_corrupts_content[OF ex_dedup s(1) _ _ _ s(2-4)]) simp_all
qed

text \<open>
  C36: the sector storage tests for a nil reply before it looks at the error, so
  a sector on an unreachable server reads as the empty sector without an error, whatever the server holds.
\<close>

theorem unreachable_server_reads_empty_sector:
  assumes "ardb_cluster srv view up cl route members" and "route i = Some s" and "\<not> up s"
  shows "lba_GetSector cl (lbaStorageKey vd) i w = (Inr NewSector, w)"
proof -
  from ardb_cluster.server_down[OF assms(1), of s HashGet "[AStr (lbaStorageKey vd), AInt i]" w] assms(3)
  obtain e where "server_Do srv s (Command HashGet [AStr (lbaStorageKey vd), AInt i]) w = ((RNil, Some e), w)" by auto
  then show ?thesis by (simp add: lba_GetSector_def ardb_cluster.dofor[OF assms(1,2)])
qed

theorem unreachable_server_reads_empty_sector_witness:
  "lba_GetSector (UniCluster (mem_srv {ex_server ''a:6379''}) (ex_server ''a:6379'')) (lbaStorageKey ''v'') 3
     (\<lambda>s k. Some (MHash [(itoa 3, replicate 4096 1)])) = (Inr NewSector, \<lambda>s k. Some (MHash [(itoa 3, replicate 4096 1)]))"
  by (rule unreachable_server_reads_empty_sector[OF UniCluster_ardb_cluster[OF mem.ardb_axioms]])
    (simp_all add: ex_server_def)

text \<open>
  C37: when the cache is full and the eviction of the oldest sector fails to write it, the
  error is only logged: the access succeeds and the evicted sector is neither cached nor stored.
\<close>

theorem eviction_error_loses_sector:
  assumes "sectors b i = None" and "GetSector st i w = (Inr s, w1)" and "evictList b = xs @ [(q, e)]"
    and "int (length (evictList b)) = bucket_size b" and "SetSector st (sectorIndex e) (sector e) w1 = (Some err, w2)"
  shows "\<exists>p b'. getSector st b i w = (Inr (p, s), b', w2) \<and> evictList b' = (p, \<lparr>sectorIndex = i, sector = s\<rparr>) # xs \<and>
    sectors b' (sectorIndex e) = None"
  using assms by (auto simp: getSector_def PushFront_def flushOldest_def Let_def butlast_append)

theorem eviction_error_loses_sector_witness:
  "\<exists>p b'. getSector \<lparr>GetSector = (\<lambda>i w. (Inr NewSector, w)), SetSector = (\<lambda>i s w. (Some ErrServerUnavailable, w))\<rparr>
      \<lparr>sectors = [5 \<mapsto> 0], evictList = [(0, \<lparr>sectorIndex = 5, sector = NewSector\<lparr>dirty := True\<rparr>\<rparr>)], bucket_size = 1, next_elem = 1\<rparr>
      6 ''servers'' = (Inr (p, NewSector), b', ''servers'') \<and> sectors b' 5 = None"
  using eviction_error_loses_sector[where b = "\<lparr>sectors = [5 \<mapsto> 0],
      evictList = [(0, \<lparr>sectorIndex = 5, sector = NewSector\<lparr>dirty := True\<rparr>\<rparr>)], bucket_size = 1, next_elem = 1\<rparr>"
      and i = 6 and w = "''servers''" and xs = "[]"
      and st = "\<lparr>GetSector = (\<lambda>i w. (Inr NewSector, w)), SetSector = (\<lambda>i s w. (Some ErrServerUnavailable, w))\<rparr>"] by fastforce

text \<open>
  C38: the backend ignores the error of the read before a partial write, so when the read
  fails the write replaces the rest of the block by zeroes.
\<close>

theorem merge_after_failed_read:
  assumes "GetBlock bs (off div bsize) s = (Inl err, s1)" and "be_blockSize ab = bsize" and "0 \<le> off" and "0 < bsize"
    and "off mod bsize + int (length b) \<le> bsize" and "int (length b) < bsize"
    and "SetBlock bs (off div bsize)
      (replicate (nat (off mod bsize)) 0 @ b @ replicate (nat (bsize - off mod bsize) - length b) 0) s1 = (None, s2)"
  shows "WriteAt bs ab b off s = (Inr (int (length b)), s2)"
proof -
  have m: "0 \<le> off mod bsize" "off mod bsize < bsize" using assms(4) by simp_all
  then have "nat bsize - nat (off mod bsize) - length b = nat (bsize - off mod bsize) - length b" by (simp add: nat_diff_distrib)
  with m assms show ?thesis
    by (simp add: WriteAt_def backend_merge_def copy_at_def go_copy_def Let_def)
qed

text \<open>A block storage that cannot read but writes: the storage of the witness.\<close>

definition ex_broken :: "bytes list BlockStorage" where
  "ex_broken = \<lparr>SetBlock = (\<lambda>i c s. (None, s[nat i := c])), GetBlock = (\<lambda>i s. (Inl ErrServerUnavailable, s)),
     DeleteBlock = (\<lambda>i s. (None, s)), Flush = (\<lambda>s. (None, s)), Close = (\<lambda>s. (None, s))\<rparr>"

theorem merge_after_failed_read_witness:
  "WriteAt ex_broken \<lparr>be_vdiskID = ''v'', be_blockSize = 4, be_size = 8\<rparr> [7] 5 [[1, 1, 1, 1], [2, 2, 2, 2]] =
     (Inr 1, [[1, 1, 1, 1], [0, 7, 0, 0]])"
  using merge_after_failed_read[of ex_broken 5 4 "[[1, 1, 1, 1], [2, 2, 2, 2]]" ErrServerUnavailable "[[1, 1, 1, 1], [2, 2, 2, 2]]"
      "\<lparr>be_vdiskID = ''v'', be_blockSize = 4, be_size = 8\<rparr>" "[7]" "[[1, 1, 1, 1], [0, 7, 0, 0]]"]
  by (simp add: ex_broken_def numeral_2_eq_2)

text \<open>
  C39: a non-deduped storage stores a block of zeroes by deleting its field, so with a template
  cluster the template's block shows again after zeroes were written over it.
\<close>

theorem zero_write_shows_template:
  assumes "ardb_cluster srv view up cl route members" and "ardb_cluster srv view up tc troute tmembers"
    and "hash_ok view route up (nd_storageKey ss) w" and "hash_ok view troute up (nd_storageKey ss) w" and "0 \<le> i"
    and "nd_cluster ss = cl" and "nd_templateCluster ss = Some tc" and "all_zero zeros"
    and "set members \<inter> set tmembers = {}" and "route_hash view troute (nd_storageKey ss) w i = Some d"
  shows "\<exists>w1 w2. nd_SetBlock ss i zeros w = (None, w1) \<and> nd_GetBlock ss i w1 = (Inr (Some d), [(i, d)], w2)"
  by (rule nd_zero_write_shows_template[OF assms])

theorem zero_write_shows_template_witness:
  "\<exists>w1 w2. nd_SetBlock ex_ndt 3 (replicate 16 0) ex_tworld = (None, w1) \<and>
     nd_GetBlock ex_ndt 3 w1 = (Inr (Some (replicate 16 7)), [(3, replicate 16 7)], w2)"
  by (rule zero_write_shows_template[OF ex_ardb_cluster ex_ardb_tcluster])
    (simp_all add: ex_ndt_def ex_nd_def ex_thash ex_members all_zero_iff)

text \<open>
  C40: the goroutine that stores a template's block in the primary cluster writes it without
  looking, so when it runs after a write of the same block by the client, the client's write is lost.
\<close>

theorem template_task_loses_write:
  assumes "ardb_cluster srv view up cl route members" and "ardb_cluster srv view up tc troute tmembers"
    and "hash_ok view route up (nd_storageKey ss) w" and "hash_ok view troute up (nd_storageKey ss) w" and "0 \<le> i"
    and "nd_cluster ss = cl" and "nd_templateCluster ss = Some tc" and "route_hash view route (nd_storageKey ss) w i = None"
    and "route_hash view troute (nd_storageKey ss) w i = Some d" and "\<not> all_zero d"
  shows "\<exists>w1 w2 w3. nd_GetBlock ss i w = (Inr (Some d), [(i, d)], w1) \<and> nd_SetBlock ss i new w1 = (None, w2) \<and>
    nd_GetBlock ss i (nd_run_task ss (i, d) w2) = (Inr (Some d), [], w3)"
  by (rule nd_template_task_loses_write[OF assms])

theorem template_task_loses_write_witness:
  "\<exists>w1 w2 w3. nd_GetBlock ex_ndt 3 ex_tworld = (Inr (Some (replicate 16 7)), [(3, replicate 16 7)], w1) \<and>
     nd_SetBlock ex_ndt 3 (replicate 16 1) w1 = (None, w2) \<and>
     nd_GetBlock ex_ndt 3 (nd_run_task ex_ndt (3, replicate 16 7) w2) = (Inr (Some (replicate 16 7)), [], w3)"
  by (rule template_task_loses_write[OF ex_ardb_cluster ex_ardb_tcluster])
    (simp_all add: ex_ndt_def ex_nd_def ex_thash all_zero_iff)

text \<open>
  Between clusters with the same number of available servers the servers are copied one
  to one. Where the dead servers differ, the target cluster looks for a block elsewhere: here from
  the servers a, dead, b to c, d, where block 2 of b is copied to d, and is looked for on c. The copy
  reports success and the block reads as absent.
\<close>

lemma copy_same_count_misplaces_blocks:
  "map_option fst ex_copied = Some None \<and> ex_source_block 2 = Inr (Some [7]) \<and> ex_copied_block 2 = Some (Inr None)"
  by (simp only: ex_copied_eval simp_thms)

text \<open>
  C33: the controller has no check like that of \<open>NewCluster\<close> for a cluster without available servers,
  so when all servers are dead the search for the server of an object runs forever, under the lock of
  the controller.
\<close>

theorem dead_cluster_search_diverges:
  assumes "ctrl_ok ctrl" and "ctrl_servers ctrl \<noteq> []" and "\<forall>s \<in> set (ctrl_servers ctrl). State s = RIP" and "0 \<le> i"
    and "ctrl_serverCount ctrl \<le> 2 ^ 15"
  shows "storage_DoFor srv i act (w, ctrl) = None"
  by (rule storage_DoFor_dead[OF assms])

theorem dead_cluster_search_diverges_witness:
  "storage_DoFor (mem_srv {}) 0 (Command Get [AStr ''k'']) (ex_world, ex_dead_ctrl) = None"
  by (rule dead_cluster_search_diverges[OF ex_dead_ctrl_ok]) (simp_all add: ex_dead_ctrl_def)

text \<open>
  C34: a dead server is meant to stay dead, but a configuration without it marks it as unknown, and
  the next one with it makes it online again, without the data it should have.
\<close>

theorem dead_server_revived_by_reload:
  assumes "ctrl_ok ctrl" and "j < length (ctrl_servers ctrl)" and "State (ctrl_servers ctrl ! j) = RIP"
    and "length new = length (ctrl_servers ctrl)" and "State (new ! j) = Online"
  shows "(\<exists>ctrl'. setServers new ctrl = Inr ctrl' \<and> State (ctrl_servers ctrl' ! j) = RIP) \<and>
    (\<exists>ctrl1 ctrl2. setServers (take j new) ctrl = Inr ctrl1 \<and> setServers new ctrl1 = Inr ctrl2 \<and> State (ctrl_servers ctrl2 ! j) = Online)"
proof -
  have "ctrl_serverCount ctrl \<noteq> 0" using assms(1,2) by (auto simp: ctrl_ok_def)
  with setServers_ok[OF assms(1), of new] reloaded_dead[of j _ new] dead_server_revived[OF assms(1,2,4,5)] assms show ?thesis by simp
qed

theorem dead_server_revived_by_reload_witness:
  "\<exists>ctrl1 ctrl2. setServers [] ex_dead_ctrl = Inr ctrl1 \<and> setServers [ex_server ''dead:6379''] ctrl1 = Inr ctrl2 \<and>
     State (ctrl_servers ctrl2 ! 0) = Online"
  using dead_server_revived_by_reload[OF ex_dead_ctrl_ok(1), of 0 "[ex_server ''dead:6379'']"]
  by (simp add: ex_dead_ctrl_def ex_dead_def ex_server_def)

end
